(* ===== verification/Prelude.thy ===== *)
theory Prelude
  imports Main "HOL-Library.Word"
begin

text \<open>
  Shared vocabulary of the development: the fixed-width integer types of the program, the
  ways a call can fail to return normally, sequencing of calls that may fail, the
  byte-order conversions used on packet headers, and the generic lemmas on words and
  lists that several components use.
\<close>

unbundle bit_operations_syntax

section \<open>Fixed-width integers\<close>

type_synonym u8 = "8 word"
type_synonym u16 = "16 word"
type_synonym u32 = "32 word"
type_synonym u64 = "64 word"

text \<open>The lemma collections that carry the component proofs.\<close>

named_theorems wire_simps "byte-level layout of headers and integers"
named_theorems ring_simps "list view of the ring queue operations"
named_theorems map_simps "lookup view of the ordered map operations"
named_theorems timer_simps "armed-timer view of the timer manager operations"
named_theorems frame_simps "fields an operation does not write"

section \<open>Calls that may fail\<close>

text \<open>
  The ways a call of the program can end other than by returning: \<open>std::length_error\<close> from
  \<open>std::vector::reserve\<close>, \<open>std::bad_function_call\<close> from calling an empty
  \<open>std::function\<close>, \<open>std::invalid_argument\<close>, a loop that never ends, and what is undefined
  behaviour in the program: the use of an object that was already destroyed, a read past the
  end of a block, and a libuv call on something that is not a handle.
\<close>

datatype error = Length_error | Bad_function_call | No_return | Use_after_free | Invalid_argument
  | Out_of_range | Invalid_handle

type_synonym 'a result = "error + 'a"

definition bind_res :: "'a result \<Rightarrow> ('a \<Rightarrow> 'b result) \<Rightarrow> 'b result" where
  "bind_res m f = (case m of Inl e \<Rightarrow> Inl e | Inr x \<Rightarrow> f x)"

lemma bind_res_Inl [simp]: "bind_res (Inl e) f = Inl e"
  by (simp add: bind_res_def)

lemma bind_res_Inr [simp]: "bind_res (Inr x) f = f x"
  by (simp add: bind_res_def)

lemma bind_res_eq_Inr: "bind_res m f = Inr y \<longleftrightarrow> (\<exists>x. m = Inr x \<and> f x = Inr y)"
  by (cases m) auto

lemma bind_res_InrE [elim!]:
  assumes "bind_res m f = Inr y"
  obtains x where "m = Inr x" and "f x = Inr y"
  using assms by (auto simp: bind_res_eq_Inr)

lemma bind_res_assoc: "bind_res (bind_res m f) g = bind_res m (\<lambda>x. bind_res (f x) g)"
  by (cases m) auto

section \<open>Byte order\<close>

text \<open>
  The header is kept in memory as a packed struct on a little-endian host (the program is
  written against Winsock); \<open>htons\<close>/\<open>ntohs\<close> and \<open>htonl\<close>/\<open>ntohl\<close> swap the bytes of a
  value. \<open>le16_bytes\<close> and \<open>le32_bytes\<close> are the bytes of a value as they lie in memory.
\<close>

definition htons :: "u16 \<Rightarrow> u16" where
  "htons w = push_bit 8 w OR drop_bit 8 w"

definition ntohs :: "u16 \<Rightarrow> u16" where
  "ntohs w = htons w"

definition le16_bytes :: "u16 \<Rightarrow> u8 list" where
  "le16_bytes w = [ucast w, ucast (drop_bit 8 w)]"

definition le32_bytes :: "u32 \<Rightarrow> u8 list" where
  "le32_bytes w = [ucast w, ucast (drop_bit 8 w), ucast (drop_bit 16 w), ucast (drop_bit 24 w)]"

definition le16_of :: "u8 \<Rightarrow> u8 \<Rightarrow> u16" where
  "le16_of b0 b1 = ucast b0 OR push_bit 8 (ucast b1)"

definition le32_of :: "u8 \<Rightarrow> u8 \<Rightarrow> u8 \<Rightarrow> u8 \<Rightarrow> u32" where
  "le32_of b0 b1 b2 b3 =
     ucast b0 OR push_bit 8 (ucast b1) OR push_bit 16 (ucast b2) OR push_bit 24 (ucast b3)"

text \<open>\<open>htonl\<close> reads the four bytes of a value in the opposite order.\<close>

definition htonl :: "u32 \<Rightarrow> u32" where
  "htonl w = le32_of (ucast (drop_bit 24 w)) (ucast (drop_bit 16 w)) (ucast (drop_bit 8 w)) (ucast w)"

definition ntohl :: "u32 \<Rightarrow> u32" where
  "ntohl w = htonl w"

lemma ntohs_htons [simp]: "ntohs (htons w) = w"
  by (rule bit_word_eqI) (auto simp: ntohs_def htons_def bit_simps)

lemma htons_ntohs [simp]: "htons (ntohs w) = w"
  by (rule bit_word_eqI) (auto simp: ntohs_def htons_def bit_simps)

lemma le16_of_byte0 [wire_simps]: "ucast (le16_of a b) = a"
  by (rule bit_word_eqI) (auto simp: le16_of_def bit_simps dest: bit_imp_le_length)

lemma le16_of_byte1 [wire_simps]: "ucast (drop_bit 8 (le16_of a b)) = b"
  by (rule bit_word_eqI) (auto simp: le16_of_def bit_simps dest: bit_imp_le_length)

lemma le32_of_byte0 [wire_simps]: "ucast (le32_of a b c d) = a"
  by (rule bit_word_eqI) (auto simp: le32_of_def bit_simps)

lemma le32_of_byte1 [wire_simps]: "ucast (drop_bit 8 (le32_of a b c d)) = b"
  by (rule bit_word_eqI) (auto simp: le32_of_def bit_simps dest: bit_imp_le_length)

lemma le32_of_byte2 [wire_simps]: "ucast (drop_bit 16 (le32_of a b c d)) = c"
  by (rule bit_word_eqI) (auto simp: le32_of_def bit_simps dest: bit_imp_le_length)

lemma le32_of_byte3 [wire_simps]: "ucast (drop_bit 24 (le32_of a b c d)) = d"
  by (rule bit_word_eqI) (auto simp: le32_of_def bit_simps dest: bit_imp_le_length)

lemma le16_of_bytes [wire_simps]: "le16_of (ucast w) (ucast (drop_bit 8 w)) = w"
  by (rule bit_word_eqI) (auto simp: le16_of_def bit_simps)

lemma le32_of_bytes [wire_simps]:
  "le32_of (ucast w) (ucast (drop_bit 8 w)) (ucast (drop_bit 16 w)) (ucast (drop_bit 24 w)) = w"
proof (rule bit_word_eqI)
  fix n
  assume "n < LENGTH(32)"
  then have "n < 8 \<or> (8 \<le> n \<and> n < 16) \<or> (16 \<le> n \<and> n < 24) \<or> (24 \<le> n \<and> n < 32)"
    by auto
  then show "bit (le32_of (ucast w) (ucast (drop_bit 8 w)) (ucast (drop_bit 16 w))
      (ucast (drop_bit 24 w))) n = bit w n"
    by (elim disjE) (auto simp: le32_of_def bit_simps)
qed

lemma ntohl_htonl [simp]: "ntohl (htonl w) = w"
  by (simp add: ntohl_def htonl_def wire_simps)

lemma htonl_ntohl [simp]: "htonl (ntohl w) = w"
  by (simp add: ntohl_def htonl_def wire_simps)

lemma htonl_inject [simp]: "htonl a = htonl b \<longleftrightarrow> a = b"
  by (metis ntohl_htonl)

lemma le16_of_add: "le16_of a b = ucast a + 256 * ucast b"
proof -
  have "push_bit 8 (ucast b :: u16) = 256 * ucast b"
    by (simp add: push_bit_eq_mult)
  moreover have "ucast a + push_bit 8 (ucast b :: u16) = ucast a OR push_bit 8 (ucast b)"
    by (rule disjunctive_add_eq_or)
      (rule bit_word_eqI, auto simp: bit_simps dest: bit_imp_le_length)
  ultimately show ?thesis
    by (simp add: le16_of_def)
qed

lemma unat_u8_bound: "unat (b :: u8) < 256"
  using unsigned_less [of b, where ?'a = nat] by simp

lemma unat_le16_of: "unat (le16_of a b) = unat a + 256 * unat b"
  using unat_u8_bound [of a] unat_u8_bound [of b]
  by (simp add: le16_of_add unat_word_ariths unsigned_ucast_eq take_bit_eq_mod)

end
