(* ===== verification/Ring_Queue.thy ===== *)
theory Ring_Queue
  imports Prelude
begin

text \<open>
  \<open>RingQueue<T, Capacity>\<close> of \<open>include/myutcp/core/RingBuffer.h\<close>: the array with its two
  indices, every operation of the class, the class invariant \<open>ring_ok\<close>, and the list
  \<open>ring_contents\<close> that the queue stands for. The contract its clients use (the session's
  send and receive buffers) is the locale \<open>bounded_queue\<close>, interpreted by the ring.

  The capacity is the length of the array. Indices and sizes are \<open>size_t\<close>: arithmetic on
  values that a caller passes in is written modulo \<open>2 ^ 64\<close>; arithmetic on the queue's own
  indices stays below twice the capacity and cannot wrap.
\<close>

section \<open>The class\<close>

record 'a ring_queue =
  buffer :: "'a list"
  head :: nat
  tail :: nat
  qsize :: nat

definition capacity :: "'a ring_queue \<Rightarrow> nat" where
  "capacity q = length (buffer q)"

definition ring_new :: "nat \<Rightarrow> 'a \<Rightarrow> 'a ring_queue" where
  "ring_new cap zero = \<lparr>buffer = replicate cap zero, head = 0, tail = 0, qsize = 0\<rparr>"

definition advance :: "'a ring_queue \<Rightarrow> 'a ring_queue" where
  "advance q =
     (let q = q\<lparr>head := (head q + 1) mod capacity q\<rparr>
      in if qsize q < capacity q then q\<lparr>qsize := qsize q + 1\<rparr>
         else q\<lparr>tail := (tail q + 1) mod capacity q\<rparr>)"

definition push :: "'a \<Rightarrow> 'a ring_queue \<Rightarrow> 'a ring_queue" where
  "push v q = advance (q\<lparr>buffer := (buffer q)[head q := v]\<rparr>)"

text \<open>The loop of \<open>push_batch\<close> writes the values and moves the head; the size follows after it.\<close>

fun push_batch_loop :: "'a list \<Rightarrow> 'a ring_queue \<Rightarrow> 'a ring_queue" where
  "push_batch_loop [] q = q"
| "push_batch_loop (v # vs) q =
     push_batch_loop vs
       (q\<lparr>buffer := (buffer q)[head q := v], head := (head q + 1) mod capacity q\<rparr>)"

definition push_batch :: "'a list \<Rightarrow> 'a ring_queue \<Rightarrow> bool \<times> 'a ring_queue" where
  "push_batch vs q =
     (if length vs > capacity q - qsize q then (False, q)
      else let q = push_batch_loop vs q
           in (True, q\<lparr>qsize := qsize q + length vs\<rparr>))"

definition full :: "'a ring_queue \<Rightarrow> bool" where
  "full q \<longleftrightarrow> qsize q = capacity q"

definition ring_empty :: "'a ring_queue \<Rightarrow> bool" where
  "ring_empty q \<longleftrightarrow> qsize q = 0"

definition try_push :: "'a \<Rightarrow> 'a ring_queue \<Rightarrow> bool \<times> 'a ring_queue" where
  "try_push v q =
     (if full q then (False, q)
      else (True, q\<lparr>buffer := (buffer q)[head q := v],
                    head := (head q + 1) mod capacity q,
                    qsize := qsize q + 1\<rparr>))"

text \<open>\<open>operator[]\<close>: the logical index is the caller's, so the addition can wrap.\<close>

definition ring_at :: "'a ring_queue \<Rightarrow> nat \<Rightarrow> 'a" where
  "ring_at q i = buffer q ! (((tail q + i) mod 2 ^ 64) mod capacity q)"

text \<open>
  \<open>peek_range\<close>: when \<open>offset + n\<close> wraps below the size, the clamp does not happen and
  \<open>reserve\<close> is asked for more than \<open>std::vector\<close> can hold (\<open>2 ^ 63 - 1\<close> bytes or
  fewer), which throws.
\<close>

definition peek_range :: "nat \<Rightarrow> nat \<Rightarrow> 'a ring_queue \<Rightarrow> 'a list result" where
  "peek_range offset n q =
     (if offset \<ge> qsize q \<or> n = 0 then Inr []
      else let actual_n = (if (offset + n) mod 2 ^ 64 > qsize q then qsize q - offset else n)
           in if actual_n \<ge> 2 ^ 63 then Inl Length_error
              else Inr (map (\<lambda>i. ring_at q (offset + i)) [0..<actual_n]))"

definition pop_front :: "nat \<Rightarrow> 'a ring_queue \<Rightarrow> 'a ring_queue" where
  "pop_front n q =
     (if n = 0 then q
      else let actual_to_pop = (if n > qsize q then qsize q else n)
           in q\<lparr>tail := (tail q + actual_to_pop) mod capacity q,
                qsize := qsize q - actual_to_pop\<rparr>)"

text \<open>\<open>bool pop(T& out)\<close> returns the flag, the value left in \<open>out\<close>, and the queue.\<close>

definition pop :: "'a \<Rightarrow> 'a ring_queue \<Rightarrow> bool \<times> 'a \<times> 'a ring_queue" where
  "pop out q =
     (if qsize q = 0 then (False, out, q)
      else (True, buffer q ! tail q,
            q\<lparr>tail := (tail q + 1) mod capacity q, qsize := qsize q - 1\<rparr>))"

definition front :: "'a ring_queue \<Rightarrow> 'a" where
  "front q = buffer q ! tail q"

definition ring_back :: "'a ring_queue \<Rightarrow> 'a" where
  "ring_back q = buffer q ! ((head q + capacity q - 1) mod capacity q)"

definition ring_clear :: "'a ring_queue \<Rightarrow> 'a ring_queue" where
  "ring_clear q = q\<lparr>head := 0, tail := 0, qsize := 0\<rparr>"

section \<open>Invariant and list view\<close>

definition ring_ok :: "'a ring_queue \<Rightarrow> bool" where
  "ring_ok q \<longleftrightarrow> 0 < capacity q \<and> capacity q \<le> 2 ^ 62 \<and> tail q < capacity q
     \<and> qsize q \<le> capacity q \<and> head q = (tail q + qsize q) mod capacity q"

definition ring_contents :: "'a ring_queue \<Rightarrow> 'a list" where
  "ring_contents q = map (\<lambda>i. buffer q ! ((tail q + i) mod capacity q)) [0..<qsize q]"

lemma length_ring_contents [simp]: "length (ring_contents q) = qsize q"
  by (simp add: ring_contents_def)

lemma nth_ring_contents:
  "i < qsize q \<Longrightarrow> ring_contents q ! i = buffer q ! ((tail q + i) mod capacity q)"
  by (simp add: ring_contents_def)

lemma ring_ok_head: "ring_ok q \<Longrightarrow> head q < capacity q"
  by (auto simp: ring_ok_def)

lemma ring_ok_bound: "ring_ok q \<Longrightarrow> qsize q \<le> capacity q"
  by (simp add: ring_ok_def)

lemma ring_new_ok: "0 < cap \<Longrightarrow> cap \<le> 2 ^ 62 \<Longrightarrow> ring_ok (ring_new cap z)"
  by (simp add: ring_ok_def ring_new_def capacity_def)

lemma ring_new_contents [ring_simps]: "ring_contents (ring_new cap z) = []"
  by (simp add: ring_contents_def ring_new_def)

lemma ring_new_capacity [ring_simps]: "capacity (ring_new cap z) = cap"
  by (simp add: capacity_def ring_new_def)

lemma qsize_length: "qsize q = length (ring_contents q)"
  by simp

section \<open>Enqueueing\<close>

text \<open>Writing one value at the head and growing the queue: what all the pushes have in common.\<close>

definition enq :: "'a \<Rightarrow> 'a ring_queue \<Rightarrow> 'a ring_queue" where
  "enq v q = q\<lparr>buffer := (buffer q)[head q := v], head := (head q + 1) mod capacity q,
               qsize := qsize q + 1\<rparr>"

lemma enq_capacity [simp]: "capacity (enq v q) = capacity q"
  by (simp add: enq_def capacity_def)

lemma mod_slot_neq:
  fixes t :: nat
  assumes "i < s" and "s < c"
  shows "(t + i) mod c \<noteq> (t + s) mod c"
proof
  assume "(t + i) mod c = (t + s) mod c"
  then have "c dvd (t + s) - (t + i)"
    using assms(1) by (metis add_le_cancel_left less_imp_le_nat mod_eq_dvd_iff_nat)
  then have "c dvd s - i"
    by simp
  then show False
    using assms by (auto dest: dvd_imp_le)
qed

lemma enq_ok: "ring_ok q \<Longrightarrow> qsize q < capacity q \<Longrightarrow> ring_ok (enq v q)"
  by (auto simp: ring_ok_def enq_def capacity_def mod_simps)

lemma enq_contents:
  assumes ok: "ring_ok q" and room: "qsize q < capacity q"
  shows "ring_contents (enq v q) = ring_contents q @ [v]"
proof (rule nth_equalityI)
  show "length (ring_contents (enq v q)) = length (ring_contents q @ [v])"
    by (simp add: enq_def)
next
  fix i
  assume "i < length (ring_contents (enq v q))"
  then have i: "i \<le> qsize q"
    by (simp add: enq_def)
  have head: "head q = (tail q + qsize q) mod capacity q" and "head q < length (buffer q)"
    using ok ring_ok_head [OF ok] by (auto simp: ring_ok_def capacity_def)
  then show "ring_contents (enq v q) ! i = (ring_contents q @ [v]) ! i"
    using i room mod_slot_neq [of i "qsize q" "capacity q" "tail q"]
    by (cases "i = qsize q")
      (auto simp: ring_contents_def enq_def capacity_def nth_append nth_list_update)
qed

lemma try_push_enq: "try_push v q = (if full q then (False, q) else (True, enq v q))"
  by (simp add: try_push_def enq_def)

text \<open>\<open>push\<close> on a full queue drops the oldest element, otherwise it appends.\<close>

lemma push_not_full: "qsize q < capacity q \<Longrightarrow> push v q = enq v q"
  by (simp add: push_def advance_def enq_def capacity_def Let_def)

lemma push_ok: "ring_ok q \<Longrightarrow> ring_ok (push v q)"
  by (cases "qsize q < capacity q")
    (auto simp: push_not_full enq_ok push_def advance_def ring_ok_def capacity_def Let_def mod_simps)

lemma push_contents_full:
  assumes ok: "ring_ok q" and full: "qsize q = capacity q"
  shows "ring_contents (push v q) = tl (ring_contents q) @ [v]"
proof (rule nth_equalityI)
  show "length (ring_contents (push v q)) = length (tl (ring_contents q) @ [v])"
    using ok full by (simp add: push_def advance_def capacity_def ring_ok_def Let_def)
next
  fix i
  assume "i < length (ring_contents (push v q))"
  then have i: "i < capacity q"
    using full by (simp add: push_def advance_def capacity_def Let_def)
  have cap: "0 < capacity q" and t: "tail q < capacity q"
    using ok by (auto simp: ring_ok_def)
  have head: "head q = tail q"
    using ok full by (simp add: ring_ok_def)
  have slot: "((tail q + 1) mod capacity q + i) mod capacity q = (tail q + Suc i) mod capacity q"
    by (simp add: mod_simps)
  show "ring_contents (push v q) ! i = (tl (ring_contents q) @ [v]) ! i"
  proof (cases "Suc i = capacity q")
    case True
    then have "(tail q + Suc i) mod capacity q = tail q"
      using t by simp
    then show ?thesis
      using True i t full head slot
      by (auto simp: ring_contents_def push_def advance_def capacity_def nth_append Let_def)
  next
    case False
    then have "(tail q + Suc i) mod capacity q \<noteq> tail q"
      using i t mod_slot_neq [of 0 "Suc i" "capacity q" "tail q"] by simp
    then show ?thesis
      using False i t full head slot
      by (auto simp: ring_contents_def push_def advance_def capacity_def nth_append nth_tl Let_def)
  qed
qed

lemma ring_push_refines:
  assumes "ring_ok q"
  shows "ring_ok (push v q) \<and> ring_contents (push v q) =
    (if full q then tl (ring_contents q) else ring_contents q) @ [v]"
proof (cases "full q")
  case True
  then show ?thesis
    using assms by (simp add: full_def push_ok push_contents_full)
next
  case False
  then have "qsize q < capacity q"
    using ring_ok_bound [OF assms] by (simp add: full_def)
  then show ?thesis
    using assms False by (simp add: push_not_full enq_ok enq_contents)
qed

lemma ring_try_push_refines:
  assumes "ring_ok q"
  shows "ring_ok (snd (try_push v q)) \<and> fst (try_push v q) = (\<not> full q)
    \<and> ring_contents (snd (try_push v q)) = ring_contents q @ (if full q then [] else [v])"
proof (cases "full q")
  case False
  then have "qsize q < capacity q"
    using ring_ok_bound [OF assms] by (simp add: full_def)
  then show ?thesis
    using assms False by (simp add: try_push_enq enq_ok enq_contents)
qed (use assms in \<open>simp add: try_push_enq\<close>)

lemma push_batch_loop_qsize:
  "push_batch_loop vs (q\<lparr>qsize := n\<rparr>) = (push_batch_loop vs q)\<lparr>qsize := n\<rparr>"
proof (induction vs arbitrary: q)
  case (Cons v vs)
  let ?q = "q\<lparr>buffer := (buffer q)[head q := v], head := (head q + 1) mod capacity q\<rparr>"
  have "push_batch_loop (v # vs) (q\<lparr>qsize := n\<rparr>) = push_batch_loop vs (?q\<lparr>qsize := n\<rparr>)"
    by (cases q) (simp add: capacity_def)
  then show ?case
    by (simp add: Cons.IH)
qed simp

lemma push_batch_loop_fold:
  "(push_batch_loop vs q)\<lparr>qsize := qsize q + length vs\<rparr> = fold enq vs q"
proof (induction vs arbitrary: q)
  case (Cons v vs)
  let ?q = "q\<lparr>buffer := (buffer q)[head q := v], head := (head q + 1) mod capacity q\<rparr>"
  have "enq v q = ?q\<lparr>qsize := qsize q + 1\<rparr>"
    by (simp add: enq_def)
  moreover have "(push_batch_loop vs ?q)\<lparr>qsize := qsize q + 1 + length vs\<rparr> = fold enq vs (enq v q)"
    using Cons.IH [of "enq v q"] calculation
    by (simp add: push_batch_loop_qsize)
  ultimately show ?case
    by simp
qed simp

lemma push_batch_loop_size [simp]: "qsize (push_batch_loop vs q) = qsize q"
  by (induction vs arbitrary: q) simp_all

lemma push_batch_fold:
  "push_batch vs q = (if length vs > capacity q - qsize q then (False, q) else (True, fold enq vs q))"
  by (simp add: push_batch_def Let_def push_batch_loop_fold)

lemma fold_enq:
  "ring_ok q \<Longrightarrow> qsize q + length vs \<le> capacity q \<Longrightarrow>
     ring_ok (fold enq vs q) \<and> ring_contents (fold enq vs q) = ring_contents q @ vs
     \<and> capacity (fold enq vs q) = capacity q"
proof (induction vs arbitrary: q)
  case (Cons v vs)
  have "qsize (enq v q) = Suc (qsize q)"
    by (simp add: enq_def)
  with Cons show ?case
    using enq_ok [of q v] enq_contents [of q v] by simp
qed simp

lemma push_batch_success:
  assumes "ring_ok q" and "qsize q + length vs \<le> capacity q"
  shows "fst (push_batch vs q)" and "ring_ok (snd (push_batch vs q))"
    and "ring_contents (snd (push_batch vs q)) = ring_contents q @ vs"
    and "capacity (snd (push_batch vs q)) = capacity q"
  using assms fold_enq [OF assms] by (auto simp: push_batch_fold)

lemma push_batch_failure:
  "capacity q < qsize q + length vs \<Longrightarrow> qsize q \<le> capacity q \<Longrightarrow> push_batch vs q = (False, q)"
  by (simp add: push_batch_def)

section \<open>Dequeueing and peeking\<close>

lemma pop_front_capacity [simp]: "capacity (pop_front n q) = capacity q"
  by (simp add: pop_front_def capacity_def Let_def)

lemma pop_front_eq:
  "ring_ok q \<Longrightarrow> pop_front n q =
     q\<lparr>tail := (tail q + min n (qsize q)) mod capacity q, qsize := qsize q - n\<rparr>"
  by (auto simp: pop_front_def Let_def ring_ok_def min_def)

lemma pop_front_ok: "ring_ok q \<Longrightarrow> ring_ok (pop_front n q)"
  by (auto simp: pop_front_eq ring_ok_def capacity_def mod_simps min_def add.assoc)

lemma pop_front_contents:
  assumes "ring_ok q"
  shows "ring_contents (pop_front n q) = drop n (ring_contents q)"
  using assms
  by (intro nth_equalityI)
    (auto simp: pop_front_eq ring_contents_def capacity_def mod_simps min_def add.assoc)

lemma pop_correct:
  assumes "ring_ok q"
  shows "pop out q = (if ring_contents q = [] then (False, out, q)
           else (True, hd (ring_contents q), pop_front 1 q))"
proof (cases "qsize q = 0")
  case False
  then show ?thesis
    using assms
    by (auto simp: pop_def pop_front_eq ring_ok_def hd_conv_nth ring_contents_def)
qed (simp add: pop_def ring_contents_def)

lemma front_contents: "ring_ok q \<Longrightarrow> ring_contents q \<noteq> [] \<Longrightarrow> front q = hd (ring_contents q)"
  by (auto simp: front_def ring_contents_def hd_conv_nth ring_ok_def)

lemma ring_empty_contents: "ring_empty q \<longleftrightarrow> ring_contents q = []"
  by (simp add: ring_empty_def ring_contents_def)

lemma ring_back_contents:
  assumes ok: "ring_ok q" and ne: "ring_contents q \<noteq> []"
  shows "ring_back q = last (ring_contents q)"
proof -
  have s: "0 < qsize q"
    using ne by (simp add: ring_contents_def)
  have cap: "0 < capacity q" and head: "head q = (tail q + qsize q) mod capacity q"
    using ok by (auto simp: ring_ok_def)
  have "(head q + capacity q - 1) mod capacity q = (head q + (capacity q - 1)) mod capacity q"
    using cap by simp
  also have "\<dots> = (tail q + qsize q + (capacity q - 1)) mod capacity q"
    by (simp add: head mod_simps)
  also have "tail q + qsize q + (capacity q - 1) = (tail q + (qsize q - 1)) + capacity q"
    using s cap by simp
  finally have "(head q + capacity q - 1) mod capacity q = (tail q + (qsize q - 1)) mod capacity q"
    by simp
  then show ?thesis
    using s ne by (simp add: ring_back_def last_conv_nth nth_ring_contents)
qed

lemma ring_at_contents:
  assumes "ring_ok q" and "i < qsize q"
  shows "ring_at q i = ring_contents q ! i"
proof -
  have "tail q + i < 2 ^ 64"
    using assms by (simp add: ring_ok_def)
  then show ?thesis
    using assms by (simp add: ring_at_def nth_ring_contents)
qed

text \<open>
  The peek of a range is a slice of the queue. The hypothesis on \<open>n\<close> is what both operands
  being \<open>uint32_t\<close> at the only call site gives; without it the call can throw
  (\<open>peek_range_throws\<close>).
\<close>

lemma peek_range_contents:
  assumes ok: "ring_ok q" and n: "n < 2 ^ 63"
  shows "peek_range offset n q = Inr (take n (drop offset (ring_contents q)))"
proof (cases "offset \<ge> qsize q \<or> n = 0")
  case False
  then have off: "offset < qsize q" and sz: "qsize q \<le> 2 ^ 62"
    using ok by (auto simp: ring_ok_def)
  then have "offset + n < 2 ^ 64"
    using n by simp
  then show ?thesis
    using False n off sz ok
    by (auto simp: peek_range_def Let_def ring_at_contents intro!: nth_equalityI)
qed (auto simp: peek_range_def)

lemma peek_range_throws:
  assumes "ring_ok q" and "0 < offset" and "offset < qsize q" and "offset + n = 2 ^ 64"
  shows "peek_range offset n q = Inl Length_error"
  using assms by (auto simp: peek_range_def Let_def ring_ok_def)

lemma ring_clear_ok: "ring_ok q \<Longrightarrow> ring_ok (ring_clear q) \<and> ring_contents (ring_clear q) = []"
  by (simp add: ring_clear_def ring_ok_def ring_contents_def capacity_def)

section \<open>The contract of a bounded queue\<close>

text \<open>
  The loop with which \<open>TcpSession::recv\<close> and \<open>TcpSession::read_all\<close> copy bytes out of
  the receive buffer: \<open>data[i] = front(); pop_front(1)\<close>.
\<close>

fun read_loop :: "('q \<Rightarrow> 'a) \<Rightarrow> (nat \<Rightarrow> 'q \<Rightarrow> 'q) \<Rightarrow> nat \<Rightarrow> 'q \<Rightarrow> 'a list \<times> 'q" where
  "read_loop first drop_n 0 q = ([], q)"
| "read_loop first drop_n (Suc n) q =
     (let (xs, q') = read_loop first drop_n n (drop_n 1 q) in (first q # xs, q'))"

locale bounded_queue =
  fixes contents :: "'q \<Rightarrow> 'a list"
    and cap :: "'q \<Rightarrow> nat"
    and invar :: "'q \<Rightarrow> bool"
    and put :: "'a list \<Rightarrow> 'q \<Rightarrow> bool \<times> 'q"
    and drop_n :: "nat \<Rightarrow> 'q \<Rightarrow> 'q"
    and first :: "'q \<Rightarrow> 'a"
  assumes law_bound: "invar q \<Longrightarrow> length (contents q) \<le> cap q"
    and law_put_fits: "invar q \<Longrightarrow> length (contents q) + length vs \<le> cap q \<Longrightarrow>
          fst (put vs q) \<and> contents (snd (put vs q)) = contents q @ vs"
    and law_put_rejects: "invar q \<Longrightarrow> cap q < length (contents q) + length vs \<Longrightarrow> put vs q = (False, q)"
    and law_put_invar: "invar q \<Longrightarrow> invar (snd (put vs q))"
    and law_put_cap: "invar q \<Longrightarrow> cap (snd (put vs q)) = cap q"
    and law_drop: "invar q \<Longrightarrow> contents (drop_n n q) = drop n (contents q)"
    and law_drop_invar: "invar q \<Longrightarrow> invar (drop_n n q)"
    and law_drop_cap: "cap (drop_n n q) = cap q"
    and law_first: "invar q \<Longrightarrow> contents q \<noteq> [] \<Longrightarrow> first q = hd (contents q)"
begin

lemma put_contents:
  "invar q \<Longrightarrow> contents (snd (put vs q)) = contents q @ (if fst (put vs q) then vs else [])"
  using law_put_fits [of q vs] law_put_rejects [of q vs]
  by (cases "length (contents q) + length vs \<le> cap q") auto

lemma put_fst: "invar q \<Longrightarrow> fst (put vs q) \<longleftrightarrow> length (contents q) + length vs \<le> cap q"
  using law_put_fits [of q vs] law_put_rejects [of q vs]
  by (cases "length (contents q) + length vs \<le> cap q") auto

lemma read_loop_take:
  "invar q \<Longrightarrow> n \<le> length (contents q) \<Longrightarrow>
     fst (read_loop first drop_n n q) = take n (contents q)
     \<and> contents (snd (read_loop first drop_n n q)) = drop n (contents q)
     \<and> invar (snd (read_loop first drop_n n q))
     \<and> cap (snd (read_loop first drop_n n q)) = cap q"
proof (induction n arbitrary: q)
  case (Suc n)
  then obtain x xs where c: "contents q = x # xs"
    by (cases "contents q") auto
  with Suc show ?case
    using Suc.IH [OF law_drop_invar [OF Suc.prems(1)], of 1]
    by (simp add: case_prod_beta law_drop law_drop_cap law_first)
qed simp

lemma drop_all_empty: "invar q \<Longrightarrow> contents (drop_n (length (contents q)) q) = []"
  by (simp add: law_drop)

lemma put_then_drop:
  "invar q \<Longrightarrow> fst (put vs q) \<Longrightarrow>
     contents (drop_n (length (contents q)) (snd (put vs q))) = vs"
  by (simp add: law_drop law_put_invar put_contents)

end

interpretation rq: bounded_queue ring_contents capacity ring_ok push_batch pop_front front
proof unfold_locales
  fix q :: "'a ring_queue" and vs :: "'a list"
  assume ok: "ring_ok q"
  show "length (ring_contents q) \<le> capacity q"
    using ok by (simp add: ring_ok_def)
  show "ring_ok (snd (push_batch vs q))" and "capacity (snd (push_batch vs q)) = capacity q"
    using push_batch_success [OF ok, of vs] push_batch_failure [of q vs] ok
    by (cases "qsize q + length vs \<le> capacity q"; simp add: ring_ok_def)+
qed (auto simp: push_batch_success push_batch_failure pop_front_contents pop_front_ok
      front_contents dest: ring_ok_bound)

section \<open>Refinement of the list queue\<close>

lemma ring_clear_refines:
  assumes "ring_ok q"
  shows "ring_ok (ring_clear q)" and "ring_contents (ring_clear q) = []" and "capacity (ring_clear q) = capacity q"
  using assms by (simp_all add: ring_clear_def ring_ok_def ring_contents_def capacity_def)

lemma ring_capacities:
  assumes "ring_ok q"
  shows "capacity (push v q) = capacity q" and "capacity (snd (push_batch vs q)) = capacity q"
    and "capacity (snd (try_push v q)) = capacity q" and "capacity (pop_front n q) = capacity q"
  using rq.law_put_cap [OF assms, of vs]
  by (simp_all add: push_def advance_def try_push_def pop_front_def capacity_def Let_def)

text \<open>
  C22: Every operation of the ring queue keeps the class invariant and acts on the list it
  stands for as the bounded FIFO operation of its name: \<open>push\<close> appends and drops the oldest
  element when full, \<open>push_batch\<close> appends all or nothing, \<open>try_push\<close> appends unless full,
  \<open>pop_front\<close> drops a prefix, \<open>pop\<close> takes the head and \<open>clear\<close> everything; \<open>front\<close>, \<open>back\<close>,
  \<open>operator[]\<close> and \<open>peek_range\<close> (with a count of 32 bits, as at the call site) read the head, the
  last element, an element and a slice; \<open>size\<close>, \<open>empty\<close> and \<open>full\<close> tell the length of the list.
  No operation changes the capacity.
\<close>

theorem ring_queue_refines_list:
  assumes "ring_ok q"
  shows "ring_ok (push v q) \<and> ring_contents (push v q) =
           (if full q then tl (ring_contents q) else ring_contents q) @ [v]
    \<and> ring_ok (snd (push_batch vs q))
    \<and> fst (push_batch vs q) = (length (ring_contents q) + length vs \<le> capacity q)
    \<and> ring_contents (snd (push_batch vs q)) =
        ring_contents q @ (if fst (push_batch vs q) then vs else [])
    \<and> ring_ok (snd (try_push v q)) \<and> fst (try_push v q) = (\<not> full q)
    \<and> ring_contents (snd (try_push v q)) = ring_contents q @ (if full q then [] else [v])
    \<and> ring_ok (pop_front n q) \<and> ring_contents (pop_front n q) = drop n (ring_contents q)
    \<and> pop w q = (if ring_contents q = [] then (False, w, q)
                 else (True, hd (ring_contents q), pop_front 1 q))
    \<and> ring_ok (ring_clear q) \<and> ring_contents (ring_clear q) = []
    \<and> capacity (push v q) = capacity q \<and> capacity (snd (push_batch vs q)) = capacity q
    \<and> capacity (snd (try_push v q)) = capacity q \<and> capacity (pop_front n q) = capacity q
    \<and> capacity (ring_clear q) = capacity q
    \<and> qsize q = length (ring_contents q) \<and> ring_empty q = (ring_contents q = [])
    \<and> full q = (length (ring_contents q) = capacity q)
    \<and> (ring_contents q \<noteq> [] \<longrightarrow>
         front q = hd (ring_contents q) \<and> ring_back q = last (ring_contents q))
    \<and> (i < length (ring_contents q) \<longrightarrow> ring_at q i = ring_contents q ! i)
    \<and> (m < 2 ^ 32 \<longrightarrow> peek_range i m q = Inr (take m (drop i (ring_contents q))))"
  using ring_push_refines [OF assms] ring_try_push_refines [OF assms]
    rq.put_contents [OF assms] rq.put_fst [OF assms] rq.law_put_invar [OF assms]
    pop_front_ok [OF assms] pop_front_contents [OF assms] pop_correct [OF assms]
    front_contents [OF assms] ring_back_contents [OF assms] ring_at_contents [OF assms]
    peek_range_contents [OF assms, of m] ring_clear_refines [OF assms] ring_capacities [OF assms]
    length_0_conv [of "ring_contents q"]
  by (simp add: ring_empty_def full_def)

theorem ring_queue_refines_list_witness:
  "ring_contents (push (7::nat) (ring_new 2 0)) = [7]
   \<and> ring_contents (push 9 (push 8 (push 7 (ring_new 2 (0::nat))))) = [8, 9]
   \<and> ring_ok (push 9 (push 8 (push 7 (ring_new 2 (0::nat)))))"
proof -
  let ?q0 = "ring_new 2 (0::nat)"
  have ok0: "ring_ok ?q0"
    by (simp add: ring_new_ok)
  note r1 = ring_queue_refines_list [OF ok0, of 7]
  then have ok1: "ring_ok (push 7 ?q0)"
    by blast
  note r2 = ring_queue_refines_list [OF ok1, of 8]
  then have ok2: "ring_ok (push 8 (push 7 ?q0))"
    by blast
  note r3 = ring_queue_refines_list [OF ok2, of 9]
  show ?thesis
    using r1 r2 r3
    by (simp add: full_def ring_simps push_def advance_def ring_new_def capacity_def Let_def
        ring_contents_def)
qed

end
