(* ===== verification/Std_Map.thy ===== *)
theory Std_Map
  imports Prelude
begin

text \<open>
  \<open>std::map\<close> as the program uses it (\<open>timers_\<close>, \<open>ooo_map_\<close>, \<open>inflight_packets_\<close>,
  \<open>tcp_sessions_\<close>): an association list kept strictly ascending in its keys, so that
  \<open>begin()\<close> and the iteration order are those of the program. The interface the
  components rely on is the locale \<open>std_map\<close>; the operations here interpret it.
\<close>

section \<open>Operations\<close>

type_synonym ('k, 'v) omap = "('k \<times> 'v) list"

definition map_find :: "'k \<Rightarrow> ('k, 'v) omap \<Rightarrow> 'v option" where
  "map_find k m = map_of m k"

fun map_assign :: "'k::linorder \<Rightarrow> 'v \<Rightarrow> ('k, 'v) omap \<Rightarrow> ('k, 'v) omap" where
  "map_assign k v [] = [(k, v)]"
| "map_assign k v ((k', v') # m) =
     (if k < k' then (k, v) # (k', v') # m
      else if k = k' then (k, v) # m
      else (k', v') # map_assign k v m)"

definition map_try_emplace :: "'k::linorder \<Rightarrow> 'v \<Rightarrow> ('k, 'v) omap \<Rightarrow> ('k, 'v) omap" where
  "map_try_emplace k v m = (if map_find k m = None then map_assign k v m else m)"

fun map_erase :: "'k \<Rightarrow> ('k, 'v) omap \<Rightarrow> ('k, 'v) omap" where
  "map_erase k [] = []"
| "map_erase k ((k', v') # m) = (if k = k' then m else (k', v') # map_erase k m)"

definition map_sorted :: "('k::linorder, 'v) omap \<Rightarrow> bool" where
  "map_sorted m \<longleftrightarrow> sorted_wrt (<) (map fst m)"

section \<open>Lookup view\<close>

lemma map_find_Nil [simp]: "map_find k [] = None"
  by (simp add: map_find_def)

lemma map_find_Cons: "map_find k ((k', v') # m) = (if k = k' then Some v' else map_find k m)"
  by (simp add: map_find_def)

lemma map_sorted_Nil [simp]: "map_sorted []"
  by (simp add: map_sorted_def)

lemma map_sorted_Cons:
  "map_sorted ((k, v) # m) \<longleftrightarrow> (\<forall>k' \<in> fst ` set m. k < k') \<and> map_sorted m"
  by (auto simp: map_sorted_def)

lemma map_find_NoneI: "k \<notin> fst ` set m \<Longrightarrow> map_find k m = None"
  by (auto simp: map_find_def map_of_eq_None_iff)

lemma map_find_in_keys: "map_find k m = Some v \<Longrightarrow> k \<in> fst ` set m"
  by (auto simp: map_find_def dest: map_of_SomeD intro: rev_image_eqI)

lemma map_find_mem: "map_sorted m \<Longrightarrow> map_find k m = Some v \<longleftrightarrow> (k, v) \<in> set m"
  by (simp add: map_find_def map_sorted_def strict_sorted_iff)

lemma map_find_None_iff: "map_find k m = None \<longleftrightarrow> k \<notin> fst ` set m"
  by (simp add: map_find_def map_of_eq_None_iff)

lemma map_find_None_pairs: "map_find k m = None \<longleftrightarrow> (\<forall>v. (k, v) \<notin> set m)"
  by (force simp: map_find_None_iff)

lemma map_assign_keys: "fst ` set (map_assign k v m) = insert k (fst ` set m)"
  by (induction k v m rule: map_assign.induct) auto

lemma map_assign_sorted: "map_sorted m \<Longrightarrow> map_sorted (map_assign k v m)"
proof (induction k v m rule: map_assign.induct)
  case (2 k v k' v' m)
  then show ?case
    by (auto simp: map_sorted_Cons map_assign_keys)
qed (simp add: map_sorted_Cons)

lemma map_find_assign: "map_find k (map_assign k' v m) = (if k = k' then Some v else map_find k m)"
  by (induction k' v m rule: map_assign.induct) (auto simp: map_find_Cons)

lemma map_assign_set: "set (map_assign k v m) \<subseteq> insert (k, v) (set m)"
  by (induction k v m rule: map_assign.induct) auto

lemma map_erase_keys_subset: "set (map_erase k m) \<subseteq> set m"
  by (induction k m rule: map_erase.induct) auto

lemma map_erase_sorted: "map_sorted m \<Longrightarrow> map_sorted (map_erase k m)"
  by (induction k m rule: map_erase.induct)
    (use map_erase_keys_subset in \<open>fastforce simp: map_sorted_Cons\<close>)+

lemma map_find_erase:
  "map_sorted m \<Longrightarrow> map_find k (map_erase k' m) = (if k = k' then None else map_find k m)"
proof (induction k' m rule: map_erase.induct)
  case (2 k' a b m)
  then show ?case
    by (auto simp: map_find_Cons map_sorted_Cons map_find_None_pairs)
qed simp

lemma map_erase_first: "map_erase k ((k, v) # m) = m"
  by simp

lemma map_erase_length: "k \<in> fst ` set m \<Longrightarrow> Suc (length (map_erase k m)) = length m"
  by (induction k m rule: map_erase.induct) auto

lemma map_erase_absent: "k \<notin> fst ` set m \<Longrightarrow> map_erase k m = m"
  by (induction k m rule: map_erase.induct) auto

section \<open>The interface\<close>

text \<open>
  What the components rely on: lookup after assignment and erasure, and the class
  invariant kept by both. The facts about repeated operations are proved from the laws.
\<close>

locale std_map =
  fixes find :: "'k \<Rightarrow> 'm \<Rightarrow> 'v option"
    and assign :: "'k \<Rightarrow> 'v \<Rightarrow> 'm \<Rightarrow> 'm"
    and erase :: "'k \<Rightarrow> 'm \<Rightarrow> 'm"
    and invar :: "'m \<Rightarrow> bool"
  assumes law_find_assign: "invar m \<Longrightarrow> find k (assign k' v m) = (if k = k' then Some v else find k m)"
    and law_find_erase: "invar m \<Longrightarrow> find k (erase k' m) = (if k = k' then None else find k m)"
    and law_invar_assign: "invar m \<Longrightarrow> invar (assign k v m)"
    and law_invar_erase: "invar m \<Longrightarrow> invar (erase k m)"
begin

lemma invar_fold_erase: "invar m \<Longrightarrow> invar (fold erase ks m)"
  by (induction ks arbitrary: m) (simp_all add: law_invar_erase)

lemma find_fold_erase:
  "invar m \<Longrightarrow> find k (fold erase ks m) = (if k \<in> set ks then None else find k m)"
proof (induction ks arbitrary: m)
  case (Cons a ks)
  then show ?case
    using Cons.IH [OF law_invar_erase [OF Cons.prems, of a]]
    by (auto simp: law_find_erase)
qed simp

lemma assign_then_erase:
  "invar m \<Longrightarrow> find k (erase k (assign k v m)) = None"
  by (simp add: law_find_erase law_invar_assign)

end

interpretation om: std_map map_find map_assign map_erase map_sorted
  by unfold_locales
    (simp_all add: map_find_assign map_find_erase map_assign_sorted map_erase_sorted)

section \<open>Erasing a prefix of keys\<close>

text \<open>
  The shape of the loops that pop acknowledged entries: \<open>while (begin()->first < k) erase\<close>.
\<close>

fun erase_below :: "'k::linorder \<Rightarrow> ('k, 'v) omap \<Rightarrow> ('k, 'v) omap" where
  "erase_below k [] = []"
| "erase_below k ((k', v') # m) = (if k' < k then erase_below k m else (k', v') # m)"

lemma erase_below_filter: "map_sorted m \<Longrightarrow> erase_below k m = filter (\<lambda>(k', _). k \<le> k') m"
proof (induction k m rule: erase_below.induct)
  case (2 k k' v' m)
  then show ?case
    by (force simp: map_sorted_Cons not_less intro!: filter_True [symmetric])
qed simp

lemma erase_below_subset: "set (erase_below k m) \<subseteq> set m"
  by (induction k m rule: erase_below.induct) auto

lemma erase_below_sorted: "map_sorted m \<Longrightarrow> map_sorted (erase_below k m)"
  by (induction k m rule: erase_below.induct) (auto simp: map_sorted_Cons)

lemma map_find_erase_below:
  "map_sorted m \<Longrightarrow> map_find x (erase_below k m) = (if x < k then None else map_find x m)"
proof (induction k m rule: erase_below.induct)
  case (2 k k' v' m)
  then show ?case
    by (auto simp: map_sorted_Cons map_find_Cons map_find_None_pairs)
qed simp

end
