(* ===== verification/Timer_Manager.thy ===== *)
theory Timer_Manager
  imports Std_Map
begin

text \<open>
  \<open>TimerManager\<close> (\<open>include/myutcp/network/TimerManager.h\<close>,
  \<open>src/network/TimerManager.cpp\<close>): the map from sequence numbers to timer handles, every
  operation on it, and the timer requests it makes of libuv.

  libuv is not modelled. The state records the calls the program makes on its timer handles
  in order (\<open>uv_calls\<close>); \<open>armed\<close> reads off that record what the program last asked for each
  handle. A timer callback can only run for a handle whose last request is a start (all
  timers are one-shot: \<open>repeat\<close> is 0 in every start).
\<close>

section \<open>State\<close>

text \<open>
  A handle is the 2MSL timer that the constructor allocates, or the \<open>n\<close>-th handle that
  \<open>start_timer\<close> allocated. A callback is \<open>on_timer_uv_tick\<close> with the stored closure, or the
  2MSL lambda.
\<close>

datatype uv_handle = Two_msl | Seq_timer nat

datatype 'c uv_callback = On_timer_uv_tick 'c | On_2msl

datatype 'c uv_call =
    Uv_timer_init uv_handle
  | Uv_timer_start uv_handle "'c uv_callback" u64
  | Uv_timer_stop uv_handle
  | Uv_close uv_handle

record 'c timer_manager =
  timers :: "(u32, nat) omap"
  next_handle :: nat
  uv_calls :: "'c uv_call list"

definition uv_request :: "'c uv_call \<Rightarrow> 'c timer_manager \<Rightarrow> 'c timer_manager" where
  "uv_request c m = m\<lparr>uv_calls := uv_calls m @ [c]\<rparr>"

section \<open>Operations\<close>

definition new_timer_manager :: "'c timer_manager" where
  "new_timer_manager = \<lparr>timers = [], next_handle = 0, uv_calls = [Uv_timer_init Two_msl]\<rparr>"

definition stop_timer :: "u32 \<Rightarrow> 'c timer_manager \<Rightarrow> 'c timer_manager" where
  "stop_timer seq m =
     (case map_find seq (timers m) of
        None \<Rightarrow> m
      | Some timer \<Rightarrow> uv_request (Uv_timer_stop (Seq_timer timer)) m)"

definition drop_timer :: "u32 \<Rightarrow> 'c timer_manager \<Rightarrow> 'c timer_manager" where
  "drop_timer seq m =
     (case map_find seq (timers m) of
        None \<Rightarrow> m
      | Some timer \<Rightarrow>
          (let m = uv_request (Uv_timer_stop (Seq_timer timer)) m;
               m = uv_request (Uv_close (Seq_timer timer)) m
           in m\<lparr>timers := map_erase seq (timers m)\<rparr>))"

fun drop_all_loop :: "(u32, nat) omap \<Rightarrow> 'c timer_manager \<Rightarrow> 'c timer_manager" where
  "drop_all_loop [] m = m"
| "drop_all_loop ((seq, timer) # rest) m =
     (let m = uv_request (Uv_timer_stop (Seq_timer timer)) m;
          m = uv_request (Uv_close (Seq_timer timer)) m
      in drop_all_loop rest (m\<lparr>timers := rest\<rparr>))"

definition drop_all_timers :: "'c timer_manager \<Rightarrow> 'c timer_manager" where
  "drop_all_timers m = drop_all_loop (timers m) m"

lemma drop_timer_first: "timers m = (k, t) # rest \<Longrightarrow> timers (drop_timer k m) = rest"
  by (simp add: drop_timer_def map_find_Cons uv_request_def Let_def)

function drop_timer_up_to :: "u32 \<Rightarrow> 'c timer_manager \<Rightarrow> 'c timer_manager" where
  "drop_timer_up_to ack m =
     (case timers m of
        [] \<Rightarrow> m
      | (seq, _) # _ \<Rightarrow> if seq \<ge> ack then m else drop_timer_up_to ack (drop_timer seq m))"
  by pat_completeness auto
termination
  by (relation "measure (\<lambda>(_, m). length (timers m))") (auto simp: drop_timer_first)

declare drop_timer_up_to.simps [simp del]

definition stop_timers_up_to :: "u32 \<Rightarrow> 'c timer_manager \<Rightarrow> 'c timer_manager" where
  "stop_timers_up_to ack m =
     fold (\<lambda>(_, timer). uv_request (Uv_timer_stop (Seq_timer timer)))
       (takeWhile (\<lambda>(seq, _). seq < ack) (timers m)) m"

definition start_timer ::
  "u32 \<Rightarrow> u64 \<Rightarrow> 'c \<Rightarrow> 'c timer_manager \<Rightarrow> 'c timer_manager" where
  "start_timer seq timeout callback m =
     (let m = (if map_find seq (timers m) \<noteq> None then stop_timer seq m else m);
          timer = next_handle m;
          m = m\<lparr>next_handle := timer + 1\<rparr>;
          m = uv_request (Uv_timer_init (Seq_timer timer)) m;
          m = uv_request (Uv_timer_start (Seq_timer timer) (On_timer_uv_tick callback) timeout) m
      in m\<lparr>timers := map_assign seq timer (timers m)\<rparr>)"

definition stop_all_timers :: "'c timer_manager \<Rightarrow> 'c timer_manager" where
  "stop_all_timers m =
     uv_request (Uv_timer_stop Two_msl)
       (fold (\<lambda>(_, timer). uv_request (Uv_timer_stop (Seq_timer timer))) (timers m) m)"

text \<open>
  The destructor stops and closes the handles of the map. The 2MSL handle is a member that is
  freed with the object, without a request to libuv.
\<close>

definition destroy_timers :: "'c timer_manager \<Rightarrow> 'c timer_manager" where
  "destroy_timers m =
     fold (\<lambda>(_, timer) m. uv_request (Uv_close (Seq_timer timer))
                            (uv_request (Uv_timer_stop (Seq_timer timer)) m)) (timers m) m"

section \<open>What is armed\<close>

fun armed_step ::
  "uv_handle \<Rightarrow> 'c uv_call \<Rightarrow> ('c uv_callback \<times> u64) option \<Rightarrow> ('c uv_callback \<times> u64) option" where
  "armed_step h (Uv_timer_init h') a = (if h = h' then None else a)"
| "armed_step h (Uv_timer_start h' cb t) a = (if h = h' then Some (cb, t) else a)"
| "armed_step h (Uv_timer_stop h') a = (if h = h' then None else a)"
| "armed_step h (Uv_close h') a = (if h = h' then None else a)"

definition armed :: "'c timer_manager \<Rightarrow> uv_handle \<Rightarrow> ('c uv_callback \<times> u64) option" where
  "armed m h = fold (armed_step h) (uv_calls m) None"

text \<open>What is armed for a sequence number: the abstract state of the timer service.\<close>

definition armed_seq :: "'c timer_manager \<Rightarrow> u32 \<Rightarrow> ('c uv_callback \<times> u64) option" where
  "armed_seq m seq =
     (case map_find seq (timers m) of None \<Rightarrow> None | Some timer \<Rightarrow> armed m (Seq_timer timer))"

text \<open>
  The class invariant: the map is ordered, its handles were allocated and are distinct, and
  every armed handle is in the map, so that no timer can fire that the map does not know.
\<close>

definition timers_ok :: "'c timer_manager \<Rightarrow> bool" where
  "timers_ok m \<longleftrightarrow> map_sorted (timers m) \<and> distinct (map snd (timers m))
     \<and> (\<forall>t \<in> snd ` set (timers m). t < next_handle m)
     \<and> (\<forall>t. armed m (Seq_timer t) \<noteq> None \<longrightarrow> t \<in> snd ` set (timers m))"

lemma armed_uv_request [timer_simps]: "armed (uv_request c m) h = armed_step h c (armed m h)"
  by (simp add: armed_def uv_request_def)

lemma uv_request_fields [timer_simps]:
  "timers (uv_request c m) = timers m" "next_handle (uv_request c m) = next_handle m"
  by (simp_all add: uv_request_def)

lemma armed_timers_update [timer_simps]: "armed (m\<lparr>timers := ts\<rparr>) h = armed m h"
  by (simp add: armed_def)

lemma armed_next_update [timer_simps]: "armed (m\<lparr>next_handle := n\<rparr>) h = armed m h"
  by (simp add: armed_def)

lemma fold_stop [timer_simps]:
  "timers (fold (\<lambda>(_, t). uv_request (Uv_timer_stop (Seq_timer t))) ts m) = timers m"
  "next_handle (fold (\<lambda>(_, t). uv_request (Uv_timer_stop (Seq_timer t))) ts m) = next_handle m"
  "armed (fold (\<lambda>(_, t). uv_request (Uv_timer_stop (Seq_timer t))) ts m) h =
     (case h of Two_msl \<Rightarrow> armed m h
      | Seq_timer t \<Rightarrow> if t \<in> snd ` set ts then None else armed m h)"
  by (induction ts arbitrary: m) (auto simp: timer_simps split: uv_handle.splits)

lemma map_find_handle_mem:
  "map_sorted (timers m) \<Longrightarrow> map_find s (timers m) = Some t \<Longrightarrow> t \<in> snd ` set (timers m)"
  by (force simp: map_find_mem)

lemma handle_unique:
  assumes "timers_ok m" and "map_find s (timers m) = Some t" and "map_find s' (timers m) = Some t"
  shows "s = s'"
proof -
  have "(s, t) \<in> set (timers m)" "(s', t) \<in> set (timers m)"
    using assms by (auto simp: timers_ok_def map_find_mem)
  moreover have "inj_on snd (set (timers m))"
    using assms(1) by (simp add: timers_ok_def distinct_map)
  ultimately have "(s, t) = (s', t)"
    by (metis inj_onD snd_conv)
  then show ?thesis
    by simp
qed

lemma timers_okI_stop:
  assumes "timers_ok m" and "timers m' = timers m" and "next_handle m' = next_handle m"
    and "\<And>h. armed m' h = None \<or> armed m' h = armed m h"
  shows "timers_ok m'"
  using assms unfolding timers_ok_def by metis

lemma new_timer_manager_ok: "timers_ok new_timer_manager"
  by (simp add: timers_ok_def new_timer_manager_def armed_def)

lemma range_find:
  "map_sorted ts \<Longrightarrow> t \<in> snd ` set ts \<longleftrightarrow> (\<exists>s. map_find s ts = Some t)"
  by (force simp: map_find_mem image_iff)

lemma armed_in_map:
  "timers_ok m \<Longrightarrow> armed m (Seq_timer t) \<noteq> None \<Longrightarrow> \<exists>s. map_find s (timers m) = Some t"
  by (metis range_find timers_ok_def)

lemma armed_not_in_map:
  "timers_ok m \<Longrightarrow> t \<notin> snd ` set (timers m) \<Longrightarrow> armed m (Seq_timer t) = None"
  unfolding timers_ok_def by metis

lemma map_assign_distinct_snd:
  "distinct (map snd ts) \<Longrightarrow> t \<notin> snd ` set ts \<Longrightarrow> distinct (map snd (map_assign s t ts))"
proof (induction s t ts rule: map_assign.induct)
  case (2 k v k' v' m)
  then show ?case
    using map_assign_set [of k v m] by (auto simp: image_iff)
qed simp

lemma map_erase_distinct_snd: "distinct (map snd ts) \<Longrightarrow> distinct (map snd (map_erase s ts))"
proof (induction s ts rule: map_erase.induct)
  case (2 k k' v' m)
  then show ?case
    using map_erase_keys_subset [of k m] by (auto simp: image_iff)
qed simp

section \<open>Functional behaviour\<close>

text \<open>Each operation as an update of what is armed per sequence number.\<close>

lemma stop_timer_fields [timer_simps]:
  "timers (stop_timer s m) = timers m" "next_handle (stop_timer s m) = next_handle m"
  by (simp_all add: stop_timer_def timer_simps split: option.splits)

lemma armed_stop_timer:
  "armed (stop_timer s m) h =
     (case map_find s (timers m) of
        None \<Rightarrow> armed m h
      | Some t \<Rightarrow> if h = Seq_timer t then None else armed m h)"
  by (simp add: stop_timer_def timer_simps split: option.splits)

lemma stop_timer_ok: "timers_ok m \<Longrightarrow> timers_ok (stop_timer s m)"
  by (rule timers_okI_stop) (auto simp: timer_simps armed_stop_timer split: option.splits)

lemma stop_timer_armed_seq:
  "timers_ok m \<Longrightarrow> armed_seq (stop_timer s m) = (armed_seq m)(s := None)"
  by (rule ext) (auto simp: armed_seq_def timer_simps armed_stop_timer dest: handle_unique
      split: option.splits)

lemma drop_timer_eq:
  "drop_timer s m = (case map_find s (timers m) of None \<Rightarrow> m
     | Some t \<Rightarrow> (uv_request (Uv_close (Seq_timer t)) (stop_timer s m))\<lparr>timers := map_erase s (timers m)\<rparr>)"
  by (simp add: drop_timer_def stop_timer_def Let_def uv_request_def split: option.splits)

lemma armed_drop_timer: "armed (drop_timer s m) h = armed (stop_timer s m) h"
  by (auto simp: drop_timer_eq timer_simps armed_stop_timer split: option.splits)

lemma drop_timer_timers: "timers (drop_timer s m) = map_erase s (timers m)"
proof (cases "map_find s (timers m)")
  case None
  then have "map_erase s (timers m) = timers m"
    by (simp add: map_find_None_iff map_erase_absent)
  with None show ?thesis
    by (simp add: drop_timer_eq)
qed (simp add: drop_timer_eq)

lemma drop_timer_next [timer_simps]: "next_handle (drop_timer s m) = next_handle m"
  by (simp add: drop_timer_eq timer_simps split: option.splits)

lemma drop_timer_ok:
  assumes ok: "timers_ok m"
  shows "timers_ok (drop_timer s m)"
proof -
  have srt: "map_sorted (timers m)"
    using ok by (simp add: timers_ok_def)
  have "t \<in> snd ` set (map_erase s (timers m))" if "armed (drop_timer s m) (Seq_timer t) \<noteq> None" for t
  proof -
    have a: "armed m (Seq_timer t) \<noteq> None" and n: "map_find s (timers m) \<noteq> Some t"
      using that by (auto simp: armed_drop_timer armed_stop_timer split: option.splits if_splits)
    obtain s' where "map_find s' (timers m) = Some t"
      using armed_in_map [OF ok a] by blast
    with n have "map_find s' (map_erase s (timers m)) = Some t"
      using srt by (auto simp: map_find_erase)
    then show ?thesis
      using srt by (auto simp: range_find map_erase_sorted)
  qed
  then show ?thesis
    using ok map_erase_keys_subset [of s "timers m"]
    by (auto simp: timers_ok_def drop_timer_timers timer_simps map_erase_sorted
        map_erase_distinct_snd)
qed

lemma drop_timer_armed_seq:
  assumes ok: "timers_ok m"
  shows "armed_seq (drop_timer s m) = (armed_seq m)(s := None)"
proof
  fix x
  have "map_sorted (timers m)"
    using ok by (simp add: timers_ok_def)
  then show "armed_seq (drop_timer s m) x = ((armed_seq m)(s := None)) x"
    using ok by (auto simp: armed_seq_def drop_timer_timers map_find_erase armed_drop_timer
        armed_stop_timer dest: handle_unique split: option.splits)
qed

lemma start_timer_eq:
  "start_timer s to cb m =
     (let t = next_handle m; m = stop_timer s m
      in (uv_request (Uv_timer_start (Seq_timer t) (On_timer_uv_tick cb) to)
           (uv_request (Uv_timer_init (Seq_timer t)) (m\<lparr>next_handle := t + 1\<rparr>)))
         \<lparr>timers := map_assign s t (timers m)\<rparr>)"
  by (auto simp: start_timer_def Let_def timer_simps stop_timer_def)

lemma start_timer_fields [timer_simps]:
  "timers (start_timer s to cb m) = map_assign s (next_handle m) (timers m)"
  "next_handle (start_timer s to cb m) = Suc (next_handle m)"
  by (simp_all add: start_timer_eq Let_def timer_simps)

lemma armed_start_timer:
  "armed (start_timer s to cb m) h =
     (if h = Seq_timer (next_handle m) then Some (On_timer_uv_tick cb, to)
      else armed (stop_timer s m) h)"
  by (simp add: start_timer_eq Let_def timer_simps)

lemma fresh_handle: "timers_ok m \<Longrightarrow> map_find s (timers m) \<noteq> Some (next_handle m)"
  by (metis less_irrefl map_find_handle_mem timers_ok_def)

lemma start_timer_ok:
  assumes ok: "timers_ok m"
  shows "timers_ok (start_timer s to cb m)"
proof -
  have srt: "map_sorted (timers m)" and srt': "map_sorted (map_assign s (next_handle m) (timers m))"
    using ok by (simp_all add: timers_ok_def map_assign_sorted)
  have "t \<in> snd ` set (map_assign s (next_handle m) (timers m))"
    if "armed (start_timer s to cb m) (Seq_timer t) \<noteq> None" for t
  proof (cases "t = next_handle m")
    case True
    then show ?thesis
      unfolding range_find [OF srt'] by (auto simp: map_find_assign)
  next
    case False
    then have a: "armed m (Seq_timer t) \<noteq> None" and n: "map_find s (timers m) \<noteq> Some t"
      using that by (auto simp: armed_start_timer armed_stop_timer split: option.splits if_splits)
    obtain s' where "map_find s' (timers m) = Some t"
      using armed_in_map [OF ok a] by blast
    with n show ?thesis
      unfolding range_find [OF srt'] by (auto simp: map_find_assign)
  qed
  moreover have "next_handle m \<notin> snd ` set (timers m)"
    using ok by (auto simp: timers_ok_def)
  ultimately show ?thesis
    using ok srt' map_assign_set [of s "next_handle m" "timers m"]
    by (auto simp: timers_ok_def timer_simps map_assign_distinct_snd less_Suc_eq)
qed

lemma start_timer_armed_seq:
  assumes ok: "timers_ok m"
  shows "armed_seq (start_timer s to cb m) = (armed_seq m)(s \<mapsto> (On_timer_uv_tick cb, to))"
  by (rule ext)
    (use ok in \<open>auto simp: armed_seq_def timer_simps map_find_assign armed_start_timer
       armed_stop_timer dest: handle_unique fresh_handle split: option.splits\<close>)

text \<open>Dropping every timer below a bound.\<close>

lemma drop_timer_up_to_unfold:
  "drop_timer_up_to a m =
     (case timers m of [] \<Rightarrow> m
      | (k, t) # rest \<Rightarrow> if a \<le> k then m else drop_timer_up_to a (drop_timer k m))"
  by (subst drop_timer_up_to.simps) (simp split: list.splits prod.splits)

lemma drop_timer_up_to_timers: "timers (drop_timer_up_to a m) = erase_below a (timers m)"
proof (induction a m rule: drop_timer_up_to.induct)
  case (1 a m)
  show ?case
  proof (cases "timers m")
    case (Cons e rest)
    obtain k t where e: "e = (k, t)"
      by (cases e)
    show ?thesis
    proof (cases "a \<le> k")
      case False
      then have "timers (drop_timer_up_to a (drop_timer k m)) = erase_below a (timers (drop_timer k m))"
        using 1 Cons e by simp
      then show ?thesis
        using False Cons e
        by (subst drop_timer_up_to_unfold) (auto simp: drop_timer_first)
    qed (use Cons e in \<open>subst drop_timer_up_to_unfold, auto\<close>)
  qed (subst drop_timer_up_to_unfold, simp)
qed

lemma drop_timer_up_to_next [timer_simps]:
  "next_handle (drop_timer_up_to a m) = next_handle m"
proof (induction a m rule: drop_timer_up_to.induct)
  case (1 a m)
  then show ?case
    by (subst drop_timer_up_to_unfold) (auto simp: timer_simps split: list.splits)
qed

lemma drop_timer_up_to_ok_armed:
  "timers_ok m \<Longrightarrow> timers_ok (drop_timer_up_to a m) \<and>
     armed_seq (drop_timer_up_to a m) = (\<lambda>s. if s < a then None else armed_seq m s)"
proof (induction a m rule: drop_timer_up_to.induct)
  case (1 a m)
  have srt: "map_sorted (timers m)"
    using "1.prems" by (simp add: timers_ok_def)
  show ?case
  proof (cases "timers m")
    case Nil
    then have "armed_seq m = (\<lambda>s. None)"
      by (simp add: armed_seq_def fun_eq_iff)
    then show ?thesis
      using Nil "1.prems" by (subst (1 2) drop_timer_up_to_unfold) (simp add: fun_eq_iff)
  next
    case (Cons e rest)
    obtain k t where e: "e = (k, t)"
      by (cases e)
    have none: "armed_seq m s = None" if "s < k" for s
    proof -
      have "map_find s (timers m) = None"
        using srt Cons e that by (fastforce simp: map_find_None_pairs map_sorted_Cons)
      then show ?thesis
        by (simp add: armed_seq_def)
    qed
    show ?thesis
    proof (cases "a \<le> k")
      case True
      then have "drop_timer_up_to a m = m"
        using Cons e by (subst drop_timer_up_to_unfold) simp
      then show ?thesis
        using "1.prems" none True by (auto simp: fun_eq_iff)
    next
      case False
      then have eq: "drop_timer_up_to a m = drop_timer_up_to a (drop_timer k m)"
        using Cons e by (subst drop_timer_up_to_unfold) simp
      have "timers_ok (drop_timer k m)"
        by (rule drop_timer_ok [OF "1.prems"])
      then show ?thesis
        using "1.IH" [OF Cons e [symmetric] False] False drop_timer_armed_seq [OF "1.prems", of k]
        by (auto simp: eq fun_eq_iff not_le)
    qed
  qed
qed

text \<open>Stopping and dropping never arm anything.\<close>

lemma armed_stop_le: "armed (stop_timer s m) h = None \<or> armed (stop_timer s m) h = armed m h"
  by (simp add: armed_stop_timer split: option.splits)

lemma armed_drop_up_to_le: "armed (drop_timer_up_to a m) h = None \<or> armed (drop_timer_up_to a m) h = armed m h"
proof (induction a m rule: drop_timer_up_to.induct)
  case (1 a m)
  show ?case
  proof (cases "timers m = [] \<or> a \<le> fst (hd (timers m))")
    case True
    then have "drop_timer_up_to a m = m"
      by (subst drop_timer_up_to_unfold) (auto split: list.split)
    then show ?thesis
      by simp
  next
    case False
    then obtain k t rest where m: "timers m = (k, t) # rest" and k: "\<not> a \<le> k"
      by (cases "timers m") auto
    then have "drop_timer_up_to a m = drop_timer_up_to a (drop_timer k m)"
      by (subst drop_timer_up_to_unfold) simp
    then show ?thesis
      using 1 [OF m refl k] armed_stop_le [of k m h] by (simp add: armed_drop_timer) metis
  qed
qed

text \<open>Stopping without erasing.\<close>

lemma takeWhile_below:
  "map_sorted ts \<Longrightarrow> map_find s (takeWhile (\<lambda>(k, _). k < a) ts) = (if s < a then map_find s ts else None)"
proof (induction ts)
  case (Cons e ts)
  obtain k t where e: "e = (k, t)"
    by (cases e)
  show ?case
  proof (cases "k < a")
    case True
    then show ?thesis
      using Cons e by (auto simp: map_sorted_Cons map_find_Cons)
  next
    case False
    have "map_find s (e # ts) = None" if "s < a"
      using Cons.prems e False that by (fastforce simp: map_sorted_Cons map_find_None_pairs)
    then show ?thesis
      using False e by auto
  qed
qed simp

lemma stop_timers_up_to_ok: "timers_ok m \<Longrightarrow> timers_ok (stop_timers_up_to a m)"
  by (rule timers_okI_stop) (auto simp: stop_timers_up_to_def timer_simps split: uv_handle.splits)

lemma map_sorted_takeWhile: "map_sorted ts \<Longrightarrow> map_sorted (takeWhile P ts)"
  by (induction ts) (force simp: map_sorted_Cons dest: set_takeWhileD)+

lemma stop_timers_up_to_armed:
  assumes ok: "timers_ok m"
  shows "armed_seq (stop_timers_up_to a m) = (\<lambda>s. if s < a then None else armed_seq m s)"
proof
  fix s
  let ?tw = "takeWhile (\<lambda>(k, _). k < a) (timers m)"
  have srt: "map_sorted (timers m)"
    using ok by (simp add: timers_ok_def)
  have in_tw: "t \<in> snd ` set ?tw \<longleftrightarrow> s < a" if "map_find s (timers m) = Some t" for t
  proof -
    have "t \<in> snd ` set ?tw \<longleftrightarrow> (\<exists>s'. s' < a \<and> map_find s' (timers m) = Some t)"
      using srt by (auto simp: range_find map_sorted_takeWhile takeWhile_below)
    then show ?thesis
      using that handle_unique [OF ok that] by blast
  qed
  show "armed_seq (stop_timers_up_to a m) s = (if s < a then None else armed_seq m s)"
  proof (cases "map_find s (timers m)")
    case (Some t)
    then show ?thesis
      using in_tw [OF Some] by (simp add: armed_seq_def stop_timers_up_to_def timer_simps)
  qed (simp add: armed_seq_def stop_timers_up_to_def timer_simps)
qed

lemma stop_all_timers_fields [timer_simps]:
  "timers (stop_all_timers m) = timers m" "next_handle (stop_all_timers m) = next_handle m"
  by (simp_all add: stop_all_timers_def timer_simps)

lemma stop_all_timers_ok: "timers_ok m \<Longrightarrow> timers_ok (stop_all_timers m)"
  by (rule timers_okI_stop)
    (auto simp: stop_all_timers_def timer_simps split: uv_handle.splits)

lemma armed_stop_all_le: "armed (stop_all_timers m) h = None \<or> armed (stop_all_timers m) h = armed m h"
  by (auto simp: stop_all_timers_def timer_simps split: uv_handle.splits)

lemma stop_all_timers_none: "timers_ok m \<Longrightarrow> armed (stop_all_timers m) h = None"
  by (cases h) (auto simp: stop_all_timers_def timer_simps armed_not_in_map)

lemma stop_all_timers_armed: "timers_ok m \<Longrightarrow> armed_seq (stop_all_timers m) = (\<lambda>s. None)"
  by (simp add: fun_eq_iff armed_seq_def stop_all_timers_none split: option.splits)

lemma drop_all_loop_first:
  assumes "timers m = (s, t) # rest"
  shows "drop_all_loop ((s, t) # rest) m = drop_all_loop rest (drop_timer s m)"
  using assms by (simp add: drop_timer_def map_find_Cons uv_request_def Let_def)

lemma drop_all_loop_eq:
  "timers_ok m \<Longrightarrow> timers m = ts \<Longrightarrow>
     timers_ok (drop_all_loop ts m) \<and> timers (drop_all_loop ts m) = []"
proof (induction ts arbitrary: m)
  case (Cons e rest)
  obtain s t where e: "e = (s, t)"
    by (cases e)
  have "timers_ok (drop_timer s m)" and "timers (drop_timer s m) = rest"
    using Cons.prems e by (auto intro: drop_timer_ok drop_timer_first)
  from Cons.IH [OF this] show ?case
    using Cons.prems e by (simp only: drop_all_loop_first)
qed simp

lemma drop_all_timers_ok: "timers_ok m \<Longrightarrow> timers_ok (drop_all_timers m)"
  and drop_all_timers_armed: "timers_ok m \<Longrightarrow> armed_seq (drop_all_timers m) = (\<lambda>s. None)"
  using drop_all_loop_eq [of m "timers m"]
  by (auto simp: drop_all_timers_def armed_seq_def)

lemma destroy_timers_none:
  assumes ok: "timers_ok m"
  shows "armed (destroy_timers m) (Seq_timer t) = None"
proof -
  have "armed (fold (\<lambda>(_, t) m. uv_request (Uv_close (Seq_timer t))
      (uv_request (Uv_timer_stop (Seq_timer t)) m)) ts m) (Seq_timer t)
      = (if t \<in> snd ` set ts then None else armed m (Seq_timer t))" for ts
    by (induction ts arbitrary: m) (auto simp: timer_simps)
  from this [of "timers m"] show ?thesis
    using armed_not_in_map [OF ok, of t] by (auto simp: destroy_timers_def)
qed

lemma destroy_timers_two_msl: "armed (destroy_timers m) Two_msl = armed m Two_msl"
proof -
  have "armed (fold (\<lambda>(_, t) m. uv_request (Uv_close (Seq_timer t))
      (uv_request (Uv_timer_stop (Seq_timer t)) m)) ts m) Two_msl = armed m Two_msl" for ts
    by (induction ts arbitrary: m) (auto simp: timer_simps)
  then show ?thesis
    by (simp add: destroy_timers_def)
qed

section \<open>The timer service contract\<close>

text \<open>
  What the session relies on: a service that arms one entry per sequence number, replaces it
  on a restart, and forgets entries on stop, on acknowledgement and on a full stop.
\<close>

locale timer_service =
  fixes invar :: "'m \<Rightarrow> bool"
    and arm :: "'m \<Rightarrow> u32 \<Rightarrow> 'x option"
    and start :: "u32 \<Rightarrow> 'x \<Rightarrow> 'm \<Rightarrow> 'm"
    and stop :: "u32 \<Rightarrow> 'm \<Rightarrow> 'm"
    and drop_up_to :: "u32 \<Rightarrow> 'm \<Rightarrow> 'm"
    and stop_all :: "'m \<Rightarrow> 'm"
  assumes law_start: "invar m \<Longrightarrow> arm (start s x m) = (arm m)(s \<mapsto> x)"
    and law_start_invar: "invar m \<Longrightarrow> invar (start s x m)"
    and law_stop: "invar m \<Longrightarrow> arm (stop s m) = (arm m)(s := None)"
    and law_stop_invar: "invar m \<Longrightarrow> invar (stop s m)"
    and law_drop: "invar m \<Longrightarrow> arm (drop_up_to a m) = (\<lambda>s. if s < a then None else arm m s)"
    and law_drop_invar: "invar m \<Longrightarrow> invar (drop_up_to a m)"
    and law_stop_all: "invar m \<Longrightarrow> arm (stop_all m) = (\<lambda>s. None)"
    and law_stop_all_invar: "invar m \<Longrightarrow> invar (stop_all m)"
begin

lemma restart_replaces: "invar m \<Longrightarrow> arm (start s y (stop s m)) = (arm m)(s \<mapsto> y)"
  by (simp add: law_start law_stop law_stop_invar)

lemma dom_drop: "invar m \<Longrightarrow> dom (arm (drop_up_to a m)) = {s \<in> dom (arm m). a \<le> s}"
  by (auto simp: law_drop split: if_splits)

lemma acked_start_survives:
  "invar m \<Longrightarrow> a \<le> s \<Longrightarrow> arm (drop_up_to a (start s x m)) s = Some x"
  by (simp add: law_drop law_start law_start_invar)

lemma stop_all_then_start:
  "invar m \<Longrightarrow> arm (start s x (stop_all m)) = [s \<mapsto> x]"
  by (simp add: law_start law_stop_all law_stop_all_invar)

end

text \<open>The closure and timeout armed for a sequence number.\<close>

definition armed_closure :: "'c timer_manager \<Rightarrow> u32 \<Rightarrow> ('c \<times> u64) option" where
  "armed_closure m seq =
     (case armed_seq m seq of Some (On_timer_uv_tick c, t) \<Rightarrow> Some (c, t) | _ \<Rightarrow> None)"

interpretation tm: timer_service timers_ok armed_closure
  "\<lambda>s x. start_timer s (snd x) (fst x)" stop_timer drop_timer_up_to stop_all_timers
  by unfold_locales
    (auto simp: armed_closure_def start_timer_armed_seq start_timer_ok stop_timer_armed_seq
      stop_timer_ok drop_timer_up_to_ok_armed stop_all_timers_armed stop_all_timers_ok fun_eq_iff)

section \<open>Properties\<close>

text \<open>
  C23: Every operation of the timer manager keeps the class invariant and acts on the map
  from sequence numbers to armed timers as its name says: \<open>start_timer\<close> sets (or replaces)
  one entry, \<open>stop_timer\<close> and \<open>drop_timer\<close> clear one, \<open>drop_timer_up_to\<close> and
  \<open>stop_timers_up_to\<close> clear exactly the entries strictly below the bound, the others clear all.
  The timer at the bound itself survives, as the comment in \<open>TimerManager.cpp\<close> says and against
  the one in \<open>TimerManager.h\<close> (``less than or equal'').
\<close>

theorem timer_manager_refines:
  assumes "timers_ok m"
  shows "timers_ok (start_timer s to cb m)
    \<and> armed_seq (start_timer s to cb m) = (armed_seq m)(s \<mapsto> (On_timer_uv_tick cb, to))
    \<and> timers_ok (stop_timer s m) \<and> armed_seq (stop_timer s m) = (armed_seq m)(s := None)
    \<and> timers_ok (drop_timer s m) \<and> armed_seq (drop_timer s m) = (armed_seq m)(s := None)
    \<and> timers_ok (drop_timer_up_to a m)
    \<and> armed_seq (drop_timer_up_to a m) = (\<lambda>s. if s < a then None else armed_seq m s)
    \<and> timers_ok (stop_timers_up_to a m)
    \<and> armed_seq (stop_timers_up_to a m) = (\<lambda>s. if s < a then None else armed_seq m s)
    \<and> armed_seq (stop_timers_up_to a m) a = armed_seq m a
    \<and> timers_ok (stop_all_timers m) \<and> armed_seq (stop_all_timers m) = (\<lambda>s. None)
    \<and> timers_ok (drop_all_timers m) \<and> armed_seq (drop_all_timers m) = (\<lambda>s. None)"
  using assms
  by (simp add: start_timer_ok start_timer_armed_seq stop_timer_ok stop_timer_armed_seq
      drop_timer_ok drop_timer_armed_seq drop_timer_up_to_ok_armed stop_timers_up_to_ok
      stop_timers_up_to_armed stop_all_timers_ok stop_all_timers_armed drop_all_timers_ok
      drop_all_timers_armed)

theorem timer_manager_refines_witness:
  "armed_seq (start_timer 7 1000 True new_timer_manager) 7 = Some (On_timer_uv_tick True, 1000)
   \<and> armed_seq (drop_timer_up_to 8 (start_timer 7 1000 True new_timer_manager)) 7 = None
   \<and> armed_seq (drop_timer_up_to 7 (start_timer 7 1000 True new_timer_manager)) 7
       = Some (On_timer_uv_tick True, 1000)
   \<and> armed_seq (stop_timers_up_to 7 (start_timer 7 1000 True new_timer_manager)) 7
       = Some (On_timer_uv_tick True, 1000)"
proof -
  note start = timer_manager_refines [OF new_timer_manager_ok, of 7 1000 True]
  then have ok: "timers_ok (start_timer 7 1000 True new_timer_manager)"
    by blast
  show ?thesis
    using start timer_manager_refines [OF ok, of 7 1000 True 8]
      timer_manager_refines [OF ok, of 7 1000 True 7] by simp
qed

text \<open>
  No stray timer: a handle that is armed is in the map under some sequence number, so
  after \<open>stop_all_timers\<close> nothing is armed, and after the destructor no retransmission timer
  is armed that could call back into the destroyed session. The destructor does not touch
  the 2MSL timer: it stays armed if it was.
\<close>

theorem no_stray_timer:
  assumes "timers_ok m"
  shows "(armed m (Seq_timer t) \<noteq> None \<longrightarrow> (\<exists>s. map_find s (timers m) = Some t))
    \<and> armed (stop_all_timers m) h = None
    \<and> armed (destroy_timers m) (Seq_timer t) = None
    \<and> armed (destroy_timers m) Two_msl = armed m Two_msl"
  by (intro conjI impI armed_in_map [OF assms] stop_all_timers_none [OF assms]
      destroy_timers_none [OF assms] destroy_timers_two_msl)

theorem no_stray_timer_witness:
  "armed (destroy_timers (start_timer 7 1000 True new_timer_manager)) (Seq_timer 0) = None
   \<and> armed (start_timer 7 1000 True new_timer_manager) (Seq_timer 0) \<noteq> None"
  using no_stray_timer [OF start_timer_ok [OF new_timer_manager_ok, of 7 1000 True], of 0 Two_msl]
  by (simp add: armed_start_timer new_timer_manager_def)

text \<open>
  Handles that the map no longer holds although they were never closed: nothing in the
  program can free them any more.
\<close>

definition leaked :: "'c timer_manager \<Rightarrow> nat set" where
  "leaked m = {t. t < next_handle m \<and> t \<notin> snd ` set (timers m)
                  \<and> Uv_close (Seq_timer t) \<notin> set (uv_calls m)}"

lemma uv_calls_request [timer_simps]: "uv_calls (uv_request c m) = uv_calls m @ [c]"
  by (simp add: uv_request_def)

lemma uv_calls_fold_stop [timer_simps]:
  "Uv_close h \<in> set (uv_calls (fold (\<lambda>(_, t). uv_request (Uv_timer_stop (Seq_timer t))) ts m))
     \<longleftrightarrow> Uv_close h \<in> set (uv_calls m)"
  by (induction ts arbitrary: m) (simp_all add: timer_simps case_prod_beta)

lemma uv_calls_stop_timer [timer_simps]:
  "Uv_close h \<in> set (uv_calls (stop_timer s m)) \<longleftrightarrow> Uv_close h \<in> set (uv_calls m)"
  by (auto simp: stop_timer_def timer_simps split: option.splits)

lemma leaked_stop_timer: "leaked (stop_timer s m) = leaked m"
  by (simp add: leaked_def timer_simps)

lemma leaked_stop_all_timers: "leaked (stop_all_timers m) = leaked m"
  by (auto simp: leaked_def timer_simps stop_all_timers_def)

lemma range_map_erase:
  assumes ok: "timers_ok m" and s: "map_find s (timers m) = Some t"
  shows "snd ` set (map_erase s (timers m)) = snd ` set (timers m) - {t}"
proof -
  have srt: "map_sorted (timers m)"
    using ok by (simp add: timers_ok_def)
  have "x \<in> snd ` set (map_erase s (timers m)) \<longleftrightarrow> x \<in> snd ` set (timers m) \<and> x \<noteq> t" for x
    unfolding range_find [OF srt] range_find [OF map_erase_sorted [OF srt]] map_find_erase [OF srt]
    using s handle_unique [OF ok s] by (metis option.distinct(1) option.inject)
  then show ?thesis
    by blast
qed

lemma leaked_drop_timer:
  assumes ok: "timers_ok m"
  shows "leaked (drop_timer s m) = leaked m"
proof (cases "map_find s (timers m)")
  case (Some t)
  then have "t \<in> snd ` set (timers m)"
    using ok by (auto simp: timers_ok_def dest: map_find_handle_mem)
  then show ?thesis
    using Some range_map_erase [OF ok Some]
    by (auto simp: leaked_def drop_timer_eq timer_simps)
qed (simp add: drop_timer_def)

lemma leaked_drop_timer_up_to: "timers_ok m \<Longrightarrow> leaked (drop_timer_up_to a m) = leaked m"
proof (induction a m rule: drop_timer_up_to.induct)
  case (1 a m)
  show ?case
    using 1 by (subst drop_timer_up_to_unfold)
      (auto simp: drop_timer_ok leaked_drop_timer split: list.splits)
qed

text \<open>
  Restarting a timer leaks its handle: \<open>start_timer\<close> for a sequence number that is
  already in the map takes the old handle out of the map without closing it, and no other
  operation of the manager ever reclaims a leaked handle.
\<close>

theorem start_timer_leaks_old_handle:
  assumes "timers_ok m"
  shows "(\<forall>t. map_find s (timers m) = Some t \<and> Uv_close (Seq_timer t) \<notin> set (uv_calls m) \<longrightarrow>
            leaked (start_timer s to cb m) = insert t (leaked m) \<and> t \<notin> leaked m)
    \<and> (map_find s (timers m) = None \<longrightarrow> leaked (start_timer s to cb m) = leaked m)
    \<and> leaked (stop_timer x m) = leaked m \<and> leaked (drop_timer x m) = leaked m
    \<and> leaked (drop_timer_up_to x m) = leaked m \<and> leaked (stop_all_timers m) = leaked m"
proof -
  have srt: "map_sorted (timers m)" and srt': "map_sorted (map_assign s (next_handle m) (timers m))"
    using assms by (simp_all add: timers_ok_def map_assign_sorted)
  have calls: "Uv_close h \<in> set (uv_calls (start_timer s to cb m)) \<longleftrightarrow> Uv_close h \<in> set (uv_calls m)" for h
    by (simp add: start_timer_eq Let_def timer_simps)
  have range: "x \<in> snd ` set (map_assign s (next_handle m) (timers m)) \<longleftrightarrow>
      x = next_handle m \<or> (x \<in> snd ` set (timers m) \<and> map_find s (timers m) \<noteq> Some x)" for x
    unfolding range_find [OF srt] range_find [OF srt'] map_find_assign
    using handle_unique [OF assms] by (metis option.inject)
  have "leaked (start_timer s to cb m) = insert t (leaked m) \<and> t \<notin> leaked m"
    if "map_find s (timers m) = Some t" and "Uv_close (Seq_timer t) \<notin> set (uv_calls m)" for t
  proof -
    have "t \<in> snd ` set (timers m)" "t < next_handle m"
      using that(1) assms by (auto simp: timers_ok_def dest: map_find_handle_mem)
    then show ?thesis
      using that unfolding leaked_def timer_simps range calls by auto
  qed
  moreover have "leaked (start_timer s to cb m) = leaked m" if "map_find s (timers m) = None"
    using that unfolding leaked_def timer_simps range calls by auto
  ultimately show ?thesis
    using assms leaked_drop_timer_up_to
    by (simp add: leaked_stop_timer leaked_drop_timer leaked_stop_all_timers)
qed

theorem start_timer_leaks_old_handle_witness:
  "leaked (start_timer 7 2000 True (start_timer 7 1000 True new_timer_manager)) = {0}"
proof -
  let ?m = "start_timer 7 1000 True new_timer_manager"
  have ok: "timers_ok ?m"
    by (rule start_timer_ok [OF new_timer_manager_ok])
  have "map_find 7 (timers ?m) = Some 0" and "Uv_close (Seq_timer 0) \<notin> set (uv_calls ?m)"
    and "leaked ?m = {}"
    by (auto simp: start_timer_def new_timer_manager_def uv_request_def Let_def
        map_find_Cons leaked_def)
  then show ?thesis
    using start_timer_leaks_old_handle [OF ok, of 7 2000 True] by auto
qed

end
