(* ===== verification/Segment.thy ===== *)
theory Segment
  imports Prelude
begin

text \<open>
  The segment format: \<open>myu_tcp_header\<close> and \<open>myu_tcp_packet\<close> of
  \<open>include/myutcp/core/segment.h\<close>, the enumerations \<open>TcpState\<close> and \<open>TcpFlag\<close> of
  \<open>include/myutcp/core/tcb.h\<close> with their printing functions, and the byte image of a packet
  as \<open>UdpDriver\<close> writes and reads it. The header fields hold the values as stored, that is,
  after \<open>htons\<close>/\<open>htonl\<close>.
\<close>

section \<open>Header and packet\<close>

record tcp_header =
  s_port :: u16
  d_port :: u16
  seq_num :: u32
  ack_num :: u32
  data_offset_and_reserved :: u8
  flags :: u8
  window_size :: u16
  checksum :: u16
  urgent_ptr :: u16

record tcp_packet =
  header :: tcp_header
  options :: "u8 list"
  payload :: "u8 list"

section \<open>States and flags\<close>

datatype tcp_state = CLOSED | LISTEN | SYN_SENT | SYN_RECEIVED | ESTABLISHED
  | FIN_WAIT_1 | FIN_WAIT_2 | CLOSE_WAIT | LAST_ACK | TIME_WAIT

text \<open>The enumerators are compared by their position in the declaration.\<close>

fun state_code :: "tcp_state \<Rightarrow> nat" where
  "state_code CLOSED = 0"
| "state_code LISTEN = 1"
| "state_code SYN_SENT = 2"
| "state_code SYN_RECEIVED = 3"
| "state_code ESTABLISHED = 4"
| "state_code FIN_WAIT_1 = 5"
| "state_code FIN_WAIT_2 = 6"
| "state_code CLOSE_WAIT = 7"
| "state_code LAST_ACK = 8"
| "state_code TIME_WAIT = 9"

lemma state_code_inject: "state_code a = state_code b \<Longrightarrow> a = b"
  by (cases a; cases b) simp_all

instantiation tcp_state :: linorder
begin

definition less_eq_tcp_state :: "tcp_state \<Rightarrow> tcp_state \<Rightarrow> bool" where
  "less_eq_tcp_state a b \<longleftrightarrow> state_code a \<le> state_code b"

definition less_tcp_state :: "tcp_state \<Rightarrow> tcp_state \<Rightarrow> bool" where
  "less_tcp_state a b \<longleftrightarrow> state_code a < state_code b"

instance
  by standard (auto simp: less_eq_tcp_state_def less_tcp_state_def intro: state_code_inject)

end

fun state_to_string :: "tcp_state \<Rightarrow> string" where
  "state_to_string CLOSED = ''CLOSED''"
| "state_to_string LISTEN = ''LISTEN''"
| "state_to_string SYN_SENT = ''SYN_SENT''"
| "state_to_string SYN_RECEIVED = ''SYN_RECEIVED''"
| "state_to_string ESTABLISHED = ''ESTABLISHED''"
| "state_to_string FIN_WAIT_1 = ''FIN_WAIT_1''"
| "state_to_string FIN_WAIT_2 = ''FIN_WAIT_2''"
| "state_to_string CLOSE_WAIT = ''CLOSE_WAIT''"
| "state_to_string LAST_ACK = ''LAST_ACK''"
| "state_to_string TIME_WAIT = ''TIME_WAIT''"

definition FLAG_FIN :: u8 where "FLAG_FIN = 0x01"
definition FLAG_SYN :: u8 where "FLAG_SYN = 0x02"
definition FLAG_RST :: u8 where "FLAG_RST = 0x04"
definition FLAG_PSH :: u8 where "FLAG_PSH = 0x08"
definition FLAG_ACK :: u8 where "FLAG_ACK = 0x10"
definition FLAG_URG :: u8 where "FLAG_URG = 0x20"
definition FLAG_ECE :: u8 where "FLAG_ECE = 0x40"
definition FLAG_CWR :: u8 where "FLAG_CWR = 0x80"

lemmas flag_defs = FLAG_FIN_def FLAG_SYN_def FLAG_RST_def FLAG_PSH_def FLAG_ACK_def
  FLAG_URG_def FLAG_ECE_def FLAG_CWR_def

definition flag_to_string :: "u8 \<Rightarrow> string" where
  "flag_to_string flag =
     (if flag = FLAG_FIN then ''FIN'' else if flag = FLAG_SYN then ''SYN''
      else if flag = FLAG_RST then ''RST'' else if flag = FLAG_PSH then ''PSH''
      else if flag = FLAG_ACK then ''ACK'' else if flag = FLAG_URG then ''URG''
      else if flag = FLAG_ECE then ''ECE'' else if flag = FLAG_CWR then ''CWR''
      else ''UNKNOWN_FLAG'')"

text \<open>\<open>parse_flags_to_string\<close> throws on every combination it does not list.\<close>

definition parse_flags_to_string :: "u8 \<Rightarrow> string result" where
  "parse_flags_to_string fl =
     (if fl = 0x01 then Inr ''FLAG_FIN'' else if fl = 0x02 then Inr ''FLAG_SYN''
      else if fl = 0x04 then Inr ''FLAG_RST'' else if fl = 0x08 then Inr ''FLAG_PSH''
      else if fl = 0x10 then Inr ''FLAG_ACK'' else if fl = 0x20 then Inr ''FLAG_URG''
      else if fl = 0x40 then Inr ''FLAG_ECE'' else if fl = 0x80 then Inr ''FLAG_CWR''
      else if fl = 0x11 then Inr ''FLAG_FIN_ACK'' else if fl = 0x12 then Inr ''FLAG_SYN_ACK''
      else Inl Invalid_argument)"

text \<open>A flag test \<open>flags & FLAG_X\<close> used as a condition.\<close>

definition has_flag :: "tcp_packet \<Rightarrow> u8 \<Rightarrow> bool" where
  "has_flag p f \<longleftrightarrow> flags (header p) AND f \<noteq> 0"

section \<open>Byte image\<close>

definition header_size :: nat where
  "header_size = 20"

text \<open>\<open>memcpy\<close> of the packed struct, and back.\<close>

definition header_bytes :: "tcp_header \<Rightarrow> u8 list" where
  "header_bytes h = le16_bytes (s_port h) @ le16_bytes (d_port h)
     @ le32_bytes (seq_num h) @ le32_bytes (ack_num h)
     @ [data_offset_and_reserved h, flags h]
     @ le16_bytes (window_size h) @ le16_bytes (checksum h) @ le16_bytes (urgent_ptr h)"

definition header_of_bytes :: "u8 list \<Rightarrow> tcp_header" where
  "header_of_bytes b =
     \<lparr>s_port = le16_of (b ! 0) (b ! 1), d_port = le16_of (b ! 2) (b ! 3),
      seq_num = le32_of (b ! 4) (b ! 5) (b ! 6) (b ! 7),
      ack_num = le32_of (b ! 8) (b ! 9) (b ! 10) (b ! 11),
      data_offset_and_reserved = b ! 12, flags = b ! 13,
      window_size = le16_of (b ! 14) (b ! 15), checksum = le16_of (b ! 16) (b ! 17),
      urgent_ptr = le16_of (b ! 18) (b ! 19)\<rparr>"

lemma length_header_bytes [simp]: "length (header_bytes h) = header_size"
  by (simp add: header_bytes_def header_size_def le16_bytes_def le32_bytes_def)

lemma header_of_header_bytes [simp]: "header_of_bytes (header_bytes h @ bs) = h"
  by (simp add: header_of_bytes_def header_bytes_def le16_bytes_def le32_bytes_def wire_simps)

lemma list_20:
  assumes "20 \<le> length bs"
  shows "take 20 bs = map (\<lambda>i. bs ! i) [0..<20]"
  using assms by (intro nth_equalityI) auto

lemma header_bytes_header_of:
  assumes "header_size \<le> length bs"
  shows "header_bytes (header_of_bytes bs) = take header_size bs"
proof -
  have "[0..<20] = [0, 1, 2, 3, 4, 5, 6, 7, 8, 9, 10, 11, 12, 13, 14, 15, 16, 17, 18, 19::nat]"
    by (simp add: upt_rec)
  then show ?thesis
    using assms list_20 [of bs]
    by (simp add: header_of_bytes_def header_bytes_def le16_bytes_def le32_bytes_def
        header_size_def wire_simps)
qed

end
