(* ===== verification/Udp_Driver.thy ===== *)
theory Udp_Driver
  imports Complex_Main Segment
begin

text \<open>
  \<open>UdpDriver\<close> (\<open>include/myutcp/network/UdpDriver.h\<close>, \<open>src/network/UdpDriver.cpp\<close>): the
  driver's state, the sending of a packet with the simulated loss, and the receive callback
  that parses a datagram. libuv itself is not modelled: the driver's state records the
  arguments of its \<open>uv_udp_bind\<close> and \<open>uv_udp_send\<close> calls in order. A datagram counts as
  sent when it was handed to \<open>uv_udp_send\<close>.
\<close>

section \<open>Driver state\<close>

text \<open>
  An address as the pair of arguments given to \<open>uv_ip4_addr\<close>, whose result the program ignores:
  a text that is no dotted address is not told apart here.
\<close>

type_synonym sock_addr = "string \<times> u16"

text \<open>
  The values \<open>on_receive_callback_\<close> takes in the program: empty, the lambda of
  \<open>TcpStack::listen\<close>, or the lambda of \<open>TcpSession::connect\<close> for the session object at the
  given address.
\<close>

datatype receiver = No_callback | Stack_listen | Session_input nat

text \<open>
  \<open>loss_rate\<close> and the draws are values of type \<open>float\<close>, hence rationals; \<open>draw k\<close> stands
  for the \<open>k\<close>-th value of \<open>static_cast<float>(rand()) / RAND_MAX\<close>.
\<close>

record udp_driver =
  bound_addr :: "sock_addr option"
  on_receive_callback :: receiver
  loss_rate :: rat
  rand_calls :: nat
  udp_sends :: "(u8 list \<times> sock_addr) list"

definition new_driver :: udp_driver where
  "new_driver = \<lparr>bound_addr = None, on_receive_callback = No_callback, loss_rate = 0,
                 rand_calls = 0, udp_sends = []\<rparr>"

definition driver_init :: "string \<Rightarrow> u16 \<Rightarrow> udp_driver \<Rightarrow> udp_driver" where
  "driver_init listen_ip listen_port d = d\<lparr>bound_addr := Some (listen_ip, listen_port)\<rparr>"

definition set_on_receive :: "receiver \<Rightarrow> udp_driver \<Rightarrow> udp_driver" where
  "set_on_receive cb d = d\<lparr>on_receive_callback := cb\<rparr>"

definition set_loss_rate :: "rat \<Rightarrow> udp_driver \<Rightarrow> udp_driver" where
  "set_loss_rate rate d = d\<lparr>loss_rate := rate\<rparr>"

text \<open>
  \<open>stop\<close> hands libuv the address of the member \<open>udp_handle_\<close>, a pointer variable, where the
  handle that it points to is expected. libuv's two functions are parameters.
\<close>

datatype uv_argument = The_handle | Pointer_variable

record uv_api =
  uv_is_closing :: "uv_argument \<Rightarrow> bool result"
  uv_close :: "uv_argument \<Rightarrow> unit result"

definition driver_stop :: "uv_api \<Rightarrow> udp_driver \<Rightarrow> udp_driver result" where
  "driver_stop uv d =
     bind_res (uv_is_closing uv Pointer_variable) (\<lambda>closing.
       if \<not> closing then bind_res (uv_close uv Pointer_variable) (\<lambda>_. Inr d) else Inr d)"

section \<open>Sending and receiving\<close>

text \<open>The buffer \<open>raw_data\<close>: the header struct followed by the payload; options are not sent.\<close>

definition raw_data :: "tcp_packet \<Rightarrow> u8 list" where
  "raw_data p = header_bytes (header p) @ payload p"

definition send_packet ::
  "(nat \<Rightarrow> rat) \<Rightarrow> tcp_packet \<Rightarrow> sock_addr \<Rightarrow> udp_driver \<Rightarrow> udp_driver" where
  "send_packet draw p dest_addr d =
     (let lost = (draw (rand_calls d) < loss_rate d);
          d = d\<lparr>rand_calls := rand_calls d + 1\<rparr>
      in if lost then d else d\<lparr>udp_sends := udp_sends d @ [(raw_data p, dest_addr)]\<rparr>)"

text \<open>The packet built from a datagram of at least one header's length.\<close>

definition parse_datagram :: "u8 list \<Rightarrow> tcp_packet option" where
  "parse_datagram bs =
     (if length bs \<ge> header_size
      then Some \<lparr>header = header_of_bytes bs, options = [], payload = drop header_size bs\<rparr>
      else None)"

text \<open>
  \<open>on_uv_recv\<close> returns the call it makes, if it makes one: the callback, the packet and the
  sender's address. A read error or an empty read (\<open>nread <= 0\<close>) is the empty list, a null
  address is \<open>None\<close>.
\<close>

definition on_uv_recv ::
  "u8 list \<Rightarrow> sock_addr option \<Rightarrow> udp_driver \<Rightarrow> (receiver \<times> tcp_packet \<times> sock_addr) option" where
  "on_uv_recv buf addr d =
     (case addr of
        None \<Rightarrow> None
      | Some a \<Rightarrow>
          if buf \<noteq> [] \<and> on_receive_callback d \<noteq> No_callback
          then (case parse_datagram buf of
                  None \<Rightarrow> None
                | Some packet \<Rightarrow> Some (on_receive_callback d, packet, a))
          else None)"

section \<open>The codec contract\<close>

text \<open>
  A codec between values and byte strings: decoding inverts encoding on the valid values,
  and whatever decodes is the image of a valid value.
\<close>

locale codec =
  fixes enc :: "'p \<Rightarrow> 'b list"
    and dec :: "'b list \<Rightarrow> 'p option"
    and valid :: "'p \<Rightarrow> bool"
  assumes law_dec_enc: "valid p \<Longrightarrow> dec (enc p) = Some p"
    and law_enc_dec: "dec bs = Some p \<Longrightarrow> valid p \<and> enc p = bs"
begin

lemma enc_inject: "valid p \<Longrightarrow> valid q \<Longrightarrow> enc p = enc q \<longleftrightarrow> p = q"
  by (metis law_dec_enc option.inject)

lemma dec_inject: "dec bs = Some p \<Longrightarrow> dec cs = Some p \<Longrightarrow> bs = cs"
  using law_enc_dec by blast

lemma dec_eq_iff: "dec bs = Some p \<longleftrightarrow> valid p \<and> enc p = bs"
  using law_dec_enc law_enc_dec by blast

end

lemma tcp_header_more_unit: "options p = [] \<Longrightarrow>
    \<lparr>header = header p, options = [], payload = payload p\<rparr> = (p :: tcp_packet)"
  by simp

interpretation wire: codec raw_data parse_datagram "\<lambda>p. options p = []"
proof unfold_locales
  fix p :: tcp_packet
  assume "options p = []"
  then show "parse_datagram (raw_data p) = Some p"
    by (simp add: parse_datagram_def raw_data_def)
next
  fix bs p
  assume "parse_datagram bs = Some p"
  then show "options p = [] \<and> raw_data p = bs"
    by (auto simp: parse_datagram_def raw_data_def header_bytes_header_of split: if_splits)
qed

lemma length_raw_data [simp]: "length (raw_data p) = header_size + length (payload p)"
  by (simp add: raw_data_def)

lemma raw_data_nonempty [simp]: "raw_data p \<noteq> []"
  by (metis length_raw_data add_is_0 header_size_def list.size(3) zero_neq_numeral)

lemma send_packet_frame [frame_simps]:
  "on_receive_callback (send_packet draw p dest d) = on_receive_callback d"
  "loss_rate (send_packet draw p dest d) = loss_rate d"
  "bound_addr (send_packet draw p dest d) = bound_addr d"
  by (simp_all add: send_packet_def Let_def)

lemma send_packet_sends:
  "udp_sends (send_packet draw p dest d) =
     udp_sends d @ (if draw (rand_calls d) < loss_rate d then [] else [(raw_data p, dest)])"
  by (simp add: send_packet_def Let_def)

lemma send_packet_sends_subset:
  "set (udp_sends (send_packet draw p dest d)) \<subseteq> insert (raw_data p, dest) (set (udp_sends d))"
  by (auto simp: send_packet_sends)

section \<open>Properties\<close>

text \<open>
  C29: What one driver sends, another driver parses back to the same packet: a packet without
  options that \<open>send_packet\<close> hands to the network is, at a receiver with a callback
  installed, passed to that callback unchanged; conversely a datagram is accepted exactly
  when it is at least one header long, and the packet passed up re-encodes to the same bytes.
\<close>

theorem datagram_roundtrip:
  "(options p = [] \<and> on_receive_callback d \<noteq> No_callback \<longrightarrow>
      on_uv_recv (raw_data p) (Some a) d = Some (on_receive_callback d, p, a))
   \<and> (on_receive_callback d \<noteq> No_callback \<longrightarrow>
        (\<forall>bs. (\<exists>cb q. on_uv_recv bs (Some a) d = Some (cb, q, a)) \<longleftrightarrow> header_size \<le> length bs))
   \<and> (\<forall>bs cb q b. on_uv_recv bs (Some a) d = Some (cb, q, b) \<longrightarrow>
        raw_data q = bs \<and> options q = [] \<and> b = a \<and> cb = on_receive_callback d)"
proof (intro conjI impI allI)
  assume "options p = [] \<and> on_receive_callback d \<noteq> No_callback"
  then show "on_uv_recv (raw_data p) (Some a) d = Some (on_receive_callback d, p, a)"
    by (simp add: on_uv_recv_def wire.law_dec_enc)
next
  fix bs
  assume "on_receive_callback d \<noteq> No_callback"
  then show "(\<exists>cb q. on_uv_recv bs (Some a) d = Some (cb, q, a)) \<longleftrightarrow> header_size \<le> length bs"
    by (auto simp: on_uv_recv_def parse_datagram_def header_size_def)
qed (auto simp: on_uv_recv_def wire.dec_eq_iff split: option.splits if_splits)

theorem datagram_roundtrip_witness:
  "let h = \<lparr>s_port = 1, d_port = 2, seq_num = 3, ack_num = 4, data_offset_and_reserved = 80,
            flags = 16, window_size = 5, checksum = 6, urgent_ptr = 0\<rparr>;
       p = \<lparr>header = h, options = [], payload = [65, 66]\<rparr>;
       d = new_driver\<lparr>on_receive_callback := Stack_listen\<rparr>
   in on_uv_recv (raw_data p) (Some (''10.0.0.1'', 9)) d = Some (Stack_listen, p, (''10.0.0.1'', 9))"
  unfolding Let_def
  by (rule datagram_roundtrip [THEN conjunct1, THEN mp, simplified, THEN trans])
    (simp_all add: new_driver_def)

end
