(* ===== verification/Checksum.thy ===== *)
theory Checksum
  imports Udp_Driver
begin

text \<open>
  The Internet checksum of \<open>src/core/tcb.cpp\<close>: \<open>_calculate_checksum\<close> and
  \<open>_verify_checksum\<close> with their summation loop \<open>add_to_sum\<close> and the folding loop. The sum
  is a \<open>uint32_t\<close> that wraps; the words of the header and of the payload are read as the
  little-endian host reads them.
\<close>

section \<open>The functions\<close>

fun add_to_sum :: "u32 \<Rightarrow> u8 list \<Rightarrow> u32" where
  "add_to_sum acc (b0 # b1 # bs) = add_to_sum (acc + ucast (le16_of b0 b1)) bs"
| "add_to_sum acc [b] = acc + ucast b"
| "add_to_sum acc [] = acc"

text \<open>\<open>while (sum >> 16) sum = (sum & 0xFFFF) + (sum >> 16)\<close>.\<close>

lemma fold_step_unat:
  "unat ((s AND 0xFFFF) + drop_bit 16 s :: u32) = unat s mod 2 ^ 16 + unat s div 2 ^ 16"
proof -
  have m: "unat (s AND 0xFFFF) = unat s mod 2 ^ 16"
  proof -
    have "s AND 0xFFFF = take_bit 16 s"
      by (simp add: take_bit_eq_mask mask_eq_exp_minus_1)
    then show ?thesis
      by (simp add: take_bit_eq_mod unat_mod)
  qed
  have d: "unat (drop_bit 16 s) = unat s div 2 ^ 16"
    by (simp add: drop_bit_eq_div unat_div)
  have "unat s < 2 ^ 32"
    using unsigned_less [of s, where ?'a = nat] by simp
  then have "unat s mod 2 ^ 16 + unat s div 2 ^ 16 < 2 ^ 32"
    by simp
  then show ?thesis
    by (simp add: unat_word_ariths m d)
qed

lemma fold_guard_unat: "drop_bit 16 s \<noteq> 0 \<longleftrightarrow> 2 ^ 16 \<le> unat (s :: u32)"
proof -
  have d: "unat (drop_bit 16 s) = unat s div 2 ^ 16"
    by (simp add: drop_bit_eq_div unat_div)
  have "drop_bit 16 s \<noteq> 0 \<longleftrightarrow> unat (drop_bit 16 s) \<noteq> 0"
    by (simp add: unat_eq_0)
  then show ?thesis
    by (simp add: d div_eq_0_iff not_less)
qed

lemma fold_decreases: "65536 \<le> n \<Longrightarrow> n mod 65536 + n div 65536 < (n :: nat)"
proof -
  assume "65536 \<le> n"
  then have "0 < n div 65536"
    by (simp add: div_greater_zero_iff)
  moreover have "n = 65536 * (n div 65536) + n mod 65536"
    by (rule mult_div_mod_eq [symmetric])
  ultimately show ?thesis
    by linarith
qed

function fold_sum :: "u32 \<Rightarrow> u32" where
  "fold_sum s = (if drop_bit 16 s \<noteq> 0 then fold_sum ((s AND 0xFFFF) + drop_bit 16 s) else s)"
  by pat_completeness auto
termination
proof (relation "measure unat")
  fix s :: u32
  assume "drop_bit 16 s \<noteq> 0"
  then have "2 ^ 16 \<le> unat s"
    by (simp only: fold_guard_unat)
  then have "unat s mod 65536 + unat s div 65536 < unat s"
    by (simp add: fold_decreases)
  then show "((s AND 0xFFFF) + drop_bit 16 s, s) \<in> measure unat"
    by (simp add: fold_step_unat del: unat_add_lem)
qed simp

declare fold_sum.simps [simp del]

definition calculate_checksum :: "tcp_packet \<Rightarrow> tcp_packet" where
  "calculate_checksum packet =
     (let packet = packet\<lparr>header := (header packet)\<lparr>checksum := 0\<rparr>\<rparr>;
          sum = add_to_sum 0 (header_bytes (header packet));
          sum = (if payload packet \<noteq> [] then add_to_sum sum (payload packet) else sum);
          sum = fold_sum sum
      in packet\<lparr>header := (header packet)\<lparr>checksum := ucast (NOT sum)\<rparr>\<rparr>)"

definition verify_checksum :: "tcp_packet \<Rightarrow> bool" where
  "verify_checksum packet =
     (let sum = add_to_sum 0 (header_bytes (header packet));
          sum = (if payload packet \<noteq> [] then add_to_sum sum (payload packet) else sum);
          sum = fold_sum sum
      in ucast (NOT sum) = (0 :: u16))"

section \<open>The folded sum\<close>

lemma fold_sum_unat: "unat (fold_sum s) = (if s = 0 then 0 else (unat s - 1) mod 65535 + 1)"
proof (induction s rule: fold_sum.induct)
  case (1 s)
  show ?case
  proof (cases "drop_bit 16 s = 0")
    case True
    then have "unat s < 65536"
      using fold_guard_unat [of s] by simp
    moreover have "s \<noteq> 0 \<Longrightarrow> 0 < unat s"
      by (simp add: unat_gt_0)
    ultimately show ?thesis
      using True by (subst fold_sum.simps) (auto simp: mod_less)
  next
    case False
    let ?t = "(s AND 0xFFFF) + drop_bit 16 s"
    have ge: "65536 \<le> unat s"
      using False fold_guard_unat [of s] by simp
    have t: "unat ?t = unat s mod 65536 + unat s div 65536"
      using fold_step_unat [of s] by simp
    have h: "0 < unat s div 65536"
      using ge by (simp add: div_greater_zero_iff)
    then have t0: "?t \<noteq> 0"
      using t by (metis add_is_0 less_irrefl unsigned_0)
    have "unat s - 1 = 65535 * (unat s div 65536) + (unat ?t - 1)"
      using t h by simp
    then have "(unat s - 1) mod 65535 = (unat ?t - 1) mod 65535"
      by simp
    moreover have "s \<noteq> 0"
      using ge by auto
    ultimately show ?thesis
      using 1 [OF False] t0 False by (subst fold_sum.simps) simp
  qed
qed

lemma fold_sum_bound: "unat (fold_sum s) < 65536"
proof -
  have "(unat s - 1) mod 65535 < 65535"
    by (rule mod_less_divisor) simp
  then show ?thesis
    by (simp add: fold_sum_unat)
qed

lemma mod_eq_65534_iff: "0 < n \<Longrightarrow> (n - 1) mod 65535 = 65534 \<longleftrightarrow> 65535 dvd (n :: nat)"
proof -
  assume "0 < n"
  then obtain m where n: "n = Suc m"
    by (cases n) auto
  have "Suc m mod 65535 = (if Suc (m mod 65535) = 65535 then 0 else Suc (m mod 65535))"
    by (rule mod_Suc)
  then show ?thesis
    by (auto simp: n dvd_eq_mod_eq_0)
qed

section \<open>The sum as a number\<close>

text \<open>The sum of the 16-bit little-endian words of a byte string, without wrap-around.\<close>

fun word_sum :: "u8 list \<Rightarrow> nat" where
  "word_sum (b0 # b1 # bs) = unat b0 + 256 * unat b1 + word_sum bs"
| "word_sum [b] = unat b"
| "word_sum [] = 0"

lemma unat_ucast_16_32: "unat (ucast (x :: u16) :: u32) = unat x"
  using unsigned_less [of x, where ?'a = nat]
  by (simp add: unsigned_ucast_eq take_bit_nat_eq_self)

lemma unat_ucast_8_32: "unat (ucast (x :: u8) :: u32) = unat x"
  using unsigned_less [of x, where ?'a = nat]
  by (simp add: unsigned_ucast_eq take_bit_nat_eq_self)

lemma add_to_sum_unat: "unat (add_to_sum acc bs) = (unat acc + word_sum bs) mod 2 ^ 32"
proof (induction acc bs rule: add_to_sum.induct)
  case (1 acc b0 b1 bs)
  have "unat (acc + ucast (le16_of b0 b1)) = (unat acc + (unat b0 + 256 * unat b1)) mod 2 ^ 32"
    by (simp add: unat_word_ariths unat_ucast_16_32 unat_le16_of)
  then show ?case
    using 1 by (simp add: mod_simps add.assoc)
next
  case (2 acc b)
  then show ?case
    by (simp add: unat_word_ariths unat_ucast_8_32)
next
  case (3 acc)
  then show ?case
    using unsigned_less [of acc, where ?'a = nat] by simp
qed

lemma word_sum_bound: "word_sum bs \<le> 65535 * ((length bs + 1) div 2)"
proof (induction bs rule: word_sum.induct)
  case (1 b0 b1 bs)
  then show ?case
    using unat_u8_bound [of b0] unat_u8_bound [of b1] by simp
next
  case (2 b)
  then show ?case
    using unat_u8_bound [of b] by simp
qed simp

lemma word_sum_append: "even (length as) \<Longrightarrow> word_sum (as @ bs) = word_sum as + word_sum bs"
  by (induction as rule: word_sum.induct) auto

lemma word_sum_update:
  "i < length bs \<Longrightarrow> word_sum (bs[i := b]) + (if even i then 1 else 256) * unat (bs ! i)
     = word_sum bs + (if even i then 1 else 256) * unat b"
proof (induction bs arbitrary: i rule: word_sum.induct)
  case (1 b0 b1 bs)
  show ?case
  proof (cases "i < 2")
    case True
    then have "i = 0 \<or> i = 1"
      by auto
    then show ?thesis
      by auto
  next
    case False
    then obtain j where i: "i = Suc (Suc j)"
      by (metis One_nat_def Suc_1 less_2_cases_iff not0_implies_Suc)
    then show ?thesis
      using 1 by simp
  qed
qed auto

lemma word_sum_raw_data: "word_sum (raw_data p) = word_sum (header_bytes (header p)) + word_sum (payload p)"
  by (simp add: raw_data_def word_sum_append header_size_def)

text \<open>No datagram is longer than \<open>65535\<close> bytes; up to there the 32-bit sum does not wrap.\<close>

lemma packet_sum_unat:
  assumes "length (payload p) \<le> 65535"
  shows "unat (let sum = add_to_sum 0 (header_bytes (header p))
               in if payload p \<noteq> [] then add_to_sum sum (payload p) else sum) = word_sum (raw_data p)"
    and "word_sum (raw_data p) < 2 ^ 32 - 65536"
proof -
  have "word_sum (raw_data p) \<le> 65535 * ((length (raw_data p) + 1) div 2)"
    by (rule word_sum_bound)
  also have "\<dots> \<le> 65535 * 32778"
    using assms by (simp add: header_size_def)
  finally show b: "word_sum (raw_data p) < 2 ^ 32 - 65536"
    by simp
  then show "unat (let sum = add_to_sum 0 (header_bytes (header p))
               in if payload p \<noteq> [] then add_to_sum sum (payload p) else sum) = word_sum (raw_data p)"
    by (auto simp: Let_def add_to_sum_unat word_sum_raw_data mod_simps)
qed

lemma unat_ucast_not:
  fixes s :: u32
  assumes "unat s < 65536"
  shows "unat (ucast (NOT s) :: u16) = 65535 - unat s"
proof -
  have n: "(ucast (NOT s) :: u16) = NOT (ucast s)"
    by (rule bit_word_eqI) (auto simp: bit_simps)
  have "NOT (ucast s :: u16) = -1 - ucast s"
    by (simp add: not_eq_complement)
  moreover have "unat (-1 - ucast s :: u16) = unat (-1 :: u16) - unat (ucast s :: u16)"
    by (rule unat_sub) simp
  moreover have "unat (ucast s :: u16) = unat s"
    using assms by (simp add: unsigned_ucast_eq take_bit_eq_mod)
  ultimately show ?thesis
    by (simp add: n unsigned_minus_1_eq_mask mask_eq_exp_minus_1)
qed

lemma verify_checksum_iff:
  assumes "length (payload p) \<le> 65535"
  shows "verify_checksum p \<longleftrightarrow> 0 < word_sum (raw_data p) \<and> 65535 dvd word_sum (raw_data p)"
proof -
  let ?s = "let sum = add_to_sum 0 (header_bytes (header p))
            in if payload p \<noteq> [] then add_to_sum sum (payload p) else sum"
  let ?n = "word_sum (raw_data p)"
  have u: "unat ?s = ?n"
    using packet_sum_unat [OF assms] by simp
  have "verify_checksum p \<longleftrightarrow> unat (ucast (NOT (fold_sum ?s)) :: u16) = 0"
    by (simp add: verify_checksum_def Let_def unat_eq_0)
  also have "\<dots> \<longleftrightarrow> unat (fold_sum ?s) = 65535"
    using fold_sum_bound [of ?s] by (auto simp: unat_ucast_not)
  also have "\<dots> \<longleftrightarrow> 0 < ?n \<and> (?n - 1) mod 65535 = 65534"
    by (auto simp: fold_sum_unat u unat_eq_0 [symmetric] simp del: unat_eq_0)
  also have "\<dots> \<longleftrightarrow> 0 < ?n \<and> 65535 dvd ?n"
    by (auto simp: mod_eq_65534_iff [simplified])
  finally show ?thesis .
qed

section \<open>The checksum field\<close>

lemma word_sum_le16: "word_sum (le16_bytes w @ bs) = unat w + word_sum bs"
proof -
  have "unat (ucast w :: u8) + 256 * unat (ucast (drop_bit 8 w) :: u8)
      = unat (le16_of (ucast w) (ucast (drop_bit 8 w)))"
    by (simp only: unat_le16_of)
  then show ?thesis
    by (simp add: le16_bytes_def wire_simps)
qed

lemma word_sum_header_checksum:
  "word_sum (header_bytes h) = word_sum (header_bytes (h\<lparr>checksum := 0\<rparr>)) + unat (checksum h)"
proof -
  let ?pre = "le16_bytes (s_port h) @ le16_bytes (d_port h) @ le32_bytes (seq_num h)
      @ le32_bytes (ack_num h) @ [data_offset_and_reserved h, flags h] @ le16_bytes (window_size h)"
  have e: "even (length ?pre)"
    by (simp add: le16_bytes_def le32_bytes_def)
  have h: "header_bytes h = ?pre @ le16_bytes (checksum h) @ le16_bytes (urgent_ptr h)"
    and h0: "header_bytes (h\<lparr>checksum := 0\<rparr>) = ?pre @ le16_bytes 0 @ le16_bytes (urgent_ptr h)"
    by (simp_all add: header_bytes_def)
  have "word_sum (header_bytes h) = word_sum ?pre + (unat (checksum h) + word_sum (le16_bytes (urgent_ptr h)))"
    by (simp only: h word_sum_append [OF e] word_sum_le16)
  moreover have "word_sum (header_bytes (h\<lparr>checksum := 0\<rparr>))
      = word_sum ?pre + (unat (0 :: u16) + word_sum (le16_bytes (urgent_ptr h)))"
    by (simp only: h0 word_sum_append [OF e] word_sum_le16)
  ultimately show ?thesis
    by simp
qed

lemma calculate_checksum_eq:
  assumes "length (payload p) \<le> 65535"
  defines "n \<equiv> word_sum (raw_data (p\<lparr>header := (header p)\<lparr>checksum := 0\<rparr>\<rparr>))"
  shows "\<exists>c. calculate_checksum p = p\<lparr>header := (header p)\<lparr>checksum := c\<rparr>\<rparr>
             \<and> unat c = 65535 - (if n = 0 then 0 else (n - 1) mod 65535 + 1)"
proof -
  let ?p = "p\<lparr>header := (header p)\<lparr>checksum := 0\<rparr>\<rparr>"
  let ?s = "let sum = add_to_sum 0 (header_bytes (header ?p))
            in if payload ?p \<noteq> [] then add_to_sum sum (payload ?p) else sum"
  have u: "unat ?s = n"
    using packet_sum_unat(1) [of ?p] assms(1) by (simp add: n_def)
  then have z: "?s = 0 \<longleftrightarrow> n = 0"
    by (metis unat_eq_0)
  have "calculate_checksum p = p\<lparr>header := (header p)\<lparr>checksum := ucast (NOT (fold_sum ?s))\<rparr>\<rparr>"
    by (simp add: calculate_checksum_def Let_def)
  moreover have "unat (ucast (NOT (fold_sum ?s)) :: u16)
      = 65535 - (if n = 0 then 0 else (n - 1) mod 65535 + 1)"
    using fold_sum_unat [of ?s] by (simp only: unat_ucast_not [OF fold_sum_bound] u z)
  ultimately show ?thesis
    by blast
qed

lemma complement_sum_dvd:
  assumes c: "c = 65535 - (if n = 0 then 0 else (n - 1) mod 65535 + 1)"
  shows "0 < n + c \<and> 65535 dvd n + (c :: nat)"
proof (cases "n = 0")
  case False
  then obtain m where n: "n = Suc m"
    by (cases n) auto
  have b: "m mod 65535 < 65535"
    by simp
  have "n + c = Suc m + (65535 - Suc (m mod 65535))"
    using c n by simp
  also have "\<dots> = 65535 * (m div 65535) + (m mod 65535 + 1) + (65535 - (m mod 65535 + 1))"
    using mult_div_mod_eq [of 65535 m] by linarith
  also have "\<dots> = 65535 * (m div 65535) + 65535"
    using b by linarith
  finally show ?thesis
    using n by simp
qed (use c in simp)

lemma checksum_accepts:
  assumes "length (payload p) \<le> 65535"
  shows "verify_checksum (calculate_checksum p)"
proof -
  let ?n = "word_sum (raw_data (p\<lparr>header := (header p)\<lparr>checksum := 0\<rparr>\<rparr>))"
  obtain c where c: "calculate_checksum p = p\<lparr>header := (header p)\<lparr>checksum := c\<rparr>\<rparr>"
    and u: "unat c = 65535 - (if ?n = 0 then 0 else (?n - 1) mod 65535 + 1)"
    using calculate_checksum_eq [OF assms] by blast
  have "word_sum (raw_data (calculate_checksum p)) = ?n + unat c"
    using word_sum_header_checksum [of "(header p)\<lparr>checksum := c\<rparr>"]
    by (simp add: c word_sum_raw_data)
  then show ?thesis
    using complement_sum_dvd [OF u] assms by (simp add: verify_checksum_iff c)
qed

lemma calculate_checksum_frame:
  "\<exists>c. calculate_checksum p = p\<lparr>header := (header p)\<lparr>checksum := c\<rparr>\<rparr>"
  by (auto simp: calculate_checksum_def Let_def)

lemma calculate_checksum_fields [frame_simps]:
  "payload (calculate_checksum p) = payload p"
  "options (calculate_checksum p) = options p"
  "s_port (header (calculate_checksum p)) = s_port (header p)"
  "d_port (header (calculate_checksum p)) = d_port (header p)"
  "seq_num (header (calculate_checksum p)) = seq_num (header p)"
  "ack_num (header (calculate_checksum p)) = ack_num (header p)"
  "flags (header (calculate_checksum p)) = flags (header p)"
  "window_size (header (calculate_checksum p)) = window_size (header p)"
  "data_offset_and_reserved (header (calculate_checksum p)) = data_offset_and_reserved (header p)"
  by (simp_all add: calculate_checksum_def Let_def)

section \<open>Properties\<close>

text \<open>
  The checksum the sender computes is the checksum the receiver accepts: for every packet
  that fits a UDP datagram, whatever its header holds (the checksum field included),
  \<open>_calculate_checksum\<close> changes the checksum field only and \<open>_verify_checksum\<close> accepts the
  result.
\<close>

theorem checksum_roundtrip:
  assumes "length (payload p) \<le> 65535"
  shows "verify_checksum (calculate_checksum p)
    \<and> (\<exists>c. calculate_checksum p = p\<lparr>header := (header p)\<lparr>checksum := c\<rparr>\<rparr>)"
  using checksum_accepts [OF assms] calculate_checksum_frame by blast

theorem checksum_roundtrip_witness:
  "verify_checksum (calculate_checksum
     \<lparr>header = \<lparr>s_port = 1, d_port = 2, seq_num = 3, ack_num = 4, data_offset_and_reserved = 80,
                flags = 16, window_size = 5, checksum = 6, urgent_ptr = 7\<rparr>,
      options = [], payload = [65, 66, 67]\<rparr>)"
  by (rule checksum_roundtrip [THEN conjunct1]) simp

text \<open>
  C27: A datagram that is accepted stops being accepted when any single byte of it, header or
  payload, is changed to any other value: corruption confined to one byte is always detected.
\<close>

theorem checksum_detects_byte_change:
  assumes "parse_datagram bs = Some p" and "length bs \<le> 65535" and "verify_checksum p"
    and "i < length bs" and "b \<noteq> bs ! i"
    and "parse_datagram (bs[i := b]) = Some q"
  shows "\<not> verify_checksum q"
proof
  assume v: "verify_checksum q"
  have bs: "raw_data p = bs" "raw_data q = bs[i := b]"
    using assms(1,6) wire.law_enc_dec by blast+
  then have "length (payload p) \<le> 65535" "length (payload q) \<le> 65535"
    using assms(2) by (metis add_leD2 length_list_update length_raw_data)+
  then have d: "65535 dvd word_sum bs" "65535 dvd word_sum (bs[i := b])"
    using assms(3) v bs by (auto simp: verify_checksum_iff)
  define k :: nat where "k = (if even i then 1 else 256)"
  have eq: "word_sum (bs[i := b]) + k * unat (bs ! i) = word_sum bs + k * unat b"
    using word_sum_update [OF assms(4)] by (simp add: k_def)
  have "(word_sum bs + k * unat b) mod 65535 = (word_sum (bs[i := b]) + k * unat (bs ! i)) mod 65535"
    by (simp only: eq)
  then have "(k * unat b) mod 65535 = (k * unat (bs ! i)) mod 65535"
    using d by (auto simp: dvd_eq_mod_eq_0 mod_add_left_eq [of "word_sum _", symmetric]
        elim!: dvdE)
  moreover have "k * unat b < 65535" "k * unat (bs ! i) < 65535"
    using unat_u8_bound [of b] unat_u8_bound [of "bs ! i"] by (auto simp: k_def)
  ultimately have "unat b = unat (bs ! i)"
    by (simp add: k_def split: if_splits)
  then show False
    using assms(5) by (simp add: word_unat_eq_iff)
qed

theorem checksum_detects_byte_change_witness:
  "let h = \<lparr>s_port = 0, d_port = 0, seq_num = 0, ack_num = 0, data_offset_and_reserved = 0,
            flags = 0, window_size = 0, checksum = 0, urgent_ptr = 0\<rparr>;
       p = calculate_checksum \<lparr>header = h, options = [], payload = [1, 2]\<rparr>;
       q = p\<lparr>payload := [9, 2]\<rparr>
   in verify_checksum p \<and> \<not> verify_checksum q"
proof -
  let ?h = "\<lparr>s_port = 0, d_port = 0, seq_num = 0, ack_num = 0, data_offset_and_reserved = 0,
            flags = 0, window_size = 0, checksum = 0, urgent_ptr = 0\<rparr>"
  let ?p0 = "\<lparr>header = ?h, options = [], payload = [1, 2]\<rparr>"
  let ?p = "calculate_checksum ?p0"
  let ?q = "?p\<lparr>payload := [9, 2]\<rparr>"
  have v: "verify_checksum ?p"
    by (rule checksum_accepts) simp
  have pay: "payload ?p = [1, 2]" "options ?p = []"
    by (simp_all add: frame_simps)
  then have r: "raw_data ?p = header_bytes (header ?p) @ [1, 2]"
    by (simp add: raw_data_def)
  have q: "raw_data ?q = (raw_data ?p)[20 := 9]"
    using r by (simp add: raw_data_def list_update_append header_size_def)
  have "\<not> verify_checksum ?q"
  proof (rule checksum_detects_byte_change [OF _ _ v, of "raw_data ?p" 20 9])
    show "parse_datagram (raw_data ?p) = Some ?p"
      using pay by (simp add: wire.law_dec_enc)
    show "length (raw_data ?p) \<le> 65535" and "20 < length (raw_data ?p)"
      using pay by (simp_all add: header_size_def)
    show "9 \<noteq> raw_data ?p ! 20"
      using r by (simp add: nth_append header_size_def)
    show "parse_datagram ((raw_data ?p)[20 := 9]) = Some ?q"
      using pay q wire.law_dec_enc [of ?q] by simp
  qed
  then show ?thesis
    using v by (simp add: Let_def)
qed

end
