(* ===== verification/Tcp_Session.thy ===== *)
theory Tcp_Session
  imports Ring_Queue Timer_Manager Checksum
begin

text \<open>
  \<open>TcpSession\<close> (\<open>include/myutcp/core/tcb.h\<close>, \<open>include/myutcp/core/sw.h\<close>,
  \<open>src/core/tcb.cpp\<close>), first part: the session's state, its environment, and the
  operations that build and send segments, retransmit them, process acknowledgements and
  data, and serve the application. The state machine that dispatches on these is in
  \<open>Tcp_Fsm\<close>.
\<close>

section \<open>Windows and constants\<close>

record send_window =
  send_unack :: u32
  send_next :: u32
  send_window_size :: u32
  initial_send_seq :: u32

record recv_window =
  recv_next :: u32
  recv_window_size :: u32
  initial_recv_seq :: u32

definition get_usable_window_size :: "send_window \<Rightarrow> u32" where
  "get_usable_window_size sw =
     (let inflight = send_next sw - send_unack sw
      in if send_window_size sw > inflight then send_window_size sw - inflight else 0)"

definition INITIAL_RTO :: u32 where "INITIAL_RTO = 1000"
definition RTO_MIN :: u32 where "RTO_MIN = 200"
definition RTO_MAX :: u32 where "RTO_MAX = 60000"
definition INITIAL_SSTHRESH :: u32 where "INITIAL_SSTHRESH = 8"
definition MAX_RETRANSMIT_COUNT :: u32 where "MAX_RETRANSMIT_COUNT = 5"

section \<open>Session state\<close>

text \<open>
  What the timer lambdas capture: the shared packet, the retransmission count and the
  destination. The remaining arguments of \<open>_handle_retransmit\<close> are computed when the
  timer fires. The packet is shared between the lambda and the send call only, so the
  lambda's copy is the packet with its checksum filled in.
\<close>

record retransmit_closure =
  rt_packet :: tcp_packet
  rt_count :: u32
  rt_ip :: string
  rt_port :: u16

text \<open>
  The members of the class, without the callbacks (they are part of the environment), the
  driver and loop pointers, and the two clock readings that nothing reads.
  \<open>self_ptr\<close> stands for the address of the object.
\<close>

record tcp_session =
  self_ptr :: nat
  state :: tcp_state
  send_buffer :: "u8 ring_queue"
  recv_buffer :: "u8 ring_queue"
  ooo_map :: "(u32, u8 list) omap"
  inflight_packets :: "(u32, tcp_packet) omap"
  listener_ip :: string
  listener_port :: u16
  remote_ip :: string
  remote_port :: u16
  user_want_to_close :: bool
  peer_usable_window_size :: u32
  timeout_ms :: u64
  is_in_ready_queue :: bool
  tmgr :: "retransmit_closure timer_manager"
  swnd :: send_window
  rwnd :: recv_window
  ssthresh :: u32
  current_rto :: u32
  last_ack_received :: u32
  dup_ack_count :: int
  auto_close_on_eof :: bool

text \<open>
  What a member function works on: the session, the driver it shares with the other
  sessions, the number of initial sequence numbers drawn so far, and the requests that the
  stack's callbacks make of the stack (put the session into the ready queue, erase it).
\<close>

datatype post = Post_ready nat | Post_erase "string \<times> u16"

record world = tcp_session +
  udp :: udp_driver
  iss_calls :: nat
  posts :: "post list"

text \<open>
  The environment: the values of \<open>rand()\<close> (see \<open>Udp_Driver\<close>), of the initial sequence
  number generator, and of the header fields that a packet on the stack leaves
  uninitialised (\<open>urgent_ptr\<close> and, until it is computed, \<open>checksum\<close>), indexed by the
  number of earlier sends; and the callbacks, which are code of the application or lambdas
  of the stack (\<open>None\<close> is an empty \<open>std::function\<close>).
\<close>

record env =
  draw :: "nat \<Rightarrow> rat"
  gen_initial_seq :: "nat \<Rightarrow> u32"
  indet_urgent :: "nat \<Rightarrow> u16"
  indet_checksum :: "nat \<Rightarrow> u16"
  on_established_cb :: "(world \<Rightarrow> world result) option"
  on_data_cb :: "(nat \<Rightarrow> world \<Rightarrow> world result) option"
  on_closed_cb :: "(world \<Rightarrow> world result) option"
  on_error_cb :: "(string \<Rightarrow> world \<Rightarrow> world result) option"
  on_recv_three_dup_ack :: "(u32 \<Rightarrow> world \<Rightarrow> world result) option"
  notify_stack_cb :: "(world \<Rightarrow> world result) option"

text \<open>\<open>if (cb) { cb(); }\<close>.\<close>

definition call_if_set :: "(world \<Rightarrow> world result) option \<Rightarrow> world \<Rightarrow> world result" where
  "call_if_set cb w = (case cb of None \<Rightarrow> Inr w | Some f \<Rightarrow> f w)"

text \<open>
  The constructor. The two ports have no initialiser: they hold whatever the memory held.
\<close>

definition new_session :: "nat \<Rightarrow> u32 \<Rightarrow> u32 \<Rightarrow> u16 \<Rightarrow> u16 \<Rightarrow> tcp_session" where
  "new_session ptr iss0 irs0 lport rport =
     \<lparr>self_ptr = ptr, state = CLOSED,
      send_buffer = ring_new 1024 0, recv_buffer = ring_new 1024 0,
      ooo_map = [], inflight_packets = [],
      listener_ip = ''0.0.0.0'', listener_port = lport,
      remote_ip = ''127.0.0.1'', remote_port = rport,
      user_want_to_close = False, peer_usable_window_size = 0, timeout_ms = 2000,
      is_in_ready_queue = False, tmgr = new_timer_manager,
      swnd = \<lparr>send_unack = 0, send_next = 0, send_window_size = 1, initial_send_seq = iss0\<rparr>,
      rwnd = \<lparr>recv_next = 0, recv_window_size = 1, initial_recv_seq = irs0\<rparr>,
      ssthresh = 8, current_rto = INITIAL_RTO, last_ack_received = iss0,
      dup_ack_count = 0, auto_close_on_eof = True\<rparr>"

section \<open>Accessors\<close>

definition is_closed :: "world \<Rightarrow> bool" where
  "is_closed w \<longleftrightarrow> state w = CLOSED"

definition is_connected :: "world \<Rightarrow> bool" where
  "is_connected w \<longleftrightarrow> state w = ESTABLISHED"

definition available :: "world \<Rightarrow> nat" where
  "available w = qsize (recv_buffer w)"

definition get_usable_recv_window_size :: "world \<Rightarrow> u32" where
  "get_usable_recv_window_size w = of_nat (capacity (recv_buffer w) - qsize (recv_buffer w))"

definition get_timeout_ms :: "world \<Rightarrow> u64" where
  "get_timeout_ms w = ucast (current_rto w)"

definition set_remote_addr :: "string \<Rightarrow> u16 \<Rightarrow> tcp_session \<Rightarrow> tcp_session" where
  "set_remote_addr ip port s = s\<lparr>remote_ip := ip, remote_port := port\<rparr>"

definition set_listener_addr :: "string \<Rightarrow> u16 \<Rightarrow> tcp_session \<Rightarrow> tcp_session" where
  "set_listener_addr ip port s = s\<lparr>listener_ip := ip, listener_port := port\<rparr>"

definition get_state :: "world \<Rightarrow> tcp_state" where
  "get_state w = state w"

definition get_listen_addr :: "world \<Rightarrow> string \<times> u16" where
  "get_listen_addr w = (listener_ip w, listener_port w)"

definition get_remote_addr :: "world \<Rightarrow> string \<times> u16" where
  "get_remote_addr w = (remote_ip w, remote_port w)"

definition get_peer_usable_recv_window_size :: "world \<Rightarrow> u32" where
  "get_peer_usable_recv_window_size w = peer_usable_window_size w"

definition get_send_window_size :: "world \<Rightarrow> u32" where
  "get_send_window_size w = send_window_size (swnd w)"

definition get_recv_window_size :: "world \<Rightarrow> u32" where
  "get_recv_window_size w = recv_window_size (rwnd w)"

definition get_usable_send_window_size :: "world \<Rightarrow> u32" where
  "get_usable_send_window_size w = get_usable_window_size (swnd w)"

definition set_peer_usable_window_size :: "u32 \<Rightarrow> world \<Rightarrow> world" where
  "set_peer_usable_window_size sz w = w\<lparr>peer_usable_window_size := sz\<rparr>"

definition set_timeout_ms :: "u32 \<Rightarrow> world \<Rightarrow> world" where
  "set_timeout_ms ms w = w\<lparr>timeout_ms := ucast ms\<rparr>"

definition set_in_ready_queue :: "bool \<Rightarrow> world \<Rightarrow> world" where
  "set_in_ready_queue in_line w = w\<lparr>is_in_ready_queue := in_line\<rparr>"

definition transition_to :: "tcp_state \<Rightarrow> world \<Rightarrow> world" where
  "transition_to new_state w = w\<lparr>state := new_state\<rparr>"

definition trigger_event :: "env \<Rightarrow> world \<Rightarrow> world result" where
  "trigger_event e w =
     (case notify_stack_cb e of
        None \<Rightarrow> Inr w
      | Some notify \<Rightarrow>
          if \<not> is_in_ready_queue w then notify (w\<lparr>is_in_ready_queue := True\<rparr>) else Inr w)"

section \<open>Building and sending segments\<close>

text \<open>The header fields that \<open>_send_pure_ack\<close>, \<open>_send_control_packet\<close> and
  \<open>_send_payload_packet\<close> fill in alike; the other two are indeterminate.\<close>

definition make_header :: "env \<Rightarrow> u32 \<Rightarrow> u8 \<Rightarrow> world \<Rightarrow> tcp_header" where
  "make_header e ack fl w =
     \<lparr>s_port = htons (listener_port w), d_port = htons (remote_port w),
      seq_num = htonl (send_next (swnd w)), ack_num = htonl ack,
      data_offset_and_reserved = push_bit 4 5, flags = fl,
      window_size = htons (ucast (get_usable_recv_window_size w)),
      checksum = indet_checksum e (rand_calls (udp w)),
      urgent_ptr = indet_urgent e (rand_calls (udp w))\<rparr>"

definition send_pure_ack :: "env \<Rightarrow> u32 \<Rightarrow> world \<Rightarrow> world" where
  "send_pure_ack e ack w =
     (let packet = \<lparr>header = make_header e ack FLAG_ACK w, options = [], payload = []\<rparr>;
          packet = calculate_checksum packet
      in w\<lparr>udp := send_packet (draw e) packet (remote_ip w, remote_port w) (udp w)\<rparr>)"

definition send_control_packet :: "env \<Rightarrow> u8 \<Rightarrow> world \<Rightarrow> world" where
  "send_control_packet e fl w =
     (let packet = \<lparr>header = make_header e (recv_next (rwnd w)) fl w, options = [], payload = []\<rparr>;
          dest = (remote_ip w, remote_port w);
          packet_ptr = calculate_checksum packet;
          w = (if has_flag packet FLAG_SYN \<or> has_flag packet FLAG_FIN
               then w\<lparr>tmgr := start_timer (send_next (swnd w)) (get_timeout_ms w)
                         \<lparr>rt_packet = packet_ptr, rt_count = 0,
                          rt_ip = fst dest, rt_port = snd dest\<rparr> (tmgr w),
                      swnd := (swnd w)\<lparr>send_next := send_next (swnd w) + 1\<rparr>\<rparr>
               else w)
      in w\<lparr>udp := send_packet (draw e) packet_ptr dest (udp w)\<rparr>)"

text \<open>
  The retransmission lambda of a data segment does not pass the destination, so the default
  arguments of \<open>_handle_retransmit\<close> apply. The in-flight copy is keyed by the sequence
  number as stored in the header, that is, in network byte order.
\<close>

definition send_payload_packet :: "env \<Rightarrow> u8 list \<Rightarrow> u8 \<Rightarrow> world \<Rightarrow> world" where
  "send_payload_packet e data fl w =
     (if data = [] then w
      else let packet = \<lparr>header = make_header e (recv_next (rwnd w)) fl w,
                         options = [], payload = data\<rparr>;
               payload_len = (of_nat (length data) :: u32);
               dest = (remote_ip w, remote_port w);
               packet_ptr = calculate_checksum packet
           in w\<lparr>inflight_packets :=
                  map_try_emplace (seq_num (header packet)) packet (inflight_packets w),
                tmgr := start_timer (send_next (swnd w)) (get_timeout_ms w)
                          \<lparr>rt_packet = packet_ptr, rt_count = 0,
                           rt_ip = ''127.0.0.1'', rt_port = 9999\<rparr> (tmgr w),
                swnd := (swnd w)\<lparr>send_next := send_next (swnd w) + payload_len\<rparr>,
                udp := send_packet (draw e) packet_ptr dest (udp w)\<rparr>)"

definition loss_ssthresh :: "u32 \<Rightarrow> u32" where
  "loss_ssthresh cwnd = (if cwnd mod 2 \<noteq> 0 then (cwnd + 1) div 2 else cwnd + 1)"

definition handle_retransmit ::
  "env \<Rightarrow> tcp_packet \<Rightarrow> u32 \<Rightarrow> u32 \<Rightarrow> u64 \<Rightarrow> string \<Rightarrow> u16 \<Rightarrow> world \<Rightarrow> bool \<times> world" where
  "handle_retransmit e packet retransmit_count retr_seq_num next_timeout_ms ip port w =
     (let packet = packet\<lparr>header := (header packet)
                      \<lparr>ack_num := htonl (recv_next (rwnd w)),
                       window_size := htons (ucast (get_usable_recv_window_size w))\<rparr>\<rparr>;
          retransmit_count = retransmit_count + 1;
          w = w\<lparr>tmgr := stop_timer retr_seq_num (tmgr w)\<rparr>
      in if retransmit_count \<ge> MAX_RETRANSMIT_COUNT then (False, w)
         else let cwnd = send_window_size (swnd w);
                  w = w\<lparr>ssthresh := loss_ssthresh cwnd,
                        swnd := (swnd w)\<lparr>send_window_size := 1\<rparr>\<rparr>;
                  next_timeout = next_timeout_ms * push_bit (unat retransmit_count) 1;
                  packet_ptr = calculate_checksum packet
              in (True,
                  w\<lparr>tmgr := start_timer retr_seq_num next_timeout
                              \<lparr>rt_packet = packet_ptr, rt_count = retransmit_count,
                               rt_ip = ip, rt_port = port\<rparr> (tmgr w),
                    udp := send_packet (draw e) packet_ptr (ip, port) (udp w)\<rparr>))"

text \<open>\<open>on_timer_uv_tick\<close> running a stored retransmission lambda.\<close>

definition run_retransmit_closure :: "env \<Rightarrow> retransmit_closure \<Rightarrow> world \<Rightarrow> world" where
  "run_retransmit_closure e c w =
     snd (handle_retransmit e (rt_packet c) (rt_count c) (ntohl (seq_num (header (rt_packet c))))
            (get_timeout_ms w) (rt_ip c) (rt_port c) w)"

text \<open>
  \<open>_handle_try_send\<close>: data goes out in \<open>ESTABLISHED\<close> and \<open>CLOSE_WAIT\<close> only. Both
  subtractions are on \<open>uint32_t\<close> and wrap.
\<close>

definition sends_data :: "tcp_state \<Rightarrow> bool" where
  "sends_data s \<longleftrightarrow> \<not> (s = TIME_WAIT \<or> s = FIN_WAIT_1 \<or> s = FIN_WAIT_2 \<or> s = CLOSED
     \<or> s = LAST_ACK \<or> s = LISTEN \<or> s = SYN_RECEIVED \<or> s = SYN_SENT)"

definition handle_try_send :: "env \<Rightarrow> world \<Rightarrow> world result" where
  "handle_try_send e w =
     (if \<not> sends_data (state w) then Inr w
      else let inflight = send_next (swnd w) - send_unack (swnd w);
               allowance = send_window_size (swnd w) - inflight
           in if allowance = 0 then Inr w
              else bind_res (peek_range (unat inflight) (unat allowance) (send_buffer w))
                     (\<lambda>data. Inr (send_payload_packet e data FLAG_ACK w)))"

section \<open>Acknowledgements\<close>

text \<open>\<open>_handle_ack\<close> in the order of the code: the window update of an acceptable
  acknowledgement, the duplicate count, the reaction to the third duplicate, the growth of
  the congestion window.\<close>

definition ack_acceptable :: "u32 \<Rightarrow> world \<Rightarrow> bool" where
  "ack_acceptable ack w \<longleftrightarrow> ack > send_unack (swnd w) \<and> ack \<le> send_next (swnd w)"

definition accept_ack :: "u32 \<Rightarrow> world \<Rightarrow> world" where
  "accept_ack ack w =
     (let w = w\<lparr>tmgr := drop_timer_up_to (ack - 1) (tmgr w)\<rparr>;
          acked_bytes = ack - send_unack (swnd w);
          w = w\<lparr>send_buffer := pop_front (unat acked_bytes) (send_buffer w)\<rparr>;
          w = w\<lparr>swnd := (swnd w)\<lparr>send_unack := ack\<rparr>\<rparr>
      in w\<lparr>inflight_packets := erase_below ack (inflight_packets w)\<rparr>)"

definition count_dup_ack :: "u32 \<Rightarrow> world \<Rightarrow> world" where
  "count_dup_ack ack w =
     (if last_ack_received w < ack then w\<lparr>last_ack_received := ack, dup_ack_count := 0\<rparr>
      else if last_ack_received w = ack then w\<lparr>dup_ack_count := dup_ack_count w + 1\<rparr>
      else w)"

definition react_dup_ack :: "env \<Rightarrow> u32 \<Rightarrow> world \<Rightarrow> world result" where
  "react_dup_ack e ack w =
     (if dup_ack_count w = 3
      then (case on_recv_three_dup_ack e of
              None \<Rightarrow> Inl Bad_function_call
            | Some cb \<Rightarrow> bind_res (cb ack w) (\<lambda>w.
                let swz = send_window_size (swnd w)
                in Inr (w\<lparr>ssthresh := swz div 2,
                          swnd := (swnd w)\<lparr>send_window_size := swz div 2 + 3\<rparr>,
                          dup_ack_count := 0\<rparr>)))
      else Inr w)"

definition grow_cwnd :: "world \<Rightarrow> world" where
  "grow_cwnd w =
     (let swz = send_window_size (swnd w)
      in if swz < ssthresh w
         then w\<lparr>swnd := (swnd w)\<lparr>send_window_size := swz * 2\<rparr>\<rparr>
         else w\<lparr>swnd := (swnd w)\<lparr>send_window_size := swz + 1\<rparr>\<rparr>)"

definition handle_ack :: "env \<Rightarrow> tcp_packet \<Rightarrow> world \<Rightarrow> (bool \<times> world) result" where
  "handle_ack e packet w =
     (let ack = ntohl (ack_num (header packet))
      in if ack_acceptable ack w
         then bind_res (react_dup_ack e ack (count_dup_ack ack (accept_ack ack w))) (\<lambda>w.
              bind_res (handle_try_send e (grow_cwnd w)) (\<lambda>w. Inr (True, w)))
         else Inr (False, w))"

text \<open>The default of \<open>set_on_recv_three_dup_ack\<close>: it sends the stored payload as a new segment.\<close>

definition default_three_dup_ack :: "env \<Rightarrow> u32 \<Rightarrow> world \<Rightarrow> world result" where
  "default_three_dup_ack e ack w =
     (let w = w\<lparr>tmgr := stop_timer ack (tmgr w)\<rparr>
      in case map_find ack (inflight_packets w) of
           None \<Rightarrow> Inr w
         | Some packet \<Rightarrow> Inr (send_payload_packet e (payload packet) (flags (header packet)) w))"

section \<open>Setting callbacks\<close>

text \<open>An empty argument installs the default, which only logs (or, for duplicate
  acknowledgements, retransmits).\<close>

definition set_on_established :: "(world \<Rightarrow> world result) option \<Rightarrow> env \<Rightarrow> env" where
  "set_on_established cb e =
     e\<lparr>on_established_cb := (case cb of Some f \<Rightarrow> Some f | None \<Rightarrow> Some (\<lambda>w. Inr w))\<rparr>"

definition set_on_data :: "(nat \<Rightarrow> world \<Rightarrow> world result) option \<Rightarrow> env \<Rightarrow> env" where
  "set_on_data cb e =
     e\<lparr>on_data_cb := (case cb of Some f \<Rightarrow> Some f | None \<Rightarrow> Some (\<lambda>n w. Inr w))\<rparr>"

definition set_on_closed :: "(world \<Rightarrow> world result) option \<Rightarrow> env \<Rightarrow> env" where
  "set_on_closed cb e =
     e\<lparr>on_closed_cb := (case cb of Some f \<Rightarrow> Some f | None \<Rightarrow> Some (\<lambda>w. Inr w))\<rparr>"

definition set_on_error :: "(string \<Rightarrow> world \<Rightarrow> world result) option \<Rightarrow> env \<Rightarrow> env" where
  "set_on_error cb e =
     e\<lparr>on_error_cb := (case cb of Some f \<Rightarrow> Some f | None \<Rightarrow> Some (\<lambda>msg w. Inr w))\<rparr>"

definition set_on_recv_three_dup_ack ::
  "(u32 \<Rightarrow> world \<Rightarrow> world result) option \<Rightarrow> env \<Rightarrow> env" where
  "set_on_recv_three_dup_ack cb e =
     e\<lparr>on_recv_three_dup_ack :=
         (case cb of Some f \<Rightarrow> Some f | None \<Rightarrow> Some (default_three_dup_ack e))\<rparr>"

definition set_notify_cb :: "(world \<Rightarrow> world result) option \<Rightarrow> env \<Rightarrow> env" where
  "set_notify_cb cb e = e\<lparr>notify_stack_cb := cb\<rparr>"

text \<open>
  The callbacks that \<open>TcpStack::create_session\<close> installs for the session with the given key:
  data triggers the ready event, closing asks for the erasure, notifying asks for a place in
  the ready queue; \<open>on_established_cb_\<close> stays empty.
\<close>

definition session_env :: "string \<times> u16 \<Rightarrow> env \<Rightarrow> env" where
  "session_env key e =
     (let e = e\<lparr>on_established_cb := None, on_error_cb := None,
                notify_stack_cb := Some (\<lambda>w. Inr (w\<lparr>posts := posts w @ [Post_ready (self_ptr w)]\<rparr>))\<rparr>;
          e = set_on_data (Some (\<lambda>available. trigger_event e)) e;
          e = set_on_closed (Some (\<lambda>w. Inr (w\<lparr>posts := posts w @ [Post_erase key]\<rparr>))) e
      in set_on_recv_three_dup_ack None e)"

section \<open>Incoming data\<close>

text \<open>
  The loop that moves out-of-order data into the receive buffer. It only ever looks at the
  first entry. When that entry is next in order but does not fit the buffer, the loop body
  changes nothing and the iterator does not move: the program does not return, and the
  value is \<open>None\<close>.
\<close>

partial_function (option) drain_ooo ::
  "(u32, u8 list) omap \<Rightarrow> u8 ring_queue \<Rightarrow> u32 \<Rightarrow> ((u32, u8 list) omap \<times> u8 ring_queue \<times> u32) option" where
  "drain_ooo ooo rb rn =
     (case ooo of
        [] \<Rightarrow> Some (ooo, rb, rn)
      | entry # rest \<Rightarrow>
          if fst entry = rn
          then (if fst (push_batch (snd entry) rb)
                then drain_ooo rest (snd (push_batch (snd entry) rb)) (rn + of_nat (length (snd entry)))
                else drain_ooo ooo rb rn)
          else Some (ooo, rb, rn))"

definition accept_in_order :: "u8 list \<Rightarrow> world \<Rightarrow> world" where
  "accept_in_order data w =
     (case push_batch data (recv_buffer w) of
        (True, rb) \<Rightarrow> w\<lparr>recv_buffer := rb,
                        rwnd := (rwnd w)\<lparr>recv_next := recv_next (rwnd w) + of_nat (length data)\<rparr>\<rparr>
      | (False, _) \<Rightarrow> w)"

definition store_out_of_order :: "u32 \<Rightarrow> u8 list \<Rightarrow> world \<Rightarrow> world" where
  "store_out_of_order seq data w =
     (let window_end = recv_next (rwnd w) + recv_window_size (rwnd w)
      in if seq > recv_next (rwnd w) \<and> seq < window_end
         then w\<lparr>ooo_map := map_assign seq data (ooo_map w)\<rparr>
         else w)"

definition handle_incoming_packet :: "env \<Rightarrow> tcp_packet \<Rightarrow> world \<Rightarrow> (bool \<times> world) result" where
  "handle_incoming_packet e packet w =
     (let seq = ntohl (seq_num (header packet))
      in if seq = recv_next (rwnd w)
         then let w = accept_in_order (payload packet) w
              in (case drain_ooo (ooo_map w) (recv_buffer w) (recv_next (rwnd w)) of
                    None \<Rightarrow> Inl No_return
                  | Some (ooo, rb, rn) \<Rightarrow>
                      let w = w\<lparr>ooo_map := ooo, recv_buffer := rb, rwnd := (rwnd w)\<lparr>recv_next := rn\<rparr>\<rparr>
                      in Inr (True, send_pure_ack e (recv_next (rwnd w)) w))
         else let w = store_out_of_order seq (payload packet) w
              in Inr (False, send_pure_ack e (recv_next (rwnd w)) w))"

section \<open>The application's operations\<close>

definition send :: "env \<Rightarrow> u8 list \<Rightarrow> world \<Rightarrow> (nat \<times> world) result" where
  "send e data w =
     (if data = [] then Inr (0, w)
      else let buffer_free_space = capacity (send_buffer w) - qsize (send_buffer w);
               to_write = min (length data) buffer_free_space
           in (case push_batch (take to_write data) (send_buffer w) of
                 (False, _) \<Rightarrow> Inr (0, w)
               | (True, sb) \<Rightarrow>
                   bind_res (handle_try_send e (w\<lparr>send_buffer := sb\<rparr>)) (\<lambda>w. Inr (to_write, w))))"

definition close :: "env \<Rightarrow> world \<Rightarrow> world result" where
  "close e w =
     (if state w = ESTABLISHED
      then bind_res (handle_try_send e w) (\<lambda>w.
             let w = w\<lparr>tmgr := stop_all_timers (tmgr w)\<rparr>;
                 w = transition_to FIN_WAIT_1 w;
                 w = send_control_packet e FLAG_FIN w
             in Inr (w\<lparr>user_want_to_close := True\<rparr>))
      else if state w = CLOSE_WAIT
      then let w = transition_to LAST_ACK w;
               w = send_control_packet e (FLAG_FIN OR FLAG_ACK) w
           in Inr (w\<lparr>user_want_to_close := True\<rparr>)
      else if state w = SYN_SENT \<or> state w = SYN_RECEIVED
      then let w = send_control_packet e FLAG_RST w;
               w = w\<lparr>tmgr := stop_all_timers (tmgr w)\<rparr>
           in Inr (transition_to CLOSED w)
      else Inr w)"

text \<open>The end of \<open>recv\<close> and \<open>read_all\<close>: an exhausted buffer in \<open>CLOSE_WAIT\<close> closes the session.\<close>

definition auto_close :: "env \<Rightarrow> world \<Rightarrow> world result" where
  "auto_close e w =
     (if ring_empty (recv_buffer w) \<and> state w = CLOSE_WAIT \<and> auto_close_on_eof w
      then close e w else Inr w)"

text \<open>\<open>recv\<close> fills the front of a span of \<open>n\<close> bytes; the result is the bytes it wrote.\<close>

definition recv :: "env \<Rightarrow> nat \<Rightarrow> world \<Rightarrow> (u8 list \<times> world) result" where
  "recv e n w =
     (let to_read = (if \<not> ring_empty (recv_buffer w) \<and> n \<noteq> 0 then min n (qsize (recv_buffer w)) else 0);
          (bytes, rb) = read_loop front pop_front to_read (recv_buffer w)
      in bind_res (auto_close e (w\<lparr>recv_buffer := rb\<rparr>)) (\<lambda>w. Inr (bytes, w)))"

definition read_all :: "env \<Rightarrow> world \<Rightarrow> (u8 list \<times> world) result" where
  "read_all e w =
     (let (bytes, rb) = read_loop front pop_front (qsize (recv_buffer w)) (recv_buffer w)
      in bind_res (auto_close e (w\<lparr>recv_buffer := rb\<rparr>)) (\<lambda>w. Inr (bytes, w)))"

end
