(* ===== verification/Tcp_Fsm.thy ===== *)
theory Tcp_Fsm
  imports Tcp_Session
begin

text \<open>
  \<open>TcpSession\<close>, second part: opening a connection, the handler of each state, the dispatch
  \<open>input\<close>, and the 2MSL timer (\<open>src/core/tcb.cpp\<close>); then the events that can happen to a
  session and the transition table of its state machine.
\<close>

section \<open>Opening\<close>

definition connect :: "env \<Rightarrow> world \<Rightarrow> world" where
  "connect e w =
     (let w = transition_to SYN_SENT w;
          w = w\<lparr>udp := set_on_receive (Session_input (self_ptr w)) (udp w)\<rparr>;
          iss = gen_initial_seq e (iss_calls w);
          w = w\<lparr>iss_calls := iss_calls w + 1,
                swnd := (swnd w)\<lparr>send_next := iss, send_unack := iss\<rparr>\<rparr>;
          w = send_control_packet e FLAG_SYN w
      in w\<lparr>swnd := (swnd w)\<lparr>send_next := iss + 1\<rparr>\<rparr>)"

definition listen :: "world \<Rightarrow> world" where
  "listen w = (if state w \<noteq> CLOSED then w else transition_to LISTEN w)"

section \<open>The handlers\<close>

definition handle_listen :: "env \<Rightarrow> tcp_packet \<Rightarrow> world \<Rightarrow> world" where
  "handle_listen e packet w =
     (if \<not> has_flag packet FLAG_SYN then w
      else let client_isn = ntohl (seq_num (header packet));
               iss = gen_initial_seq e (iss_calls w);
               w = w\<lparr>iss_calls := iss_calls w + 1,
                     swnd := (swnd w)\<lparr>send_next := iss, send_unack := iss\<rparr>,
                     rwnd := (rwnd w)\<lparr>recv_next := client_isn + 1\<rparr>\<rparr>;
               w = transition_to SYN_RECEIVED w;
               w = send_control_packet e (FLAG_SYN OR FLAG_ACK) w
           in w\<lparr>swnd := (swnd w)\<lparr>send_next := iss + 1\<rparr>\<rparr>)"

definition handle_syn_sent :: "env \<Rightarrow> tcp_packet \<Rightarrow> world \<Rightarrow> world result" where
  "handle_syn_sent e packet w =
     (let ack = ntohl (ack_num (header packet));
          seq = ntohl (seq_num (header packet));
          expected_ack = send_unack (swnd w) + 1
      in if has_flag packet FLAG_SYN \<and> has_flag packet FLAG_ACK
         then (if ack \<noteq> expected_ack then Inr w
               else let w = w\<lparr>rwnd := (rwnd w)\<lparr>recv_next := seq + 1\<rparr>,
                              swnd := (swnd w)\<lparr>send_unack := ack\<rparr>\<rparr>;
                        w = w\<lparr>tmgr := stop_timer (expected_ack - 1) (tmgr w)\<rparr>;
                        w = send_pure_ack e (recv_next (rwnd w)) w;
                        w = transition_to ESTABLISHED w
                    in bind_res (call_if_set (on_established_cb e) w) (handle_try_send e))
         else if has_flag packet FLAG_SYN
         then let w = w\<lparr>rwnd := (rwnd w)\<lparr>recv_next := seq + 1\<rparr>\<rparr>;
                  w = transition_to SYN_RECEIVED w
              in Inr (send_control_packet e (FLAG_SYN OR FLAG_ACK) w)
         else Inr w)"

definition handle_syn_received :: "env \<Rightarrow> tcp_packet \<Rightarrow> world \<Rightarrow> world result" where
  "handle_syn_received e packet w =
     (let incoming_ack = ntohl (ack_num (header packet));
          expected_ack = send_unack (swnd w) + 1
      in if \<not> has_flag packet FLAG_ACK \<or> incoming_ack \<noteq> expected_ack then Inr w
         else let w = w\<lparr>swnd := (swnd w)\<lparr>send_unack := incoming_ack\<rparr>\<rparr>;
                  w = w\<lparr>tmgr := stop_timer (incoming_ack - 1) (tmgr w)\<rparr>;
                  w = transition_to ESTABLISHED w
              in bind_res (call_if_set (on_established_cb e) w) (handle_try_send e))"

definition handle_established :: "env \<Rightarrow> tcp_packet \<Rightarrow> world \<Rightarrow> world result" where
  "handle_established e packet w =
     bind_res
       (if has_flag packet FLAG_ACK
        then bind_res (handle_ack e packet w) (\<lambda>(_, w). handle_try_send e w)
        else Inr w)
       (\<lambda>w. bind_res
         (if payload packet \<noteq> []
          then bind_res (handle_incoming_packet e packet w) (\<lambda>(is_order, w).
                 if is_order
                 then call_if_set (map_option (\<lambda>cb. cb (available w)) (on_data_cb e)) w
                 else Inr w)
          else Inr w)
         (\<lambda>w. if has_flag packet FLAG_FIN
              then let w = w\<lparr>rwnd := (rwnd w)\<lparr>recv_next := ntohl (seq_num (header packet)) + 1\<rparr>\<rparr>;
                       w = send_pure_ack e (recv_next (rwnd w)) w;
                       w = transition_to CLOSE_WAIT w
                   in call_if_set (map_option (\<lambda>cb. cb 0) (on_data_cb e)) w
              else Inr w))"

definition handle_fin_wait_1 :: "env \<Rightarrow> tcp_packet \<Rightarrow> world \<Rightarrow> world" where
  "handle_fin_wait_1 e packet w =
     (let incoming_ack = ntohl (ack_num (header packet));
          peer_seq = ntohl (seq_num (header packet));
          expected_ack = send_unack (swnd w) + 1;
          w = (if has_flag packet FLAG_ACK \<and> incoming_ack = expected_ack
               then let w = transition_to FIN_WAIT_2 w;
                        w = w\<lparr>swnd := (swnd w)\<lparr>send_unack := incoming_ack\<rparr>\<rparr>
                    in w\<lparr>tmgr := stop_timer (incoming_ack - 1) (tmgr w)\<rparr>
               else w)
      in if has_flag packet FLAG_FIN
         then let w = w\<lparr>rwnd := (rwnd w)\<lparr>recv_next := peer_seq + 1\<rparr>\<rparr>;
                  w = send_pure_ack e (recv_next (rwnd w)) w
              in transition_to CLOSE_WAIT w
         else w)"

definition start_2msl_timer :: "world \<Rightarrow> world" where
  "start_2msl_timer w =
     w\<lparr>tmgr := uv_request (Uv_timer_start Two_msl On_2msl (2 * 60 * 1000)) (tmgr w)\<rparr>"

definition handle_fin_wait_2 :: "env \<Rightarrow> tcp_packet \<Rightarrow> world \<Rightarrow> world" where
  "handle_fin_wait_2 e packet w =
     (if has_flag packet FLAG_FIN
      then let peer_seq = ntohl (seq_num (header packet));
               w = w\<lparr>rwnd := (rwnd w)\<lparr>recv_next := peer_seq + 1\<rparr>\<rparr>;
               w = send_pure_ack e (recv_next (rwnd w)) w;
               w = transition_to TIME_WAIT w
           in start_2msl_timer w
      else w)"

definition handle_timed_wait :: "env \<Rightarrow> tcp_packet \<Rightarrow> world \<Rightarrow> world" where
  "handle_timed_wait e packet w =
     (if has_flag packet FLAG_FIN
      then let peer_seq = ntohl (seq_num (header packet));
               w = w\<lparr>rwnd := (rwnd w)\<lparr>recv_next := peer_seq + 1\<rparr>\<rparr>
           in send_pure_ack e (recv_next (rwnd w)) w
      else w)"

definition handle_close_wait :: "env \<Rightarrow> tcp_packet \<Rightarrow> world \<Rightarrow> world result" where
  "handle_close_wait e packet w =
     (let w = send_pure_ack e (recv_next (rwnd w)) w
      in bind_res (handle_try_send e w) (\<lambda>w.
           if user_want_to_close w \<and> ring_empty (send_buffer w)
              \<and> send_unack (swnd w) = send_next (swnd w)
           then let w = w\<lparr>tmgr := stop_all_timers (tmgr w)\<rparr>;
                    w = send_control_packet e FLAG_FIN w;
                    w = w\<lparr>swnd := (swnd w)\<lparr>send_next := send_next (swnd w) + 1\<rparr>\<rparr>
                in Inr (transition_to LAST_ACK w)
           else Inr w))"

definition handle_last_ack :: "env \<Rightarrow> tcp_packet \<Rightarrow> world \<Rightarrow> world result" where
  "handle_last_ack e packet w =
     (let incoming_ack = ntohl (ack_num (header packet));
          expected_ack = send_unack (swnd w) + 1
      in if \<not> has_flag packet FLAG_ACK \<or> incoming_ack \<noteq> expected_ack then Inr w
         else let w = w\<lparr>swnd := (swnd w)\<lparr>send_unack := incoming_ack\<rparr>\<rparr>;
                  w = w\<lparr>tmgr := stop_timer (incoming_ack - 1) (tmgr w)\<rparr>;
                  w = transition_to CLOSED w
              in call_if_set (on_closed_cb e) w)"

definition handle_reset :: "env \<Rightarrow> world \<Rightarrow> world result" where
  "handle_reset e w =
     (let w = w\<lparr>tmgr := stop_all_timers (tmgr w)\<rparr>;
          w = transition_to CLOSED w
      in call_if_set (on_closed_cb e) w)"

definition handle_2msl_timeout :: "env \<Rightarrow> world \<Rightarrow> world result" where
  "handle_2msl_timeout e w =
     (let w = transition_to CLOSED w;
          w = w\<lparr>tmgr := uv_request (Uv_timer_stop Two_msl) (tmgr w)\<rparr>
      in call_if_set (on_closed_cb e) w)"

section \<open>The dispatch\<close>

definition input :: "env \<Rightarrow> tcp_packet \<Rightarrow> world \<Rightarrow> world result" where
  "input e packet w =
     (if \<not> verify_checksum packet then Inr w
      else if has_flag packet FLAG_RST then handle_reset e w
      else if (\<not> has_flag packet FLAG_ACK \<and> \<not> has_flag packet FLAG_SYN)
              \<and> (\<not> has_flag packet FLAG_ACK \<and> \<not> has_flag packet FLAG_FIN)
      then Inr w
      else let w = w\<lparr>peer_usable_window_size := ucast (ntohs (window_size (header packet)))\<rparr>
           in (case state w of
                 CLOSED \<Rightarrow> Inr (w\<lparr>user_want_to_close := False\<rparr>)
               | LISTEN \<Rightarrow> Inr (handle_listen e packet w)
               | SYN_SENT \<Rightarrow> handle_syn_sent e packet w
               | SYN_RECEIVED \<Rightarrow> handle_syn_received e packet w
               | ESTABLISHED \<Rightarrow> handle_established e packet w
               | FIN_WAIT_1 \<Rightarrow> Inr (handle_fin_wait_1 e packet w)
               | FIN_WAIT_2 \<Rightarrow> Inr (handle_fin_wait_2 e packet w)
               | CLOSE_WAIT \<Rightarrow> handle_close_wait e packet w
               | LAST_ACK \<Rightarrow> handle_last_ack e packet w
               | TIME_WAIT \<Rightarrow> Inr (handle_timed_wait e packet w)))"

section \<open>Events\<close>

text \<open>
  What can happen to a session: the calls of the application, a packet handed up by the
  driver, and the expiry of a timer. A timer event names the handle; it does something only
  if the program's last request on that handle started it (libuv runs no other callback).
  The result carries the bytes that a reading call returned.
\<close>

datatype event =
    Ev_connect | Ev_listen | Ev_close
  | Ev_send "u8 list" | Ev_recv nat | Ev_read_all
  | Ev_input tcp_packet
  | Ev_timer uv_handle

definition expire :: "env \<Rightarrow> uv_handle \<Rightarrow> world \<Rightarrow> world result" where
  "expire e h w =
     (case armed (tmgr w) h of
        None \<Rightarrow> Inr w
      | Some (On_timer_uv_tick c, _) \<Rightarrow> Inr (run_retransmit_closure e c w)
      | Some (On_2msl, _) \<Rightarrow> handle_2msl_timeout e w)"

fun session_step :: "env \<Rightarrow> event \<Rightarrow> world \<Rightarrow> (u8 list \<times> world) result" where
  "session_step e Ev_connect w = Inr ([], connect e w)"
| "session_step e Ev_listen w = Inr ([], listen w)"
| "session_step e Ev_close w = bind_res (close e w) (\<lambda>w. Inr ([], w))"
| "session_step e (Ev_send data) w = bind_res (send e data w) (\<lambda>(_, w). Inr ([], w))"
| "session_step e (Ev_recv n) w = recv e n w"
| "session_step e Ev_read_all w = read_all e w"
| "session_step e (Ev_input p) w = bind_res (input e p w) (\<lambda>w. Inr ([], w))"
| "session_step e (Ev_timer h) w = bind_res (expire e h w) (\<lambda>w. Inr ([], w))"

end
