(* ===== verification/Runs.thy ===== *)
theory Runs
  imports Prelude
begin

text \<open>
  Machines that process events one after the other: what a call's outcome may be, and the
  laws that connect the run of a list of events with its steps. Sessions, networks of two
  sessions and stacks are machines; their invariants are shown per step and lifted to runs
  here, once.
\<close>

section \<open>Outcomes of calls\<close>

text \<open>The call returns, with a value that has the property.\<close>

definition returns :: "('a \<Rightarrow> bool) \<Rightarrow> 'a result \<Rightarrow> bool" where
  "returns P r \<longleftrightarrow> (\<exists>x. r = Inr x \<and> P x)"

lemma returns_Inr [simp]: "returns P (Inr x) \<longleftrightarrow> P x"
  by (simp add: returns_def)

lemma returns_Inl [simp]: "\<not> returns P (Inl e)"
  by (simp add: returns_def)

lemma returns_bind: "returns P m \<Longrightarrow> (\<And>x. P x \<Longrightarrow> returns Q (f x)) \<Longrightarrow> returns Q (bind_res m f)"
  by (auto simp: returns_def)

lemma returns_mono: "returns P r \<Longrightarrow> (\<And>x. P x \<Longrightarrow> Q x) \<Longrightarrow> returns Q r"
  by (auto simp: returns_def)

text \<open>The call returns a value with the property, or fails in one of the ways allowed.\<close>

definition outcome :: "(error \<Rightarrow> bool) \<Rightarrow> ('a \<Rightarrow> bool) \<Rightarrow> 'a result \<Rightarrow> bool" where
  "outcome E P r \<longleftrightarrow> (case r of Inl err \<Rightarrow> E err | Inr x \<Rightarrow> P x)"

lemma outcome_simps [simp]: "outcome E P (Inr x) = P x" "outcome E P (Inl err) = E err"
  by (simp_all add: outcome_def)

lemma outcome_bind: "outcome E P m \<Longrightarrow> (\<And>x. P x \<Longrightarrow> outcome E Q (f x)) \<Longrightarrow> outcome E Q (bind_res m f)"
  by (cases m) auto

lemma returns_outcome: "returns P r \<longleftrightarrow> outcome (\<lambda>_. False) P r"
  by (cases r) auto

section \<open>Machines\<close>

locale machine =
  fixes step :: "'ev \<Rightarrow> 's \<Rightarrow> 'r result"
    and run :: "'ev list \<Rightarrow> 's \<Rightarrow> 'r result"
    and after :: "'r \<Rightarrow> 's"
  assumes run_Nil: "\<exists>r. run [] s = Inr r \<and> after r = s"
    and run_error: "step ev s = Inl err \<Longrightarrow> run (ev # evs) s = Inl err"
    and run_stuck: "step ev s = Inr r \<Longrightarrow> run evs (after r) = Inl err \<Longrightarrow> run (ev # evs) s = Inl err"
    and run_next: "step ev s = Inr r \<Longrightarrow> run evs (after r) = Inr r' \<Longrightarrow>
      \<exists>r''. run (ev # evs) s = Inr r'' \<and> after r'' = after r'"
begin

text \<open>An outcome that every step guarantees is guaranteed by every run.\<close>

lemma run_outcome:
  assumes step: "\<And>ev s. ok ev \<Longrightarrow> good s \<Longrightarrow> outcome E (\<lambda>r. good (after r)) (step ev s)"
  shows "list_all ok evs \<Longrightarrow> good s \<Longrightarrow> outcome E (\<lambda>r. good (after r)) (run evs s)"
proof (induction evs arbitrary: s)
  case Nil
  then show ?case
    using run_Nil [of s] by auto
next
  case (Cons ev evs)
  show ?case
  proof (cases "step ev s")
    case (Inl err)
    then show ?thesis
      using step [of ev s] Cons.prems run_error [of ev s err evs] by simp
  next
    case (Inr r)
    then have "outcome E (\<lambda>r. good (after r)) (run evs (after r))"
      using step [of ev s] Cons by simp
    then show ?thesis
      using run_stuck [OF Inr] run_next [OF Inr] by (cases "run evs (after r)") fastforce+
  qed
qed

lemma run_returns:
  assumes "\<And>ev s. ok ev \<Longrightarrow> good s \<Longrightarrow> returns (\<lambda>r. good (after r)) (step ev s)"
    and "list_all ok evs" and "good s"
  shows "returns (\<lambda>r. good (after r)) (run evs s)"
  using run_outcome [where E = "\<lambda>_. False"] assms unfolding returns_outcome by blast

text \<open>A run that returns can be cut after any event.\<close>

lemma run_ConsE:
  assumes "run (ev # evs) s = Inr r"
  obtains r1 r2 where "step ev s = Inr r1" and "run evs (after r1) = Inr r2" and "after r2 = after r"
proof (cases "step ev s")
  case (Inl err)
  then show thesis
    using assms run_error [of ev s err evs] by simp
next
  case (Inr r1)
  then show thesis
    using assms that [OF Inr] run_stuck [OF Inr, of evs] run_next [OF Inr, of evs]
    by (cases "run evs (after r1)") auto
qed

end

text \<open>
  A machine whose observable part moves along an abstract relation, as long as its invariant
  holds and the events are of the kind considered.
\<close>

locale simulation = machine step run after
  for step :: "'ev \<Rightarrow> 's \<Rightarrow> 'r result" and run :: "'ev list \<Rightarrow> 's \<Rightarrow> 'r result" and after :: "'r \<Rightarrow> 's" +
  fixes good :: "'s \<Rightarrow> bool" and ok :: "'ev \<Rightarrow> bool" and obs :: "'s \<Rightarrow> 'a" and rel :: "'a \<Rightarrow> 'a \<Rightarrow> bool"
  assumes simulated: "good s \<Longrightarrow> ok ev \<Longrightarrow> step ev s = Inr r \<Longrightarrow> good (after r) \<and> (obs (after r) = obs s \<or> rel (obs s) (obs (after r)))"
begin

lemma run_simulated:
  "run evs s = Inr r \<Longrightarrow> list_all ok evs \<Longrightarrow> good s \<Longrightarrow> good (after r) \<and> rel\<^sup>*\<^sup>* (obs s) (obs (after r))"
proof (induction evs arbitrary: s r)
  case Nil
  then show ?case
    using run_Nil [of s] by auto
next
  case (Cons ev evs)
  obtain r1 r2 where step: "step ev s = Inr r1" and rest: "run evs (after r1) = Inr r2" "after r2 = after r"
    using run_ConsE [OF Cons.prems(1)] .
  have "good (after r1)" and "rel\<^sup>*\<^sup>* (obs s) (obs (after r1))"
    using simulated [OF _ _ step] Cons.prems by auto
  then show ?case
    using Cons.IH [OF rest(1)] Cons.prems(2) rest(2) by (auto intro: rtranclp_trans)
qed

text \<open>What the relation never leaves, the machine never leaves.\<close>

lemma run_stays:
  assumes "\<And>a b. A a \<Longrightarrow> rel a b \<Longrightarrow> A b"
    and "run evs s = Inr r" and "list_all ok evs" and "good s" and "A (obs s)"
  shows "A (obs (after r))"
proof -
  have "rel\<^sup>*\<^sup>* (obs s) (obs (after r))"
    using run_simulated [OF assms(2-4)] by blast
  then show ?thesis
    using assms(1,5) by (induction rule: rtranclp_induct) auto
qed

end

end
