(* ===== verification/Session_Invariants.thy ===== *)
theory Session_Invariants
  imports Tcp_Fsm Runs
begin

text \<open>
  The representation invariant of a session, its preservation by every operation and event,
  and what follows from it: no call of a session throws or fails to return, the
  out-of-order map stays empty, and no stray timer exists. Callbacks are arbitrary code that
  keeps the invariant.
\<close>

section \<open>The invariant\<close>

text \<open>Stated over the components it constrains, so that updates of other members drop out.\<close>

definition base_ok ::
  "u8 ring_queue \<Rightarrow> u8 ring_queue \<Rightarrow> (u32, u8 list) omap \<Rightarrow> retransmit_closure timer_manager \<Rightarrow> u32 \<Rightarrow> bool" where
  "base_ok sb rb ooo tm rws \<longleftrightarrow>
     ring_ok sb \<and> capacity sb = 1024 \<and> ring_ok rb \<and> capacity rb = 1024
     \<and> ooo = [] \<and> timers_ok tm \<and> rws = 1"

definition base_inv :: "world \<Rightarrow> bool" where
  "base_inv w \<longleftrightarrow>
     base_ok (send_buffer w) (recv_buffer w) (ooo_map w) (tmgr w) (recv_window_size (rwnd w))"

text \<open>Callbacks that return and keep a property; the stack always installs one for duplicate
  acknowledgements.\<close>

definition cb_keeps :: "(world \<Rightarrow> bool) \<Rightarrow> (world \<Rightarrow> world result) \<Rightarrow> bool" where
  "cb_keeps P f \<longleftrightarrow> (\<forall>w. P w \<longrightarrow> (\<exists>w'. f w = Inr w' \<and> P w'))"

definition env_keeps :: "(world \<Rightarrow> bool) \<Rightarrow> env \<Rightarrow> bool" where
  "env_keeps P e \<longleftrightarrow>
     (\<forall>f. on_established_cb e = Some f \<longrightarrow> cb_keeps P f)
     \<and> (\<forall>f n. on_data_cb e = Some f \<longrightarrow> cb_keeps P (f n))
     \<and> (\<forall>f. on_closed_cb e = Some f \<longrightarrow> cb_keeps P f)
     \<and> (\<exists>f. on_recv_three_dup_ack e = Some f \<and> (\<forall>a. cb_keeps P (f a)))"

lemma call_if_set_keeps:
  "(\<And>f. cb = Some f \<Longrightarrow> cb_keeps P f) \<Longrightarrow> P w \<Longrightarrow> returns P (call_if_set cb w)"
  by (auto simp: call_if_set_def cb_keeps_def returns_def split: option.splits)

lemma env_keeps_established: "env_keeps P e \<Longrightarrow> P w \<Longrightarrow> returns P (call_if_set (on_established_cb e) w)"
  by (rule call_if_set_keeps) (auto simp: env_keeps_def)

lemma env_keeps_closed: "env_keeps P e \<Longrightarrow> P w \<Longrightarrow> returns P (call_if_set (on_closed_cb e) w)"
  by (rule call_if_set_keeps) (auto simp: env_keeps_def)

lemma env_keeps_data:
  "env_keeps P e \<Longrightarrow> P w \<Longrightarrow> returns P (call_if_set (map_option (\<lambda>cb. cb n) (on_data_cb e)) w)"
  by (rule call_if_set_keeps) (auto simp: env_keeps_def)

section \<open>Preservation by the building blocks\<close>

lemma base_ok_timer [intro]:
  "base_ok sb rb ooo tm rws \<Longrightarrow> timers_ok tm' \<Longrightarrow> base_ok sb rb ooo tm' rws"
  by (simp add: base_ok_def)

lemma base_ok_timers:
  "base_ok sb rb ooo tm rws \<Longrightarrow> base_ok sb rb ooo (start_timer s to c tm) rws"
  "base_ok sb rb ooo tm rws \<Longrightarrow> base_ok sb rb ooo (stop_timer s tm) rws"
  "base_ok sb rb ooo tm rws \<Longrightarrow> base_ok sb rb ooo (drop_timer_up_to s tm) rws"
  "base_ok sb rb ooo tm rws \<Longrightarrow> base_ok sb rb ooo (stop_all_timers tm) rws"
  by (auto simp: base_ok_def start_timer_ok stop_timer_ok drop_timer_up_to_ok_armed stop_all_timers_ok)

lemma timers_ok_two_msl:
  "timers_ok m \<Longrightarrow> timers_ok (uv_request (Uv_timer_start Two_msl cb to) m)"
  "timers_ok m \<Longrightarrow> timers_ok (uv_request (Uv_timer_stop Two_msl) m)"
  by (auto simp: timers_ok_def timer_simps)

lemma base_ok_two_msl:
  "base_ok sb rb ooo tm rws \<Longrightarrow> base_ok sb rb ooo (uv_request (Uv_timer_start Two_msl cb to) tm) rws"
  "base_ok sb rb ooo tm rws \<Longrightarrow> base_ok sb rb ooo (uv_request (Uv_timer_stop Two_msl) tm) rws"
  by (auto simp: base_ok_def timers_ok_two_msl)

lemma base_ok_pop: "base_ok sb rb ooo tm rws \<Longrightarrow> base_ok (pop_front n sb) rb ooo tm rws"
  by (simp add: base_ok_def pop_front_ok)

lemma base_ok_push_send: "base_ok sb rb ooo tm rws \<Longrightarrow> base_ok (snd (push_batch data sb)) rb ooo tm rws"
  by (simp add: base_ok_def rq.law_put_invar rq.law_put_cap)

lemma base_ok_push_recv: "base_ok sb rb ooo tm rws \<Longrightarrow> base_ok sb (snd (push_batch data rb)) ooo tm rws"
  by (simp add: base_ok_def rq.law_put_invar rq.law_put_cap)

lemma base_ok_read:
  "base_ok sb rb ooo tm rws \<Longrightarrow> n \<le> qsize rb \<Longrightarrow>
     base_ok sb (snd (read_loop front pop_front n rb)) ooo tm rws"
  using rq.read_loop_take [of rb n] by (simp add: base_ok_def)

lemmas base_ok_rules = base_ok_timers base_ok_two_msl base_ok_pop base_ok_push_send
  base_ok_push_recv base_ok_read

lemma base_inv_transition [simp]: "base_inv (transition_to s w) = base_inv w"
  by (simp add: base_inv_def transition_to_def)

lemma base_inv_pure_ack [simp]: "base_inv (send_pure_ack e a w) = base_inv w"
  by (simp add: base_inv_def send_pure_ack_def Let_def)

lemma base_inv_control: "base_inv w \<Longrightarrow> base_inv (send_control_packet e fl w)"
  by (auto simp: base_inv_def send_control_packet_def Let_def base_ok_rules)

lemma base_inv_payload: "base_inv w \<Longrightarrow> base_inv (send_payload_packet e data fl w)"
  by (auto simp: base_inv_def send_payload_packet_def Let_def base_ok_rules)

lemma base_inv_retransmit: "base_inv w \<Longrightarrow> base_inv (snd (handle_retransmit e p c s t ip port w))"
  by (auto simp: base_inv_def handle_retransmit_def Let_def base_ok_rules)

text \<open>The pure form of \<open>_handle_try_send\<close>: under the invariant the peek cannot throw.\<close>

definition try_send_data :: "world \<Rightarrow> u8 list" where
  "try_send_data w =
     (let inflight = send_next (swnd w) - send_unack (swnd w);
          allowance = send_window_size (swnd w) - inflight
      in if sends_data (state w)
         then take (unat allowance) (drop (unat inflight) (ring_contents (send_buffer w)))
         else [])"

lemma send_payload_packet_Nil [simp]: "send_payload_packet e [] fl w = w"
  by (simp add: send_payload_packet_def)

lemma handle_try_send_eq:
  assumes "base_inv w"
  shows "handle_try_send e w = Inr (send_payload_packet e (try_send_data w) FLAG_ACK w)"
proof -
  have b: "unat (x :: u32) < 2 ^ 63" for x
    using unsigned_less [of x, where ?'a = nat] by simp
  have "ring_ok (send_buffer w)"
    using assms by (simp add: base_inv_def base_ok_def)
  note peek = peek_range_contents [OF this b]
  show ?thesis
    by (auto simp: handle_try_send_def try_send_data_def Let_def peek)
qed

lemma base_inv_try_send: "base_inv w \<Longrightarrow> returns base_inv (handle_try_send e w)"
  by (simp add: handle_try_send_eq base_inv_payload)

lemma base_inv_default_dup: "base_inv w \<Longrightarrow> returns base_inv (default_three_dup_ack e a w)"
  by (auto simp: default_three_dup_ack_def Let_def intro!: base_inv_payload split: option.splits)
     (auto simp: base_inv_def base_ok_rules)

lemma base_inv_accept_ack: "base_inv w \<Longrightarrow> base_inv (accept_ack a w)"
  by (simp add: base_inv_def accept_ack_def Let_def base_ok_rules)

lemma base_inv_count_dup [simp]: "base_inv (count_dup_ack a w) = base_inv w"
  by (simp add: base_inv_def count_dup_ack_def)

lemma base_inv_grow [simp]: "base_inv (grow_cwnd w) = base_inv w"
  by (simp add: base_inv_def grow_cwnd_def Let_def)

lemma base_inv_cwnd: "base_inv (w\<lparr>ssthresh := x, swnd := y, dup_ack_count := z\<rparr>) = base_inv w"
  by (simp add: base_inv_def)

lemma react_dup_ack_keeps:
  assumes env: "env_keeps P e" and w: "P w"
    and cwnd: "\<And>w x y. P w \<Longrightarrow>
      P (w\<lparr>ssthresh := x, swnd := (swnd w)\<lparr>send_window_size := y\<rparr>, dup_ack_count := 0\<rparr>)"
  shows "returns P (react_dup_ack e a w)"
proof (cases "dup_ack_count w = 3")
  case True
  obtain f where "on_recv_three_dup_ack e = Some f" and "cb_keeps P (f a)"
    using env by (auto simp: env_keeps_def)
  then obtain w' where "on_recv_three_dup_ack e = Some f" and "f a w = Inr w'" and "P w'"
    using w by (auto simp: cb_keeps_def)
  then show ?thesis
    using True by (simp add: react_dup_ack_def Let_def cwnd)
qed (use w in \<open>simp add: react_dup_ack_def\<close>)

lemma base_inv_react_dup:
  "env_keeps base_inv e \<Longrightarrow> base_inv w \<Longrightarrow> returns base_inv (react_dup_ack e a w)"
  by (rule react_dup_ack_keeps) (simp_all add: base_inv_cwnd)

lemma base_inv_handle_ack:
  assumes "env_keeps base_inv e" and "base_inv w"
  shows "returns (\<lambda>(_, w). base_inv w) (handle_ack e p w)"
proof (cases "ack_acceptable (ntohl (ack_num (header p))) w")
  case True
  have "base_inv (count_dup_ack a (accept_ack a w))" for a
    using assms(2) by (simp add: base_inv_accept_ack)
  note react = base_inv_react_dup [OF assms(1) this]
  show ?thesis
    using True unfolding handle_ack_def Let_def
    by simp (rule returns_bind [OF react], rule returns_bind [OF base_inv_try_send], simp_all)
qed (use assms(2) in \<open>simp add: handle_ack_def Let_def\<close>)

lemma drain_ooo_Nil: "drain_ooo [] rb rn = Some ([], rb, rn)"
  by (subst drain_ooo.simps) simp

lemma no_word_between: "n < s \<Longrightarrow> \<not> s < n + (1 :: u32)"
  by unat_arith

lemma base_inv_store_ooo:
  assumes "base_inv w"
  shows "store_out_of_order s d w = w"
proof -
  have "\<not> (s > recv_next (rwnd w) \<and> s < recv_next (rwnd w) + recv_window_size (rwnd w))"
    using assms no_word_between [of "recv_next (rwnd w)" s] by (auto simp: base_inv_def base_ok_def)
  then show ?thesis
    by (auto simp: store_out_of_order_def Let_def)
qed

lemma accept_in_order_eq:
  "accept_in_order data w =
     (if fst (push_batch data (recv_buffer w))
      then w\<lparr>recv_buffer := snd (push_batch data (recv_buffer w)),
             rwnd := (rwnd w)\<lparr>recv_next := recv_next (rwnd w) + of_nat (length data)\<rparr>\<rparr>
      else w)"
  by (simp add: accept_in_order_def split: prod.splits bool.splits)

lemma base_inv_accept_in_order: "base_inv w \<Longrightarrow> base_inv (accept_in_order data w)"
  by (simp add: base_inv_def accept_in_order_eq base_ok_rules)

lemma base_inv_ooo_map: "base_inv w \<Longrightarrow> ooo_map w = []"
  by (simp add: base_inv_def base_ok_def)

text \<open>The pure form of \<open>_handle_incoming_packet\<close> under the invariant.\<close>

lemma world_ooo_same: "ooo_map w = [] \<Longrightarrow> w\<lparr>ooo_map := []\<rparr> = (w :: world)"
  by (cases w) simp

lemma handle_incoming_eq:
  assumes "base_inv w"
  shows "handle_incoming_packet e p w =
     (if ntohl (seq_num (header p)) = recv_next (rwnd w)
      then let w = accept_in_order (payload p) w in Inr (True, send_pure_ack e (recv_next (rwnd w)) w)
      else Inr (False, send_pure_ack e (recv_next (rwnd w)) w))"
proof -
  let ?w = "accept_in_order (payload p) w"
  have nil: "ooo_map ?w = []"
    using base_inv_accept_in_order [OF assms(1)] by (rule base_inv_ooo_map)
  then show ?thesis
    by (simp add: handle_incoming_packet_def Let_def drain_ooo_Nil world_ooo_same [OF nil]
        base_inv_store_ooo [OF assms(1)])
qed

lemma base_inv_handle_incoming:
  "base_inv w \<Longrightarrow> returns (\<lambda>(_, w). base_inv w) (handle_incoming_packet e p w)"
  by (simp add: handle_incoming_eq Let_def base_inv_accept_in_order)

section \<open>Preservation by the application's operations\<close>

lemma push_batch_room:
  assumes "ring_ok q"
  shows "push_batch (take (min (length d) (capacity q - qsize q)) d) q =
     (True, snd (push_batch (take (min (length d) (capacity q - qsize q)) d) q))"
proof -
  let ?d = "take (min (length d) (capacity q - qsize q)) d"
  have "qsize q + length ?d \<le> capacity q"
    using ring_ok_bound [OF assms] by simp
  then have "fst (push_batch ?d q)"
    using rq.put_fst [OF assms, of ?d] by simp
  then show ?thesis
    by (simp add: prod_eq_iff)
qed

text \<open>The pure form of \<open>send\<close>: as many bytes as fit are queued, then a transmission is tried.\<close>

definition queue_bytes :: "u8 list \<Rightarrow> world \<Rightarrow> u8 list" where
  "queue_bytes data w = take (capacity (send_buffer w) - qsize (send_buffer w)) data"

definition queued :: "u8 list \<Rightarrow> world \<Rightarrow> world" where
  "queued data w = w\<lparr>send_buffer := snd (push_batch (queue_bytes data w) (send_buffer w))\<rparr>"

lemma base_inv_queued: "base_inv w \<Longrightarrow> base_inv (queued data w)"
  by (simp add: base_inv_def queued_def base_ok_rules)

lemma send_eq:
  assumes "base_inv w"
  shows "send e data w =
     (if data = [] then Inr (0, w)
      else Inr (length (queue_bytes data w),
             send_payload_packet e (try_send_data (queued data w)) FLAG_ACK (queued data w)))"
proof -
  have ok: "ring_ok (send_buffer w)"
    using assms by (simp add: base_inv_def base_ok_def)
  have q: "take (min (length data) (capacity (send_buffer w) - qsize (send_buffer w))) data
      = queue_bytes data w"
    by (simp add: queue_bytes_def min_def)
  then show ?thesis
    using push_batch_room [OF ok, of data] handle_try_send_eq [OF base_inv_queued [OF assms, of data]]
    by (auto simp: send_def Let_def queued_def queue_bytes_def min_def split: prod.splits)
qed

lemma base_inv_send: "base_inv w \<Longrightarrow> returns (\<lambda>(_, w). base_inv w) (send e data w)"
  by (simp add: send_eq base_inv_payload base_inv_queued)

lemma base_inv_user_close [simp]: "base_inv (w\<lparr>user_want_to_close := b\<rparr>) = base_inv w"
  by (simp add: base_inv_def)

lemma base_inv_stop_all: "base_inv w \<Longrightarrow> base_inv (w\<lparr>tmgr := stop_all_timers (tmgr w)\<rparr>)"
  by (simp add: base_inv_def base_ok_rules)

lemma base_inv_stop: "base_inv w \<Longrightarrow> base_inv (w\<lparr>tmgr := stop_timer s (tmgr w)\<rparr>)"
  by (simp add: base_inv_def base_ok_rules)

lemma base_inv_close: "base_inv w \<Longrightarrow> returns base_inv (close e w)"
  by (auto simp: close_def Let_def handle_try_send_eq base_inv_control base_inv_stop_all
      base_inv_payload)

lemma base_inv_auto_close: "base_inv w \<Longrightarrow> returns base_inv (auto_close e w)"
  by (simp add: auto_close_def base_inv_close)

lemma base_inv_recv_buffer:
  "base_inv w \<Longrightarrow> n \<le> qsize (recv_buffer w) \<Longrightarrow>
     base_inv (w\<lparr>recv_buffer := snd (read_loop front pop_front n (recv_buffer w))\<rparr>)"
  by (simp add: base_inv_def base_ok_rules)

lemma recv_eq:
  "recv e n w =
     (let k = (if ring_empty (recv_buffer w) then 0 else min n (qsize (recv_buffer w)));
          r = read_loop front pop_front k (recv_buffer w)
      in bind_res (auto_close e (w\<lparr>recv_buffer := snd r\<rparr>)) (\<lambda>w. Inr (fst r, w)))"
  by (auto simp: recv_def Let_def case_prod_beta)

lemma read_all_eq:
  "read_all e w =
     (let r = read_loop front pop_front (qsize (recv_buffer w)) (recv_buffer w)
      in bind_res (auto_close e (w\<lparr>recv_buffer := snd r\<rparr>)) (\<lambda>w. Inr (fst r, w)))"
  by (simp add: read_all_def Let_def case_prod_beta)

lemma base_inv_recv: "base_inv w \<Longrightarrow> returns (\<lambda>(_, w). base_inv w) (recv e n w)"
  unfolding recv_eq Let_def
  by (rule returns_bind [OF base_inv_auto_close]) (auto intro: base_inv_recv_buffer)

lemma base_inv_read_all: "base_inv w \<Longrightarrow> returns (\<lambda>(_, w). base_inv w) (read_all e w)"
  unfolding read_all_eq Let_def
  by (rule returns_bind [OF base_inv_auto_close]) (auto intro: base_inv_recv_buffer)

section \<open>Preservation by the handlers\<close>

lemma base_inv_swnd [simp]: "base_inv (w\<lparr>swnd := x\<rparr>) = base_inv w"
  by (simp add: base_inv_def)

lemma base_inv_recv_next [simp]: "base_inv (w\<lparr>rwnd := (rwnd w)\<lparr>recv_next := x\<rparr>\<rparr>) = base_inv w"
  by (simp add: base_inv_def)

lemma base_inv_peer [simp]: "base_inv (w\<lparr>peer_usable_window_size := x\<rparr>) = base_inv w"
  by (simp add: base_inv_def)

lemma base_inv_connect: "base_inv w \<Longrightarrow> base_inv (connect e w)"
  unfolding connect_def Let_def by simp (rule base_inv_control, simp add: base_inv_def transition_to_def)

lemma base_inv_listen: "base_inv w \<Longrightarrow> base_inv (listen w)"
  by (simp add: listen_def)

lemma base_inv_handle_listen: "base_inv w \<Longrightarrow> base_inv (handle_listen e p w)"
  unfolding handle_listen_def Let_def
  by simp (intro impI base_inv_control, simp add: base_inv_def transition_to_def)

lemma base_inv_handle_syn_sent:
  assumes "env_keeps base_inv e" and "base_inv w"
  shows "returns base_inv (handle_syn_sent e p w)"
  using assms unfolding handle_syn_sent_def Let_def
  by (auto intro!: returns_bind [OF env_keeps_established [OF assms(1)]] base_inv_try_send
      base_inv_control base_inv_stop)
    (auto simp: base_inv_def base_ok_rules)

lemma base_inv_handle_syn_received:
  assumes "env_keeps base_inv e" and "base_inv w"
  shows "returns base_inv (handle_syn_received e p w)"
  using assms unfolding handle_syn_received_def Let_def
  by (auto intro!: returns_bind [OF env_keeps_established [OF assms(1)]] base_inv_try_send
      base_inv_stop)
    (auto simp: base_inv_def base_ok_rules)

lemma base_inv_handle_established:
  assumes env: "env_keeps base_inv e" and "base_inv w"
  shows "returns base_inv (handle_established e p w)"
  unfolding handle_established_def
proof (intro returns_bind)
  show "returns base_inv (if has_flag p FLAG_ACK
      then bind_res (handle_ack e p w) (\<lambda>(_, w). handle_try_send e w) else Inr w)"
    using assms by (auto intro!: returns_bind [OF base_inv_handle_ack [OF env]] base_inv_try_send)
next
  fix w1
  assume "base_inv w1"
  then show "returns base_inv (if payload p \<noteq> []
      then bind_res (handle_incoming_packet e p w1) (\<lambda>(is_order, w).
        if is_order then call_if_set (map_option (\<lambda>cb. cb (available w)) (on_data_cb e)) w else Inr w)
      else Inr w1)"
    by (auto intro!: returns_bind [OF base_inv_handle_incoming] env_keeps_data [OF env])
next
  fix w2
  assume "base_inv w2"
  then show "returns base_inv (if has_flag p FLAG_FIN
      then let w = w2\<lparr>rwnd := (rwnd w2)\<lparr>recv_next := ntohl (seq_num (header p)) + 1\<rparr>\<rparr>;
               w = send_pure_ack e (recv_next (rwnd w)) w;
               w = transition_to CLOSE_WAIT w
           in call_if_set (map_option (\<lambda>cb. cb 0) (on_data_cb e)) w
      else Inr w2)"
    by (auto simp: Let_def intro!: env_keeps_data [OF env])
qed

lemma base_inv_handle_fin_wait_1: "base_inv w \<Longrightarrow> base_inv (handle_fin_wait_1 e p w)"
  by (auto simp: handle_fin_wait_1_def Let_def transition_to_def base_inv_def base_ok_rules
      send_pure_ack_def)

lemma base_inv_handle_fin_wait_2: "base_inv w \<Longrightarrow> base_inv (handle_fin_wait_2 e p w)"
  by (auto simp: handle_fin_wait_2_def Let_def transition_to_def base_inv_def base_ok_rules
      send_pure_ack_def start_2msl_timer_def)

lemma base_inv_handle_timed_wait: "base_inv w \<Longrightarrow> base_inv (handle_timed_wait e p w)"
  by (simp add: handle_timed_wait_def Let_def)

lemma base_inv_handle_close_wait: "base_inv w \<Longrightarrow> returns base_inv (handle_close_wait e p w)"
  unfolding handle_close_wait_def Let_def
  by (rule returns_bind [OF base_inv_try_send]) (auto intro: base_inv_control base_inv_stop_all)

lemma base_inv_handle_last_ack:
  assumes "env_keeps base_inv e" and "base_inv w"
  shows "returns base_inv (handle_last_ack e p w)"
  using assms unfolding handle_last_ack_def Let_def
  by (auto intro!: env_keeps_closed base_inv_stop) (auto simp: base_inv_def base_ok_rules)

lemma base_inv_handle_reset:
  assumes "env_keeps base_inv e" and "base_inv w"
  shows "returns base_inv (handle_reset e w)"
  using assms unfolding handle_reset_def Let_def
  by (auto intro!: env_keeps_closed base_inv_stop_all)

lemma base_inv_handle_2msl:
  assumes "env_keeps base_inv e" and "base_inv w"
  shows "returns base_inv (handle_2msl_timeout e w)"
  using assms unfolding handle_2msl_timeout_def Let_def
  by (auto intro!: env_keeps_closed simp: base_inv_def transition_to_def base_ok_rules)

lemma base_inv_input:
  assumes "env_keeps base_inv e" and "base_inv w"
  shows "returns base_inv (input e p w)"
  using assms
  by (auto simp: input_def Let_def base_inv_handle_listen base_inv_handle_fin_wait_1
      base_inv_handle_fin_wait_2 base_inv_handle_timed_wait
      intro!: base_inv_handle_reset base_inv_handle_syn_sent base_inv_handle_syn_received
        base_inv_handle_established base_inv_handle_close_wait base_inv_handle_last_ack
      split: tcp_state.splits)

lemma base_inv_expire:
  assumes "env_keeps base_inv e" and "base_inv w"
  shows "returns base_inv (expire e h w)"
  using assms
  by (auto simp: expire_def run_retransmit_closure_def base_inv_retransmit base_inv_handle_2msl
      split: option.splits uv_callback.splits)

lemma base_inv_step:
  assumes "env_keeps base_inv e" and "base_inv w"
  shows "returns (\<lambda>(_, w). base_inv w) (session_step e ev w)"
  using assms
  by (cases ev)
    (auto simp: base_inv_connect base_inv_listen intro: base_inv_recv base_inv_read_all
      intro!: returns_bind [OF base_inv_close] returns_bind [OF base_inv_send]
        returns_bind [OF base_inv_input] returns_bind [OF base_inv_expire])

section \<open>Sessions as the stack creates them\<close>

lemma base_inv_posts [simp]:
  "base_inv (w\<lparr>posts := ps\<rparr>) = base_inv w" "base_inv (w\<lparr>is_in_ready_queue := b\<rparr>) = base_inv w"
  by (simp_all add: base_inv_def)

lemma session_env_keeps_base: "env_keeps base_inv (session_env key e)"
  by (auto simp: env_keeps_def cb_keeps_def session_env_def set_on_data_def set_on_closed_def
      set_on_recv_three_dup_ack_def trigger_event_def Let_def returns_def [symmetric]
      intro: base_inv_default_dup)

text \<open>A session object in a world with the given driver.\<close>

definition enter_world :: "tcp_session \<Rightarrow> udp_driver \<Rightarrow> nat \<Rightarrow> world" where
  "enter_world s d n = tcp_session.extend s \<lparr>udp = d, iss_calls = n, posts = []\<rparr>"

lemma enter_world_new:
  "enter_world (new_session ptr i0 r0 lp rp) d n =
     \<lparr>self_ptr = ptr, state = CLOSED,
      send_buffer = ring_new 1024 0, recv_buffer = ring_new 1024 0,
      ooo_map = [], inflight_packets = [],
      listener_ip = ''0.0.0.0'', listener_port = lp,
      remote_ip = ''127.0.0.1'', remote_port = rp,
      user_want_to_close = False, peer_usable_window_size = 0, timeout_ms = 2000,
      is_in_ready_queue = False, tmgr = new_timer_manager,
      swnd = \<lparr>send_unack = 0, send_next = 0, send_window_size = 1, initial_send_seq = i0\<rparr>,
      rwnd = \<lparr>recv_next = 0, recv_window_size = 1, initial_recv_seq = r0\<rparr>,
      ssthresh = 8, current_rto = INITIAL_RTO, last_ack_received = i0,
      dup_ack_count = 0, auto_close_on_eof = True,
      udp = d, iss_calls = n, posts = []\<rparr>"
  by (simp add: enter_world_def new_session_def tcp_session.extend_def)

lemma base_inv_new: "base_inv (enter_world (new_session ptr i0 r0 lp rp) d n)"
  by (simp add: enter_world_new base_inv_def base_ok_def ring_new_ok ring_simps new_timer_manager_ok)

section \<open>Runs\<close>

text \<open>A sequence of events, with the bytes that the reading calls returned.\<close>

fun session_run :: "env \<Rightarrow> event list \<Rightarrow> world \<Rightarrow> (u8 list \<times> world) result" where
  "session_run e [] w = Inr ([], w)"
| "session_run e (ev # evs) w =
     bind_res (session_step e ev w) (\<lambda>(b, w).
     bind_res (session_run e evs w) (\<lambda>(bs, w). Inr (b @ bs, w)))"

interpretation session: machine "session_step e" "session_run e" snd for e
proof unfold_locales
  fix ev evs w r r'
  show "session_step e ev w = Inr r \<Longrightarrow> session_run e evs (snd r) = Inr r' \<Longrightarrow>
      \<exists>r''. session_run e (ev # evs) w = Inr r'' \<and> snd r'' = snd r'"
    by (cases r; cases r') simp
qed (auto split: prod.split)

lemma session_run_returns:
  assumes "env_keeps base_inv e" and "base_inv w"
  shows "returns (\<lambda>(_, w). base_inv w) (session_run e evs w)"
  using session.run_returns [where ok = "\<lambda>_. True" and good = base_inv and e = e and evs = evs] base_inv_step [OF assms(1)] assms(2)
  by (simp add: case_prod_unfold list_all_iff)

section \<open>The reassembly loop\<close>

text \<open>The bytes that the out-of-order map holds contiguously from a sequence number on, and the
  entries after them.\<close>

fun contiguous :: "(u32, u8 list) omap \<Rightarrow> u32 \<Rightarrow> u8 list" where
  "contiguous [] rn = []"
| "contiguous ((s, d) # rest) rn =
     (if s = rn then d @ contiguous rest (rn + of_nat (length d)) else [])"

fun beyond :: "(u32, u8 list) omap \<Rightarrow> u32 \<Rightarrow> (u32, u8 list) omap" where
  "beyond [] rn = []"
| "beyond ((s, d) # rest) rn =
     (if s = rn then beyond rest (rn + of_nat (length d)) else (s, d) # rest)"

lemma drain_ooo_stuck:
  assumes "\<not> fst (push_batch d rb)"
  shows "drain_ooo ((rn, d) # rest) rb rn = None"
proof (rule ccontr)
  assume "drain_ooo ((rn, d) # rest) rb rn \<noteq> None"
  then obtain r where r: "drain_ooo ((rn, d) # rest) rb rn = Some r"
    by auto
  have "\<not> ((rn, d) # rest = (rn, d) # rest \<and> rb = rb \<and> rn = rn)"
  proof (rule drain_ooo.raw_induct [where P = "\<lambda>ooo rb' rn' r.
      \<not> (ooo = (rn, d) # rest \<and> rb' = rb \<and> rn' = rn)", OF _ r])
    fix f ooo rb' rn' r
    assume IH: "\<And>ooo rb' rn' r. f ooo rb' rn' = Some r \<Longrightarrow> \<not> (ooo = (rn, d) # rest \<and> rb' = rb \<and> rn' = rn)"
      and eq: "(case ooo of [] \<Rightarrow> Some (ooo, rb', rn')
        | entry # rest \<Rightarrow>
            if fst entry = rn'
            then (if fst (push_batch (snd entry) rb')
                  then f rest (snd (push_batch (snd entry) rb')) (rn' + of_nat (length (snd entry)))
                  else f ooo rb' rn')
            else Some (ooo, rb', rn')) = Some r"
    show "\<not> (ooo = (rn, d) # rest \<and> rb' = rb \<and> rn' = rn)"
    proof
      assume same: "ooo = (rn, d) # rest \<and> rb' = rb \<and> rn' = rn"
      then have "f ooo rb' rn' = Some r"
        using eq assms by simp
      then show False
        using IH same by blast
    qed
  qed
  then show False
    by simp
qed

lemma drain_ooo_step:
  assumes "fst (push_batch d rb)"
  shows "drain_ooo ((rn, d) # rest) rb rn
     = drain_ooo rest (snd (push_batch d rb)) (rn + of_nat (length d))"
  using assms by (subst drain_ooo.simps) simp

lemma drain_ooo_other: "s \<noteq> rn \<Longrightarrow> drain_ooo ((s, d) # rest) rb rn = Some ((s, d) # rest, rb, rn)"
  by (subst drain_ooo.simps) simp

lemma drain_ooo_spec:
  assumes "ring_ok rb"
  shows "if qsize rb + length (contiguous ooo rn) \<le> capacity rb
         then \<exists>rb'. drain_ooo ooo rb rn =
                  Some (beyond ooo rn, rb', rn + of_nat (length (contiguous ooo rn)))
                \<and> ring_contents rb' = ring_contents rb @ contiguous ooo rn \<and> ring_ok rb'
                \<and> capacity rb' = capacity rb
         else drain_ooo ooo rb rn = None"
  using assms
proof (induction ooo rn arbitrary: rb rule: contiguous.induct)
  case (1 rn)
  then show ?case
    by (simp add: drain_ooo_Nil ring_ok_bound)
next
  case (2 s d rest rn)
  show ?case
  proof (cases "s = rn")
    case False
    then show ?thesis
      using "2.prems" by (simp add: drain_ooo_other ring_ok_bound)
  next
    case s: True
    show ?thesis
    proof (cases "fst (push_batch d rb)")
      case False
      then show ?thesis
        using s rq.put_fst [OF "2.prems", of d] by (simp add: drain_ooo_stuck)
    next
      case True
      let ?rb = "snd (push_batch d rb)"
      have ok: "ring_ok ?rb" and cap: "capacity ?rb = capacity rb"
        and con: "ring_contents ?rb = ring_contents rb @ d"
        using True "2.prems"
        by (simp_all add: rq.law_put_invar rq.law_put_cap rq.put_contents)
      have "qsize ?rb = qsize rb + length d"
        using con by (metis length_append length_ring_contents)
      then show ?thesis
        using "2.IH" [OF s ok] s True cap con
        by (simp add: drain_ooo_step add.assoc split: if_splits)
    qed
  qed
qed

section \<open>Properties\<close>

text \<open>
  C3: A session never fails: whatever the application calls, whatever packets arrive and
  whenever timers expire, in any order, from a newly constructed session on, every call
  returns (it neither throws nor loops), the representation invariant holds afterwards, and
  the out-of-order map is empty: with the receive window the constructor sets (1, which
  nothing changes) no out-of-order segment is ever kept.
\<close>

theorem session_never_fails:
  assumes "env_keeps base_inv e"
  shows "\<exists>bytes w'. session_run e evs (enter_world (new_session ptr i0 r0 lp rp) d n) = Inr (bytes, w')
           \<and> base_inv w' \<and> ooo_map w' = [] \<and> recv_window_size (rwnd w') = 1"
  using session_run_returns [OF assms base_inv_new, of evs ptr i0 r0 lp rp d n]
  by (auto simp: returns_def base_inv_def base_ok_def)

theorem session_never_fails_witness:
  "\<exists>bytes w'. session_run (session_env (''10.0.0.2'', 80) \<lparr>draw = \<lambda>_. 0, gen_initial_seq = \<lambda>_. 100,
        indet_urgent = \<lambda>_. 0, indet_checksum = \<lambda>_. 0, on_established_cb = None, on_data_cb = None,
        on_closed_cb = None, on_error_cb = None, on_recv_three_dup_ack = None, notify_stack_cb = None\<rparr>)
      [Ev_connect, Ev_send [1, 2, 3], Ev_timer (Seq_timer 0), Ev_close]
      (enter_world (new_session 0 5 6 0 0) new_driver 0) = Inr (bytes, w') \<and> base_inv w'"
  using session_never_fails [OF session_env_keeps_base] by blast

text \<open>
  C30: The reassembly loop of \<open>_handle_incoming_packet\<close> returns exactly when all the bytes
  that the out-of-order map holds contiguously from \<open>recv_next_\<close> on fit into the receive
  buffer; then it appends them in order, advances \<open>recv_next_\<close> by their number and leaves the
  other entries. When they do not fit it never returns.
\<close>

theorem reassembly_loop_returns_iff_fits:
  assumes "ring_ok rb"
  shows "(qsize rb + length (contiguous ooo rn) \<le> capacity rb \<longrightarrow>
            (\<exists>rb'. drain_ooo ooo rb rn =
                Some (beyond ooo rn, rb', rn + of_nat (length (contiguous ooo rn)))
              \<and> ring_contents rb' = ring_contents rb @ contiguous ooo rn \<and> ring_ok rb'))
    \<and> (capacity rb < qsize rb + length (contiguous ooo rn) \<longrightarrow> drain_ooo ooo rb rn = None)"
  using drain_ooo_spec [OF assms, of ooo rn] by (auto simp: not_le [symmetric])

theorem reassembly_loop_returns_iff_fits_witness:
  "drain_ooo [(10, [1, 2, 3])] (ring_new 2 0) 10 = None
   \<and> (\<exists>rb'. drain_ooo [(10, [1]), (11, [2]), (20, [3])] (ring_new 2 0) 10 = Some ([(20, [3])], rb', 12)
            \<and> ring_contents rb' = [1, 2])"
proof -
  have ok: "ring_ok (ring_new 2 (0 :: u8))"
    by (simp add: ring_new_ok)
  show ?thesis
    using reassembly_loop_returns_iff_fits [OF ok, of "[(10, [1, 2, 3])]" 10]
      reassembly_loop_returns_iff_fits [OF ok, of "[(10, [1]), (11, [2]), (20, [3])]" 10]
    by (auto simp: ring_simps ring_new_def capacity_def ring_contents_def)
qed

end
