(* ===== verification/Fsm_Spec.thy ===== *)
theory Fsm_Spec
  imports Session_Invariants
begin

text \<open>
  The connection state machine as an abstract automaton, and the refinement: on the callbacks
  that the stack installs, every event moves a session to the state the automaton says,
  whatever else the handlers do.
\<close>

section \<open>Callbacks that only notify\<close>

text \<open>
  A quiet callback returns having changed nothing but the requests to the stack and the
  ready flag. \<open>create_session\<close> installs quiet callbacks only.
\<close>

definition quiet :: "(world \<Rightarrow> world result) \<Rightarrow> bool" where
  "quiet f \<longleftrightarrow> (\<forall>w. \<exists>ps b. f w = Inr (w\<lparr>posts := ps, is_in_ready_queue := b\<rparr>))"

definition quiet_env :: "env \<Rightarrow> bool" where
  "quiet_env e \<longleftrightarrow>
     (\<forall>f. on_established_cb e = Some f \<longrightarrow> quiet f)
     \<and> (\<forall>f n. on_data_cb e = Some f \<longrightarrow> quiet (f n))
     \<and> (\<forall>f. on_closed_cb e = Some f \<longrightarrow> quiet f)
     \<and> (\<exists>e'. on_recv_three_dup_ack e = Some (default_three_dup_ack e'))"

lemma quiet_keeps:
  assumes "quiet f" and "\<And>w ps b. P w \<Longrightarrow> P (w\<lparr>posts := ps, is_in_ready_queue := b\<rparr>)"
  shows "cb_keeps P f"
  unfolding cb_keeps_def
proof (intro allI impI)
  fix w
  assume "P w"
  then show "\<exists>w'. f w = Inr w' \<and> P w'"
    using assms unfolding quiet_def by metis
qed

lemma quiet_env_keeps:
  assumes q: "quiet_env e"
    and post: "\<And>w ps b. P w \<Longrightarrow> P (w\<lparr>posts := ps, is_in_ready_queue := b\<rparr>)"
    and dup: "\<And>e' a w. P w \<Longrightarrow> returns P (default_three_dup_ack e' a w)"
  shows "env_keeps P e"
proof -
  obtain e' where e': "on_recv_three_dup_ack e = Some (default_three_dup_ack e')"
    using q by (auto simp: quiet_env_def)
  have "cb_keeps P (default_three_dup_ack e' a)" for a
    using dup [of _ e' a] by (auto simp: cb_keeps_def returns_def)
  moreover have "cb_keeps P f" if "quiet f" for f
    by (rule quiet_keeps [OF that], rule post)
  ultimately show ?thesis
    using q e' unfolding quiet_env_def env_keeps_def by auto
qed

lemma quietI: "(\<And>w. f w = Inr (w\<lparr>posts := p w, is_in_ready_queue := b w\<rparr>)) \<Longrightarrow> quiet f"
  by (auto simp: quiet_def)

lemma quiet_post: "quiet (\<lambda>w. Inr (w\<lparr>posts := posts w @ [x]\<rparr>))"
  by (rule quietI [where b = is_in_ready_queue and p = "\<lambda>w. posts w @ [x]"]) simp

lemma quiet_trigger:
  assumes "notify_stack_cb e = Some (\<lambda>w. Inr (w\<lparr>posts := posts w @ [Post_ready (self_ptr w)]\<rparr>))"
  shows "quiet (trigger_event e)"
proof (rule quietI)
  fix w
  show "trigger_event e w = Inr (w\<lparr>posts := (if is_in_ready_queue w then posts w
      else posts w @ [Post_ready (self_ptr w)]), is_in_ready_queue := True\<rparr>)"
    using assms by (auto simp: trigger_event_def intro!: world.equality)
qed

lemma session_env_quiet: "quiet_env (session_env key e)"
  by (auto simp: quiet_env_def session_env_def set_on_data_def set_on_closed_def
      set_on_recv_three_dup_ack_def Let_def intro: quiet_post quiet_trigger)

section \<open>The automaton\<close>

text \<open>
  The state after a segment, from the flags and the acknowledgement number of the segment
  and the send window. \<open>acks_next\<close> is the test \<open>ack == send_unack_ + 1\<close> of the handshake and
  teardown states.
\<close>

definition acks_next :: "tcp_packet \<Rightarrow> world \<Rightarrow> bool" where
  "acks_next p w \<longleftrightarrow> ntohl (ack_num (header p)) = send_unack (swnd w) + 1"

definition segment_state :: "tcp_packet \<Rightarrow> world \<Rightarrow> tcp_state" where
  "segment_state p w =
     (let syn = has_flag p FLAG_SYN; ack = has_flag p FLAG_ACK; fin = has_flag p FLAG_FIN
      in case state w of
           CLOSED \<Rightarrow> CLOSED
         | LISTEN \<Rightarrow> if syn then SYN_RECEIVED else LISTEN
         | SYN_SENT \<Rightarrow> if syn \<and> ack then (if acks_next p w then ESTABLISHED else SYN_SENT)
                      else if syn then SYN_RECEIVED else SYN_SENT
         | SYN_RECEIVED \<Rightarrow> if ack \<and> acks_next p w then ESTABLISHED else SYN_RECEIVED
         | ESTABLISHED \<Rightarrow> if fin then CLOSE_WAIT else ESTABLISHED
         | FIN_WAIT_1 \<Rightarrow> if fin then CLOSE_WAIT
                        else if ack \<and> acks_next p w then FIN_WAIT_2 else FIN_WAIT_1
         | FIN_WAIT_2 \<Rightarrow> if fin then TIME_WAIT else FIN_WAIT_2
         | CLOSE_WAIT \<Rightarrow> if user_want_to_close w \<and> qsize (send_buffer w) = 0
                           \<and> send_unack (swnd w) = send_next (swnd w)
                        then LAST_ACK else CLOSE_WAIT
         | LAST_ACK \<Rightarrow> if ack \<and> acks_next p w then CLOSED else LAST_ACK
         | TIME_WAIT \<Rightarrow> TIME_WAIT)"

definition input_state :: "tcp_packet \<Rightarrow> world \<Rightarrow> tcp_state" where
  "input_state p w =
     (if \<not> verify_checksum p then state w
      else if has_flag p FLAG_RST then CLOSED
      else if \<not> has_flag p FLAG_ACK \<and> \<not> has_flag p FLAG_SYN \<and> \<not> has_flag p FLAG_FIN then state w
      else segment_state p w)"

fun close_state :: "tcp_state \<Rightarrow> tcp_state" where
  "close_state ESTABLISHED = FIN_WAIT_1"
| "close_state CLOSE_WAIT = LAST_ACK"
| "close_state SYN_SENT = CLOSED"
| "close_state SYN_RECEIVED = CLOSED"
| "close_state s = s"

fun event_state :: "event \<Rightarrow> world \<Rightarrow> tcp_state" where
  "event_state Ev_connect w = SYN_SENT"
| "event_state Ev_listen w = (if state w = CLOSED then LISTEN else state w)"
| "event_state Ev_close w = close_state (state w)"
| "event_state (Ev_send data) w = state w"
| "event_state (Ev_recv n) w =
     (if state w = CLOSE_WAIT \<and> auto_close_on_eof w \<and> qsize (recv_buffer w) \<le> n
      then LAST_ACK else state w)"
| "event_state Ev_read_all w =
     (if state w = CLOSE_WAIT \<and> auto_close_on_eof w then LAST_ACK else state w)"
| "event_state (Ev_input p) w = input_state p w"
| "event_state (Ev_timer h) w =
     (case armed (tmgr w) h of Some (On_2msl, _) \<Rightarrow> CLOSED | _ \<Rightarrow> state w)"

section \<open>What the building blocks do to the state\<close>

lemma state_blocks [simp]:
  "state (send_pure_ack e a w) = state w"
  "state (send_control_packet e fl w) = state w"
  "state (send_payload_packet e d fl w) = state w"
  "state (snd (handle_retransmit e p c s t ip port w)) = state w"
  "state (accept_ack a w) = state w"
  "state (count_dup_ack a w) = state w"
  "state (grow_cwnd w) = state w"
  "state (accept_in_order d w) = state w"
  "state (transition_to s' w) = s'"
  by (simp_all add: send_pure_ack_def send_control_packet_def send_payload_packet_def
      handle_retransmit_def accept_ack_def count_dup_ack_def grow_cwnd_def accept_in_order_eq
      transition_to_def Let_def)

text \<open>In a given state, under the representation invariant.\<close>

definition in_state :: "tcp_state \<Rightarrow> world \<Rightarrow> bool" where
  "in_state s w \<longleftrightarrow> base_inv w \<and> state w = s"

lemma in_state_post: "in_state s w \<Longrightarrow> in_state s (w\<lparr>posts := ps, is_in_ready_queue := b\<rparr>)"
  by (simp add: in_state_def base_inv_def)

lemma in_state_default_dup: "in_state s w \<Longrightarrow> returns (in_state s) (default_three_dup_ack e a w)"
  using base_inv_default_dup [of w e a]
  by (auto simp: in_state_def default_three_dup_ack_def Let_def split: option.splits)

lemma in_state_env: "quiet_env e \<Longrightarrow> env_keeps (in_state s) e"
  by (rule quiet_env_keeps [OF _ in_state_post in_state_default_dup])

lemma in_state_base_env: "quiet_env e \<Longrightarrow> env_keeps base_inv e"
  by (rule quiet_env_keeps [OF _ _ base_inv_default_dup]) (simp_all add: base_inv_def)

lemma in_state_try_send: "in_state s w \<Longrightarrow> returns (in_state s) (handle_try_send e w)"
  by (auto simp: in_state_def handle_try_send_eq base_inv_payload)

lemma in_state_handle_ack:
  assumes q: "quiet_env e" and w: "in_state s w"
  shows "returns (\<lambda>(_, w). in_state s w) (handle_ack e p w)"
proof (cases "ack_acceptable (ntohl (ack_num (header p))) w")
  case True
  let ?a = "ntohl (ack_num (header p))"
  have w1: "in_state s (count_dup_ack ?a (accept_ack ?a w))"
    using w by (simp add: in_state_def base_inv_accept_ack)
  have react: "returns (in_state s) (react_dup_ack e ?a (count_dup_ack ?a (accept_ack ?a w)))"
    by (rule react_dup_ack_keeps [OF in_state_env [OF q] w1]) (simp add: in_state_def base_inv_cwnd)
  have grow: "in_state s (grow_cwnd w') = in_state s w'" for w'
    by (simp add: in_state_def)
  show ?thesis
    using True unfolding handle_ack_def Let_def
    by simp (rule returns_bind [OF react], rule returns_bind [OF in_state_try_send], simp_all add: grow)
qed (use w in \<open>simp add: handle_ack_def Let_def\<close>)

lemma in_state_incoming:
  "in_state s w \<Longrightarrow> returns (\<lambda>(_, w). in_state s w) (handle_incoming_packet e p w)"
  by (simp add: in_state_def handle_incoming_eq Let_def base_inv_accept_in_order)

section \<open>What the handlers do to the state\<close>

lemma in_stateI: "base_inv w \<Longrightarrow> state w = s \<Longrightarrow> in_state s w"
  by (simp add: in_state_def)

lemma call_established_state:
  "quiet_env e \<Longrightarrow> in_state s w \<Longrightarrow> returns (in_state s) (call_if_set (on_established_cb e) w)"
  by (rule env_keeps_established [OF in_state_env])

lemma call_closed_state:
  "quiet_env e \<Longrightarrow> in_state s w \<Longrightarrow> returns (in_state s) (call_if_set (on_closed_cb e) w)"
  by (rule env_keeps_closed [OF in_state_env])

lemma call_data_state:
  "quiet_env e \<Longrightarrow> in_state s w \<Longrightarrow>
     returns (in_state s) (call_if_set (map_option (\<lambda>cb. cb n) (on_data_cb e)) w)"
  by (rule env_keeps_data [OF in_state_env])

lemma established_then_send:
  assumes "quiet_env e" and "base_inv w" and "state w = s"
  shows "returns (in_state s) (bind_res (call_if_set (on_established_cb e) w) (handle_try_send e))"
  by (rule returns_bind [OF call_established_state]) (use assms in \<open>auto intro: in_state_try_send in_stateI\<close>)

lemma handle_listen_state:
  "state (handle_listen e p w) = (if has_flag p FLAG_SYN then SYN_RECEIVED else state w)"
  by (simp add: handle_listen_def Let_def transition_to_def)

lemma handle_syn_sent_state:
  assumes q: "quiet_env e" and w: "base_inv w" "state w = SYN_SENT"
  shows "returns (in_state (segment_state p w)) (handle_syn_sent e p w)"
  unfolding handle_syn_sent_def Let_def segment_state_def acks_next_def
  using w
  by (auto intro!: established_then_send [OF q] in_stateI base_inv_control)
    (auto simp: base_inv_def base_ok_rules transition_to_def send_pure_ack_def Let_def)

lemma handle_syn_received_state:
  assumes q: "quiet_env e" and w: "base_inv w" "state w = SYN_RECEIVED"
  shows "returns (in_state (segment_state p w)) (handle_syn_received e p w)"
  unfolding handle_syn_received_def Let_def segment_state_def acks_next_def
  using w
  by (auto intro!: established_then_send [OF q] in_stateI)
    (auto simp: base_inv_def base_ok_rules transition_to_def)

lemma handle_established_state:
  assumes q: "quiet_env e" and w: "base_inv w" "state w = ESTABLISHED"
  shows "returns (in_state (segment_state p w)) (handle_established e p w)"
  unfolding handle_established_def
proof (intro returns_bind)
  have w': "in_state ESTABLISHED w"
    using w by (simp add: in_state_def)
  then show "returns (in_state ESTABLISHED) (if has_flag p FLAG_ACK
      then bind_res (handle_ack e p w) (\<lambda>(_, w). handle_try_send e w) else Inr w)"
    by (auto intro!: returns_bind [OF in_state_handle_ack [OF q w']] in_state_try_send)
next
  fix w1
  assume "in_state ESTABLISHED w1"
  then show "returns (in_state ESTABLISHED) (if payload p \<noteq> []
      then bind_res (handle_incoming_packet e p w1) (\<lambda>(is_order, w).
        if is_order then call_if_set (map_option (\<lambda>cb. cb (available w)) (on_data_cb e)) w else Inr w)
      else Inr w1)"
    by (auto intro!: returns_bind [OF in_state_incoming] call_data_state [OF q])
next
  fix w2
  assume "in_state ESTABLISHED w2"
  then show "returns (in_state (segment_state p w)) (if has_flag p FLAG_FIN
      then let w = w2\<lparr>rwnd := (rwnd w2)\<lparr>recv_next := ntohl (seq_num (header p)) + 1\<rparr>\<rparr>;
               w = send_pure_ack e (recv_next (rwnd w)) w;
               w = transition_to CLOSE_WAIT w
           in call_if_set (map_option (\<lambda>cb. cb 0) (on_data_cb e)) w
      else Inr w2)"
    using w(2) by (auto simp: Let_def segment_state_def intro!: call_data_state [OF q] in_stateI)
      (auto simp: in_state_def)
qed

lemma handle_fin_wait_1_state:
  "state w = FIN_WAIT_1 \<Longrightarrow> state (handle_fin_wait_1 e p w) = segment_state p w"
  by (simp add: handle_fin_wait_1_def segment_state_def acks_next_def Let_def transition_to_def)

lemma handle_fin_wait_2_state:
  "state w = FIN_WAIT_2 \<Longrightarrow> state (handle_fin_wait_2 e p w) = segment_state p w"
  by (simp add: handle_fin_wait_2_def segment_state_def Let_def transition_to_def start_2msl_timer_def)

lemma handle_timed_wait_state: "state (handle_timed_wait e p w) = state w"
  by (simp add: handle_timed_wait_def Let_def)

text \<open>With an empty send buffer nothing can be transmitted.\<close>

lemma try_send_data_empty: "base_inv w \<Longrightarrow> qsize (send_buffer w) = 0 \<Longrightarrow> try_send_data w = []"
  by (simp add: try_send_data_def Let_def ring_contents_def)

lemma send_payload_packet_buffers [simp]:
  "send_buffer (send_payload_packet e d fl w) = send_buffer w"
  "recv_buffer (send_payload_packet e d fl w) = recv_buffer w"
  "user_want_to_close (send_payload_packet e d fl w) = user_want_to_close w"
  "send_unack (swnd (send_payload_packet e d fl w)) = send_unack (swnd w)"
  "rwnd (send_payload_packet e d fl w) = rwnd w"
  by (simp_all add: send_payload_packet_def Let_def)

lemma send_pure_ack_fields [simp]:
  "send_buffer (send_pure_ack e a w) = send_buffer w"
  "recv_buffer (send_pure_ack e a w) = recv_buffer w"
  "user_want_to_close (send_pure_ack e a w) = user_want_to_close w"
  "swnd (send_pure_ack e a w) = swnd w"
  "rwnd (send_pure_ack e a w) = rwnd w"
  "tmgr (send_pure_ack e a w) = tmgr w"
  by (simp_all add: send_pure_ack_def Let_def)

lemma handle_close_wait_state:
  assumes w: "base_inv w" "state w = CLOSE_WAIT"
  shows "returns (in_state (segment_state p w)) (handle_close_wait e p w)"
proof -
  let ?w1 = "send_pure_ack e (recv_next (rwnd w)) w"
  let ?w2 = "send_payload_packet e (try_send_data ?w1) FLAG_ACK ?w1"
  have w1: "base_inv ?w1" and w2: "base_inv ?w2"
    using w by (simp_all add: base_inv_payload)
  have same: "?w2 = ?w1" if "qsize (send_buffer w) = 0"
    using try_send_data_empty [OF w1] that by simp
  have stop: "base_inv (?w1\<lparr>tmgr := stop_all_timers (tmgr w)\<rparr>)"
    using base_inv_stop_all [OF w1] by simp
  show ?thesis
    using w w1 w2 same stop
    by (auto simp: handle_close_wait_def Let_def handle_try_send_eq segment_state_def in_state_def
        ring_empty_def
        intro!: base_inv_control)
qed

lemma handle_last_ack_state:
  assumes q: "quiet_env e" and w: "base_inv w" "state w = LAST_ACK"
  shows "returns (in_state (segment_state p w)) (handle_last_ack e p w)"
  using w unfolding handle_last_ack_def Let_def segment_state_def acks_next_def
  by (auto intro!: call_closed_state [OF q] in_stateI)
    (auto simp: base_inv_def base_ok_rules)

lemma handle_reset_state:
  assumes q: "quiet_env e" and w: "base_inv w"
  shows "returns (in_state CLOSED) (handle_reset e w)"
  using w unfolding handle_reset_def Let_def
  by (auto intro!: call_closed_state [OF q] in_stateI base_inv_stop_all)

lemma handle_2msl_state:
  assumes q: "quiet_env e" and w: "base_inv w"
  shows "returns (in_state CLOSED) (handle_2msl_timeout e w)"
  using w unfolding handle_2msl_timeout_def Let_def
  by (auto intro!: call_closed_state [OF q] in_stateI simp: base_inv_def base_ok_rules transition_to_def)

lemma segment_state_correct:
  assumes q: "quiet_env e" and w: "base_inv w"
  shows "returns (in_state (segment_state p w))
     (case state w of
        CLOSED \<Rightarrow> Inr (w\<lparr>user_want_to_close := False\<rparr>)
      | LISTEN \<Rightarrow> Inr (handle_listen e p w)
      | SYN_SENT \<Rightarrow> handle_syn_sent e p w
      | SYN_RECEIVED \<Rightarrow> handle_syn_received e p w
      | ESTABLISHED \<Rightarrow> handle_established e p w
      | FIN_WAIT_1 \<Rightarrow> Inr (handle_fin_wait_1 e p w)
      | FIN_WAIT_2 \<Rightarrow> Inr (handle_fin_wait_2 e p w)
      | CLOSE_WAIT \<Rightarrow> handle_close_wait e p w
      | LAST_ACK \<Rightarrow> handle_last_ack e p w
      | TIME_WAIT \<Rightarrow> Inr (handle_timed_wait e p w))"
  using w handle_syn_sent_state [OF q w] handle_syn_received_state [OF q w]
    handle_established_state [OF q w] handle_close_wait_state [OF w] handle_last_ack_state [OF q w]
  by (cases "state w")
    (simp_all add: in_state_def base_inv_handle_listen base_inv_handle_fin_wait_1
      base_inv_handle_fin_wait_2 base_inv_handle_timed_wait handle_listen_state
      handle_fin_wait_1_state handle_fin_wait_2_state handle_timed_wait_state segment_state_def)

lemma input_state_correct:
  assumes q: "quiet_env e" and w: "base_inv w"
  shows "returns (in_state (input_state p w)) (input e p w)"
proof -
  let ?w = "w\<lparr>peer_usable_window_size := ucast (ntohs (window_size (header p)))\<rparr>"
  have seg: "segment_state p ?w = segment_state p w"
    by (cases "state w") (simp_all add: segment_state_def acks_next_def)
  have "base_inv ?w"
    using w by simp
  from segment_state_correct [OF q this, of p] handle_reset_state [OF q w] show ?thesis
    using w by (auto simp: input_def input_state_def Let_def seg in_state_def)
qed

lemma close_state_correct:
  "base_inv w \<Longrightarrow> returns (in_state (close_state (state w))) (close e w)"
  by (cases "state w")
    (auto simp: close_def Let_def handle_try_send_eq in_state_def base_inv_control base_inv_stop_all
      base_inv_payload)

lemma auto_close_state:
  "base_inv w \<Longrightarrow>
     returns (in_state (if qsize (recv_buffer w) = 0 \<and> state w = CLOSE_WAIT \<and> auto_close_on_eof w
       then LAST_ACK else state w)) (auto_close e w)"
  using close_state_correct [of w e] by (auto simp: auto_close_def ring_empty_def in_state_def)

lemma reading_state:
  assumes w: "base_inv w" and n: "n \<le> qsize (recv_buffer w)"
  shows "returns (in_state (if qsize (recv_buffer w) = n \<and> state w = CLOSE_WAIT \<and> auto_close_on_eof w
       then LAST_ACK else state w))
     (auto_close e (w\<lparr>recv_buffer := snd (read_loop front pop_front n (recv_buffer w))\<rparr>))"
proof -
  let ?rb = "snd (read_loop front pop_front n (recv_buffer w))"
  have ok: "ring_ok (recv_buffer w)"
    using w by (simp add: base_inv_def base_ok_def)
  have "qsize ?rb = qsize (recv_buffer w) - n"
    using rq.read_loop_take [OF ok, of n] n length_ring_contents [of ?rb] length_ring_contents [of "recv_buffer w"]
    by simp
  then show ?thesis
    using auto_close_state [OF base_inv_recv_buffer [OF w n], of e] n by (auto split: if_splits)
qed

lemma event_state_correct:
  assumes q: "quiet_env e" and w: "base_inv w"
  shows "returns (\<lambda>(_, w'). in_state (event_state ev w) w') (session_step e ev w)"
proof (cases ev)
  case Ev_connect
  then show ?thesis
    using base_inv_connect [OF w, of e] by (simp add: in_state_def connect_def Let_def)
next
  case Ev_listen
  then show ?thesis
    using w by (simp add: in_state_def listen_def)
next
  case Ev_close
  then show ?thesis
    by (simp, intro returns_bind [OF close_state_correct [OF w]]) simp
next
  case (Ev_send data)
  then show ?thesis
    using w by (simp add: send_eq in_state_def base_inv_payload base_inv_queued)
      (simp add: queued_def)
next
  case (Ev_input p)
  then show ?thesis
    by (simp, intro returns_bind [OF input_state_correct [OF q w]]) simp
next
  case (Ev_timer h)
  then show ?thesis
    using w handle_2msl_state [OF q w]
    by (auto simp: expire_def run_retransmit_closure_def base_inv_retransmit in_state_def
        intro!: returns_bind [where P = "in_state (event_state ev w)"]
        split: option.splits uv_callback.splits)
next
  case (Ev_recv n)
  let ?k = "if ring_empty (recv_buffer w) then 0 else min n (qsize (recv_buffer w))"
  have "?k \<le> qsize (recv_buffer w)"
    by simp
  from reading_state [OF w this] show ?thesis
    unfolding Ev_recv recv_eq session_step.simps Let_def
    by (rule returns_bind) (auto simp: ring_empty_def in_state_def split: if_splits)
next
  case Ev_read_all
  from reading_state [OF w order_refl] show ?thesis
    unfolding Ev_read_all read_all_eq session_step.simps Let_def
    by (rule returns_bind) (auto simp: in_state_def split: if_splits)
qed

section \<open>Property\<close>

text \<open>
  C10: The session refines the connection automaton: for every event in every state that
  satisfies the representation invariant, the call returns and the state afterwards is the
  one the automaton gives, whatever data, acknowledgement or timer work the handler does
  besides; the invariant holds again. The callbacks are any that only notify.
\<close>

theorem session_follows_automaton:
  assumes "quiet_env e" and "base_inv w"
  shows "\<exists>b w'. session_step e ev w = Inr (b, w') \<and> state w' = event_state ev w \<and> base_inv w'"
  using event_state_correct [OF assms, of ev] by (auto simp: returns_def in_state_def)

text \<open>A reset packet closes a listening session, and its checksum is the right one.\<close>

definition example_env :: env where
  "example_env = session_env (''10.0.0.2'', 80) \<lparr>draw = \<lambda>_. 0, gen_initial_seq = \<lambda>_. 100,
     indet_urgent = \<lambda>_. 0, indet_checksum = \<lambda>_. 0, on_established_cb = None, on_data_cb = None,
     on_closed_cb = None, on_error_cb = None, on_recv_three_dup_ack = None, notify_stack_cb = None\<rparr>"

definition example_rst :: tcp_packet where
  "example_rst = calculate_checksum
     \<lparr>header = \<lparr>s_port = 0, d_port = 0, seq_num = 0, ack_num = 0, data_offset_and_reserved = 0,
                 flags = FLAG_RST, window_size = 0, checksum = 0, urgent_ptr = 0\<rparr>,
      options = [], payload = []\<rparr>"

theorem session_follows_automaton_witness:
  "\<exists>b w'. session_step example_env (Ev_input example_rst)
            (listen (enter_world (new_session 0 5 6 0 0) new_driver 0)) = Inr (b, w')
          \<and> state w' = CLOSED"
proof -
  let ?w = "listen (enter_world (new_session 0 5 6 0 0) new_driver 0)"
  have q: "quiet_env example_env"
    unfolding example_env_def by (rule session_env_quiet)
  have b: "base_inv ?w"
    by (intro base_inv_listen base_inv_new)
  have "verify_checksum example_rst" and "has_flag example_rst FLAG_RST"
    by (simp_all add: example_rst_def checksum_accepts has_flag_def frame_simps)
      (simp_all add: flag_defs)
  then have "event_state (Ev_input example_rst) ?w = CLOSED"
    by (simp add: input_state_def)
  then show ?thesis
    using session_follows_automaton [OF q b, of "Ev_input example_rst"] by auto
qed

end
