(* ===== verification/Emission.thy ===== *)
theory Emission
  imports Fsm_Spec "HOL-Library.Sublist"
begin

text \<open>
  What a session puts on the wire, now or later: the datagrams handed to the driver and the
  packets that armed retransmission timers hold. A condition on segments that does not look
  at acknowledgement, window and checksum passes from one to the other; the lemmas here
  follow such a condition through the building blocks, so that the theories on byte streams
  only have to look at what each operation newly sends.
\<close>

section \<open>Packets in the timers\<close>

definition closures :: "'c timer_manager \<Rightarrow> 'c set" where
  "closures m = {c. \<exists>h t. armed m h = Some (On_timer_uv_tick c, t)}"

lemma closures_mono:
  "(\<And>h. armed m' h = None \<or> armed m' h = armed m h) \<Longrightarrow> closures m' \<subseteq> closures m"
  unfolding closures_def by (smt (verit, best) Collect_mono option.distinct(1))

lemma closures_stop: "closures (stop_timer s m) \<subseteq> closures m"
  by (rule closures_mono) (rule armed_stop_le)

lemma closures_start: "closures (start_timer s t c m) \<subseteq> insert c (closures m)"
proof
  fix x
  assume "x \<in> closures (start_timer s t c m)"
  then have "x = c \<or> x \<in> closures (stop_timer s m)"
    by (auto simp: closures_def armed_start_timer split: if_splits)
  then show "x \<in> insert c (closures m)"
    using closures_stop [of s m] by auto
qed

lemma closures_drop_up_to: "closures (drop_timer_up_to a m) \<subseteq> closures m"
  by (rule closures_mono) (rule armed_drop_up_to_le)

lemma closures_stop_all: "closures (stop_all_timers m) \<subseteq> closures m"
  by (rule closures_mono) (rule armed_stop_all_le)

lemma closures_two_msl:
  "closures (uv_request (Uv_timer_start Two_msl On_2msl t) m) \<subseteq> closures m"
  "closures (uv_request (Uv_timer_stop h) m) \<subseteq> closures m"
  by (auto simp: closures_def timer_simps split: if_splits)

lemmas closures_subset = closures_stop closures_drop_up_to closures_stop_all closures_two_msl

section \<open>Conditions on what is emitted\<close>

text \<open>
  A condition \<open>G\<close> takes the sequence number (in host order), the flags and the payload.
\<close>

type_synonym segment_cond = "u32 \<Rightarrow> u8 \<Rightarrow> u8 list \<Rightarrow> bool"

definition of_packet :: "segment_cond \<Rightarrow> tcp_packet \<Rightarrow> bool" where
  "of_packet G p \<longleftrightarrow> G (ntohl (seq_num (header p))) (flags (header p)) (payload p)"

definition of_datagram :: "segment_cond \<Rightarrow> u8 list \<Rightarrow> bool" where
  "of_datagram G bs \<longleftrightarrow> (\<forall>p. parse_datagram bs = Some p \<longrightarrow> of_packet G p)"

definition emits_ok :: "segment_cond \<Rightarrow> retransmit_closure timer_manager \<Rightarrow> udp_driver \<Rightarrow> bool" where
  "emits_ok G tm d \<longleftrightarrow> (\<forall>c\<in>closures tm. of_packet G (rt_packet c))
     \<and> (\<forall>(bs, dest)\<in>set (udp_sends d). of_datagram G bs)"

definition emits :: "segment_cond \<Rightarrow> world \<Rightarrow> bool" where
  "emits G w \<longleftrightarrow> emits_ok G (tmgr w) (udp w)"

lemma of_packet_mono: "of_packet G p \<Longrightarrow> (\<And>s f d. G s f d \<Longrightarrow> G' s f d) \<Longrightarrow> of_packet G' p"
  by (simp add: of_packet_def)

lemma emits_ok_mono: "emits_ok G tm d \<Longrightarrow> (\<And>s f d. G s f d \<Longrightarrow> G' s f d) \<Longrightarrow> emits_ok G' tm d"
  unfolding emits_ok_def of_datagram_def of_packet_def by blast

lemma emits_mono: "emits G w \<Longrightarrow> (\<And>s f d. G s f d \<Longrightarrow> G' s f d) \<Longrightarrow> emits G' w"
  unfolding emits_def by (rule emits_ok_mono)

lemma of_datagram_raw [simp]: "of_datagram G (raw_data p) = of_packet G p"
proof -
  have "raw_data p = raw_data (p\<lparr>options := []\<rparr>)"
    by (simp add: raw_data_def)
  then have "parse_datagram (raw_data p) = Some (p\<lparr>options := []\<rparr>)"
    by (simp add: wire.law_dec_enc)
  then show ?thesis
    by (simp add: of_datagram_def of_packet_def)
qed

lemma of_packet_retransmit [simp]:
  "of_packet G (calculate_checksum p) = of_packet G p"
  "of_packet G (p\<lparr>header := (header p)\<lparr>ack_num := a, window_size := win\<rparr>\<rparr>) = of_packet G p"
  by (simp_all add: of_packet_def frame_simps)

lemma emits_ok_send_packet:
  assumes "emits_ok G tm d" and "of_packet G p"
  shows "emits_ok G tm (send_packet r p dest d)"
  using assms by (auto simp: emits_ok_def send_packet_def Let_def)

lemma emits_ok_closures: "emits_ok G tm d \<Longrightarrow> closures tm' \<subseteq> closures tm \<Longrightarrow> emits_ok G tm' d"
  by (auto simp: emits_ok_def)

lemma emits_ok_start:
  "emits_ok G tm d \<Longrightarrow> of_packet G (rt_packet c) \<Longrightarrow> emits_ok G (start_timer s t c tm) d"
  using closures_start [of s t c tm] by (auto simp: emits_ok_def)

lemmas emits_ok_timers = closures_subset [THEN [2] emits_ok_closures]

lemma emits_ok_driver [simp]: "emits_ok G tm (set_on_receive cb d) = emits_ok G tm d"
  by (simp add: emits_ok_def set_on_receive_def)

section \<open>Through the building blocks\<close>

lemma emits_world [simp]:
  "emits G (w\<lparr>swnd := x\<rparr>) = emits G w" "emits G (w\<lparr>rwnd := y\<rparr>) = emits G w"
  "emits G (w\<lparr>send_buffer := sb\<rparr>) = emits G w" "emits G (w\<lparr>recv_buffer := rb\<rparr>) = emits G w"
  "emits G (w\<lparr>posts := ps\<rparr>) = emits G w" "emits G (w\<lparr>is_in_ready_queue := b\<rparr>) = emits G w"
  "emits G (w\<lparr>user_want_to_close := b\<rparr>) = emits G w" "emits G (w\<lparr>iss_calls := n\<rparr>) = emits G w"
  "emits G (w\<lparr>peer_usable_window_size := z\<rparr>) = emits G w" "emits G (transition_to s w) = emits G w"
  "emits G (count_dup_ack a w) = emits G w" "emits G (grow_cwnd w) = emits G w"
  "emits G (accept_in_order data w) = emits G w"
  by (simp_all add: emits_def transition_to_def count_dup_ack_def grow_cwnd_def Let_def accept_in_order_eq)

lemma emits_timers:
  "emits G w \<Longrightarrow> emits G (w\<lparr>tmgr := stop_timer s (tmgr w)\<rparr>)"
  "emits G w \<Longrightarrow> emits G (w\<lparr>tmgr := stop_all_timers (tmgr w)\<rparr>)"
  "emits G w \<Longrightarrow> emits G (start_2msl_timer w)"
  "emits G w \<Longrightarrow> emits G (accept_ack a w)"
  "emits G w \<Longrightarrow> emits G (w\<lparr>tmgr := uv_request (Uv_timer_stop Two_msl) (tmgr w)\<rparr>)"
  by (simp_all add: emits_def start_2msl_timer_def accept_ack_def Let_def emits_ok_timers)

lemma of_packet_make_header [simp]:
  "of_packet G \<lparr>header = make_header e a fl w, options = os, payload = data\<rparr>
     = G (send_next (swnd w)) fl data"
  by (simp add: of_packet_def make_header_def)

lemma emits_pure_ack:
  "emits G w \<Longrightarrow> G (send_next (swnd w)) FLAG_ACK [] \<Longrightarrow> emits G (send_pure_ack e a w)"
  by (simp add: emits_def send_pure_ack_def Let_def emits_ok_send_packet)

lemma emits_control:
  assumes "emits G w" and "G (send_next (swnd w)) fl []"
  shows "emits G (send_control_packet e fl w)"
  using assms
  by (auto simp: emits_def send_control_packet_def Let_def intro!: emits_ok_send_packet emits_ok_start)

lemma emits_payload:
  assumes "emits G w" and "data \<noteq> [] \<Longrightarrow> G (send_next (swnd w)) fl data"
  shows "emits G (send_payload_packet e data fl w)"
  using assms
  by (auto simp: emits_def send_payload_packet_def Let_def intro!: emits_ok_send_packet emits_ok_start)

lemma emits_retransmit:
  assumes "emits G w" and "of_packet G p"
  shows "emits G (snd (handle_retransmit e p n s t ip port w))"
  using assms
  by (auto simp: emits_def handle_retransmit_def Let_def
      intro!: emits_ok_send_packet emits_ok_start emits_ok_timers)

text \<open>A retransmission timer sends again what it holds.\<close>

lemma emits_expiry:
  assumes "emits G w" and "armed (tmgr w) h = Some (On_timer_uv_tick c, t)"
  shows "emits G (run_retransmit_closure e c w)"
proof -
  have "c \<in> closures (tmgr w)"
    using assms(2) by (auto simp: closures_def)
  then have "of_packet G (rt_packet c)"
    using assms(1) by (simp add: emits_def emits_ok_def)
  then show ?thesis
    using assms(1) by (simp add: run_retransmit_closure_def emits_retransmit)
qed

lemma emits_sent:
  assumes "emits G w" and "(bs, dest) \<in> set (udp_sends (udp w))" and "parse_datagram bs = Some p"
  shows "of_packet G p"
  using assms unfolding emits_def emits_ok_def of_datagram_def by blast

end
