(* ===== verification/Byte_Stream.thy ===== *)
theory Byte_Stream
  imports Emission
begin

text \<open>
  The two byte streams of one session: what it sends, as positions in the stream the
  application wrote, and what it delivers, as a prefix of the peer's stream. The invariant
  ties buffers, windows, armed timers and sent datagrams to the streams, through every event
  of a session's life except a second opening.
\<close>

section \<open>Streams and the segments that carry them\<close>

text \<open>
  What the session's code does not store: the two initial sequence numbers, which side this
  is, the bytes that \<open>send\<close> has accepted, the bytes the peer's application has written, the
  bytes that the reading calls have returned, and whether a FIN has arrived.
\<close>

record ghost =
  own_isn :: u32
  peer_isn :: u32
  is_server :: bool
  written :: "u8 list"
  incoming :: "u8 list"
  delivered :: "u8 list"
  peer_fin :: bool

text \<open>The states in which a session no longer takes data in.\<close>

definition past :: "tcp_state \<Rightarrow> bool" where
  "past s \<longleftrightarrow> s \<noteq> LISTEN \<and> s \<noteq> SYN_SENT \<and> s \<noteq> SYN_RECEIVED \<and> s \<noteq> ESTABLISHED"

text \<open>
  Payload with the right bytes at the right place of a stream. The byte at position \<open>k\<close> has
  the sequence number \<open>isn + 1 + k\<close>.
\<close>

definition in_place :: "u32 \<Rightarrow> u8 list \<Rightarrow> u32 \<Rightarrow> u8 list \<Rightarrow> bool" where
  "in_place isn stream seq data \<longleftrightarrow> (\<exists>k. seq = isn + 1 + of_nat k \<and> prefix data (drop k stream))"

text \<open>
  The segments a session sends. After the peer's FIN has arrived, the code may send data that
  is out of place (see the header of \<open>Network\<close>); no one takes it.
\<close>

definition genuine :: "ghost \<Rightarrow> bool \<Rightarrow> segment_cond" where
  "genuine g left seq fl data \<longleftrightarrow>
     (data \<noteq> [] \<longrightarrow> peer_fin g \<or> in_place (own_isn g) (written g) seq data)
     \<and> (fl AND FLAG_SYN \<noteq> 0 \<longrightarrow> seq = own_isn g \<and> (is_server g \<longrightarrow> fl AND FLAG_ACK \<noteq> 0))
     \<and> (fl AND FLAG_FIN \<noteq> 0 \<longrightarrow> left)"

text \<open>The segments a session may receive, for its state.\<close>

definition acceptable :: "ghost \<Rightarrow> tcp_state \<Rightarrow> segment_cond" where
  "acceptable g s seq fl data \<longleftrightarrow>
     (data \<noteq> [] \<longrightarrow> past s \<or> in_place (peer_isn g) (incoming g) seq data)
     \<and> (fl AND FLAG_SYN \<noteq> 0 \<longrightarrow> seq = peer_isn g \<and> (\<not> is_server g \<longrightarrow> fl AND FLAG_ACK \<noteq> 0))"

section \<open>The invariant\<close>

text \<open>
  The send buffer holds the written stream from the first unacknowledged byte on, and the
  bytes in flight are at its front.
\<close>

definition sliding :: "ghost \<Rightarrow> u8 list \<Rightarrow> u32 \<Rightarrow> u32 \<Rightarrow> bool" where
  "sliding g buf unack nxt \<longleftrightarrow>
     (\<exists>acked flight. acked \<le> length (written g) \<and> buf = drop acked (written g)
        \<and> flight \<le> length buf \<and> unack = own_isn g + 1 + of_nat acked \<and> nxt = unack + of_nat flight)"

definition snd_ok ::
  "(nat \<Rightarrow> u32) \<Rightarrow> ghost \<Rightarrow> tcp_state \<Rightarrow> u8 list \<Rightarrow> u32 \<Rightarrow> u32 \<Rightarrow> nat \<Rightarrow> int \<Rightarrow> u32 \<Rightarrow> bool" where
  "snd_ok gen g s buf unack nxt calls dups last_ack \<longleftrightarrow>
     (case s of
        LISTEN \<Rightarrow> gen calls = own_isn g \<and> buf = written g \<and> dups = 0
      | SYN_SENT \<Rightarrow> \<not> is_server g \<and> buf = written g \<and> unack = own_isn g \<and> nxt = own_isn g + 1 \<and> dups = 0
      | SYN_RECEIVED \<Rightarrow> buf = written g \<and> unack = own_isn g \<and> nxt = own_isn g + 1 \<and> dups = 0
      | ESTABLISHED \<Rightarrow>
          sliding g buf unack nxt \<and> (dups = 0 \<or> dups = 1 \<and> last_ack \<le> unack)
      | CLOSE_WAIT \<Rightarrow> peer_fin g
      | _ \<Rightarrow> True)"

definition rcv_ok :: "ghost \<Rightarrow> tcp_state \<Rightarrow> u8 list \<Rightarrow> u32 \<Rightarrow> bool" where
  "rcv_ok g s buf nxt \<longleftrightarrow>
     (let received = delivered g @ buf
      in prefix received (incoming g)
         \<and> (s = LISTEN \<or> s = SYN_SENT \<longrightarrow> received = [])
         \<and> (s = SYN_RECEIVED \<or> s = ESTABLISHED \<longrightarrow> nxt = peer_isn g + 1 + of_nat (length received)))"

definition stream_inv :: "env \<Rightarrow> ghost \<Rightarrow> world \<Rightarrow> bool" where
  "stream_inv e g w \<longleftrightarrow> base_inv w
     \<and> snd_ok (gen_initial_seq e) g (state w) (ring_contents (send_buffer w)) (send_unack (swnd w))
         (send_next (swnd w)) (iss_calls w) (dup_ack_count w) (last_ack_received w)
     \<and> rcv_ok g (state w) (ring_contents (recv_buffer w)) (recv_next (rwnd w))
     \<and> emits (genuine g (past (state w))) w"

text \<open>The ghost after an event: bytes accepted by \<open>send\<close>, bytes returned, a FIN that arrived.\<close>

definition accepted :: "env \<Rightarrow> event \<Rightarrow> world \<Rightarrow> u8 list" where
  "accepted e ev w =
     (case ev of
        Ev_send data \<Rightarrow> (case send e data w of Inr (n, _) \<Rightarrow> take n data | Inl _ \<Rightarrow> [])
      | _ \<Rightarrow> [])"

definition fin_arrives :: "event \<Rightarrow> bool" where
  "fin_arrives ev = (case ev of Ev_input p \<Rightarrow> has_flag p FLAG_FIN | _ \<Rightarrow> False)"

definition observe :: "env \<Rightarrow> event \<Rightarrow> world \<Rightarrow> u8 list \<Rightarrow> ghost \<Rightarrow> ghost" where
  "observe e ev w bytes g =
     g\<lparr>written := written g @ accepted e ev w, delivered := delivered g @ bytes,
       peer_fin := peer_fin g \<or> fin_arrives ev\<rparr>"

section \<open>Flags\<close>

lemma flag_tests [simp]:
  "FLAG_ACK AND FLAG_SYN = 0" "FLAG_ACK AND FLAG_FIN = 0" "FLAG_RST AND FLAG_SYN = 0"
  "FLAG_RST AND FLAG_FIN = 0" "FLAG_FIN AND FLAG_SYN = 0" "(FLAG_FIN OR FLAG_ACK) AND FLAG_SYN = 0"
  "(FLAG_SYN OR FLAG_ACK) AND FLAG_FIN = 0" "(FLAG_SYN OR FLAG_ACK) AND FLAG_ACK \<noteq> 0"
  "FLAG_SYN AND FLAG_FIN = 0" "FLAG_SYN AND FLAG_SYN \<noteq> 0" "FLAG_ACK \<noteq> 0"
  by (simp_all add: flag_defs)

lemma genuine_bare [simp]:
  "genuine g left seq FLAG_ACK []" "genuine g left seq FLAG_RST []"
  "genuine g True seq FLAG_FIN []" "genuine g True seq (FLAG_FIN OR FLAG_ACK) []"
  "genuine g left (own_isn g) (FLAG_SYN OR FLAG_ACK) []"
  by (simp_all add: genuine_def)

lemma genuine_data:
  "peer_fin g \<or> in_place (own_isn g) (written g) seq data \<Longrightarrow> genuine g left seq FLAG_ACK data"
  by (simp add: genuine_def)

lemma in_place_append: "in_place isn W seq data \<Longrightarrow> data \<noteq> [] \<Longrightarrow> in_place isn (W @ V) seq data"
  unfolding in_place_def by (metis append_Nil2 drop_append drop_all nat_le_linear prefix_Nil prefix_prefix)

lemma genuine_mono:
  assumes "genuine g left seq fl data"
    and "own_isn g' = own_isn g" and "is_server g' = is_server g" and "written g' = written g @ V"
    and "peer_fin g \<longrightarrow> peer_fin g'" and "left \<longrightarrow> left'"
  shows "genuine g' left' seq fl data"
  using assms in_place_append unfolding genuine_def by metis

lemma genuine_syn [simp]: "\<not> is_server g \<Longrightarrow> genuine g left (own_isn g) FLAG_SYN []"
  by (simp add: genuine_def)

section \<open>Through the building blocks\<close>

lemma control_fields [simp]:
  "send_buffer (send_control_packet e fl w) = send_buffer w"
  "recv_buffer (send_control_packet e fl w) = recv_buffer w"
  "rwnd (send_control_packet e fl w) = rwnd w"
  "send_unack (swnd (send_control_packet e fl w)) = send_unack (swnd w)"
  "iss_calls (send_control_packet e fl w) = iss_calls w"
  "dup_ack_count (send_control_packet e fl w) = dup_ack_count w"
  "last_ack_received (send_control_packet e fl w) = last_ack_received w"
  by (simp_all add: send_control_packet_def Let_def)

lemma pure_ack_fields [simp]:
  "iss_calls (send_pure_ack e a w) = iss_calls w"
  "dup_ack_count (send_pure_ack e a w) = dup_ack_count w"
  "last_ack_received (send_pure_ack e a w) = last_ack_received w"
  by (simp_all add: send_pure_ack_def Let_def)

lemma payload_fields [simp]:
  "iss_calls (send_payload_packet e d fl w) = iss_calls w"
  "dup_ack_count (send_payload_packet e d fl w) = dup_ack_count w"
  "last_ack_received (send_payload_packet e d fl w) = last_ack_received w"
  "send_next (swnd (send_payload_packet e d fl w)) = send_next (swnd w) + of_nat (length d)"
  by (simp_all add: send_payload_packet_def Let_def)

lemma retransmit_fields [simp]:
  "send_buffer (snd (handle_retransmit e p c s t ip port w)) = send_buffer w"
  "recv_buffer (snd (handle_retransmit e p c s t ip port w)) = recv_buffer w"
  "rwnd (snd (handle_retransmit e p c s t ip port w)) = rwnd w"
  "send_unack (swnd (snd (handle_retransmit e p c s t ip port w))) = send_unack (swnd w)"
  "send_next (swnd (snd (handle_retransmit e p c s t ip port w))) = send_next (swnd w)"
  "iss_calls (snd (handle_retransmit e p c s t ip port w)) = iss_calls w"
  "dup_ack_count (snd (handle_retransmit e p c s t ip port w)) = dup_ack_count w"
  "last_ack_received (snd (handle_retransmit e p c s t ip port w)) = last_ack_received w"
  by (simp_all add: handle_retransmit_def Let_def)

text \<open>Timers, the ready flag, the congestion window and the stack's requests are not part of it.\<close>

lemma stream_inv_frame:
  "stream_inv e g (w\<lparr>posts := ps, is_in_ready_queue := b\<rparr>) = stream_inv e g w"
  "stream_inv e g (w\<lparr>user_want_to_close := b\<rparr>) = stream_inv e g w"
  "stream_inv e g (w\<lparr>peer_usable_window_size := x\<rparr>) = stream_inv e g w"
  "stream_inv e g (w\<lparr>ssthresh := y, swnd := (swnd w)\<lparr>send_window_size := z\<rparr>\<rparr>) = stream_inv e g w"
  "stream_inv e g (grow_cwnd w) = stream_inv e g w"
  by (simp_all add: stream_inv_def base_inv_def grow_cwnd_def Let_def emits_def)

lemma stream_inv_timer:
  "stream_inv e g w \<Longrightarrow> stream_inv e g (w\<lparr>tmgr := stop_timer s (tmgr w)\<rparr>)"
  "stream_inv e g w \<Longrightarrow> stream_inv e g (w\<lparr>tmgr := stop_all_timers (tmgr w)\<rparr>)"
  by (simp_all add: stream_inv_def base_inv_stop base_inv_stop_all emits_timers)

lemma stream_inv_pure_ack: "stream_inv e g w \<Longrightarrow> stream_inv e g (send_pure_ack e' a w)"
  by (simp add: stream_inv_def emits_pure_ack)

lemma slidingI:
  "buf = drop acked (written g) \<Longrightarrow> acked \<le> length (written g) \<Longrightarrow> flight \<le> length buf \<Longrightarrow>
     unack = own_isn g + 1 + of_nat acked \<Longrightarrow> nxt = unack + of_nat flight \<Longrightarrow> sliding g buf unack nxt"
  unfolding sliding_def by blast

lemma stream_inv_base: "stream_inv e g w \<Longrightarrow> base_inv w"
  by (simp add: stream_inv_def)

lemma slidingE:
  assumes "sliding g buf unack nxt"
  obtains acked flight where "acked \<le> length (written g)" and "buf = drop acked (written g)"
    and "flight \<le> length buf" and "unack = own_isn g + 1 + of_nat acked"
    and "nxt = unack + of_nat flight"
  using assms unfolding sliding_def by blast

lemma stream_inv_sliding:
  "stream_inv e g w \<Longrightarrow> state w = ESTABLISHED \<Longrightarrow>
     sliding g (ring_contents (send_buffer w)) (send_unack (swnd w)) (send_next (swnd w))"
  by (simp add: stream_inv_def snd_ok_def)

lemma sliding_other [simp]:
  "sliding (g\<lparr>peer_fin := b\<rparr>) buf un nx = sliding g buf un nx"
  "sliding (g\<lparr>incoming := v\<rparr>) buf un nx = sliding g buf un nx"
  "sliding (g\<lparr>delivered := v\<rparr>) buf un nx = sliding g buf un nx"
  by (simp_all add: sliding_def)

lemma sliding_append:
  assumes "sliding g buf un nx"
  shows "sliding (g\<lparr>written := written g @ x\<rparr>) (buf @ x) un nx"
proof -
  obtain acked flight where "acked \<le> length (written g)" "buf = drop acked (written g)"
    "flight \<le> length buf" "un = own_isn g + 1 + of_nat acked" "nx = un + of_nat flight"
    using assms by (auto simp: sliding_def)
  then show ?thesis
    by (intro slidingI [of _ acked _ flight]) simp_all
qed

lemma stream_inv_peer_fin:
  assumes "stream_inv e g w"
  shows "stream_inv e (g\<lparr>peer_fin := peer_fin g \<or> b\<rparr>) w"
proof -
  let ?g = "g\<lparr>peer_fin := peer_fin g \<or> b\<rparr>"
  have "emits (genuine ?g (past (state w))) w"
    using assms unfolding stream_inv_def
    by (elim conjE emits_mono) (auto elim!: genuine_mono [where V = "[]"])
  then show ?thesis
    using assms by (auto simp: stream_inv_def snd_ok_def rcv_ok_def Let_def split: tcp_state.splits)
qed

lemma stream_inv_incoming:
  assumes "stream_inv e g w"
  shows "stream_inv e (g\<lparr>incoming := incoming g @ v\<rparr>) w"
proof -
  let ?g = "g\<lparr>incoming := incoming g @ v\<rparr>"
  have "emits (genuine ?g (past (state w))) w"
    using assms unfolding stream_inv_def
    by (elim conjE emits_mono) (auto elim!: genuine_mono [where V = "[]"])
  then show ?thesis
    using assms by (auto simp: stream_inv_def snd_ok_def rcv_ok_def Let_def split: tcp_state.splits)
qed

section \<open>Sending\<close>

lemma sends_data_iff: "sends_data s \<longleftrightarrow> s = ESTABLISHED \<or> s = CLOSE_WAIT"
  by (cases s) (simp_all add: sends_data_def)

lemma small_flight:
  assumes "n \<le> qsize q" and "ring_ok q" and "capacity q = 1024"
  shows "unat (of_nat n :: u32) = n"
  using assms ring_ok_bound [OF assms(2)] by (simp add: unat_of_nat)

text \<open>What a transmission takes from the send buffer is in place, and stays in flight.\<close>

lemma stream_inv_try_send:
  assumes w: "stream_inv e g w"
  shows "stream_inv e g (send_payload_packet e' (try_send_data w) FLAG_ACK w)"
proof -
  let ?w = "send_payload_packet e' (try_send_data w) FLAG_ACK w"
  have b: "base_inv ?w"
    using w by (simp add: stream_inv_def base_inv_payload)
  consider "state w = ESTABLISHED" | "state w = CLOSE_WAIT" | "try_send_data w = []"
    by (cases "sends_data (state w)") (auto simp: sends_data_iff try_send_data_def)
  then show ?thesis
  proof cases
    case 1
    obtain A F where buf: "ring_contents (send_buffer w) = drop A (written g)"
      and A: "A \<le> length (written g)" and F: "F \<le> qsize (send_buffer w)"
      and un: "send_unack (swnd w) = own_isn g + 1 + of_nat A"
      and nx: "send_next (swnd w) = send_unack (swnd w) + of_nat F"
      using slidingE [OF stream_inv_sliding [OF w 1]] by (metis length_ring_contents)
    have F32: "unat (of_nat F :: u32) = F"
      using w F by (auto simp: stream_inv_def base_inv_def base_ok_def intro: small_flight)
    obtain n where data: "try_send_data w = take n (drop F (drop A (written g)))"
      using 1 nx F32 buf by (simp add: try_send_data_def sends_data_iff Let_def)
    let ?d = "try_send_data w"
    have "in_place (own_isn g) (written g) (send_next (swnd w)) ?d"
      unfolding in_place_def nx un data
      by (rule exI [of _ "A + F"]) (simp add: take_is_prefix add.commute add.left_commute)
    then have "emits (genuine g (past (state w))) ?w"
      using w by (auto simp: stream_inv_def intro!: emits_payload genuine_data)
    moreover have "F + length ?d \<le> length (drop A (written g))"
      using F buf by (simp add: data qsize_length)
    moreover have "send_next (swnd ?w) = send_unack (swnd w) + of_nat (F + length ?d)"
      by (simp add: nx)
    ultimately have "sliding g (ring_contents (send_buffer ?w)) (send_unack (swnd ?w)) (send_next (swnd ?w))"
      by (intro slidingI [of _ A _ "F + length ?d"]) (use buf A un in simp_all)
    then show ?thesis
      using w 1 b \<open>emits _ ?w\<close> unfolding stream_inv_def snd_ok_def by simp
  next
    case 2
    have "peer_fin g"
      using w 2 by (simp add: stream_inv_def snd_ok_def)
    then have "emits (genuine g (past (state w))) ?w"
      using w by (auto simp: stream_inv_def intro!: emits_payload genuine_data)
    then show ?thesis
      using w 2 b by (simp add: stream_inv_def snd_ok_def)
  qed (use w in simp)
qed

lemma stream_inv_handle_try_send:
  "stream_inv e g w \<Longrightarrow> returns (stream_inv e g) (handle_try_send e' w)"
  using stream_inv_try_send [of e g w e']
  by (simp add: handle_try_send_eq stream_inv_def)

lemma accepted_eq:
  assumes "base_inv w"
  shows "accepted e (Ev_send data) w = queue_bytes data w"
  using assms by (simp add: accepted_def send_eq) (simp add: queue_bytes_def min_def)

lemma accepted_other [simp]:
  "accepted e Ev_connect w = []" "accepted e Ev_listen w = []" "accepted e Ev_close w = []"
  "accepted e (Ev_recv n) w = []" "accepted e Ev_read_all w = []" "accepted e (Ev_input p) w = []"
  "accepted e (Ev_timer h) w = []"
  by (simp_all add: accepted_def)

lemma queued_contents:
  assumes "base_inv w"
  shows "ring_contents (send_buffer (queued data w)) = ring_contents (send_buffer w) @ queue_bytes data w"
proof -
  have ok: "ring_ok (send_buffer w)"
    using assms by (simp add: base_inv_def base_ok_def)
  have "length (ring_contents (send_buffer w)) + length (queue_bytes data w) \<le> capacity (send_buffer w)"
    using ring_ok_bound [OF ok] by (simp add: queue_bytes_def)
  then show ?thesis
    using rq.law_put_fits [OF ok] by (simp add: queued_def)
qed

lemma stream_inv_queued:
  assumes w: "stream_inv e g w"
  shows "stream_inv e (g\<lparr>written := written g @ queue_bytes data w\<rparr>) (queued data w)"
proof -
  let ?g = "g\<lparr>written := written g @ queue_bytes data w\<rparr>" and ?w = "queued data w"
  have base: "base_inv w"
    using w by (simp add: stream_inv_def)
  have "emits (genuine ?g (past (state w))) w"
    using w unfolding stream_inv_def
    by (elim conjE emits_mono) (auto elim!: genuine_mono [where V = "queue_bytes data w"])
  then have "emits (genuine ?g (past (state w))) ?w"
    by (simp add: queued_def)
  then show ?thesis
    using w base_inv_queued [OF base, of data]
    unfolding stream_inv_def snd_ok_def rcv_ok_def queued_contents [OF base]
    by (cases "state w") (auto simp: queued_def sliding_append)
qed

section \<open>Acknowledgements and data in an established session\<close>

definition established_inv :: "env \<Rightarrow> ghost \<Rightarrow> world \<Rightarrow> bool" where
  "established_inv e g w \<longleftrightarrow> stream_inv e g w \<and> state w = ESTABLISHED"

lemma ack_in_flight:
  fixes ack un :: u32
  assumes "un < ack" and "ack \<le> un + of_nat F" and "unat (of_nat F :: u32) = F"
  shows "unat (ack - un) \<le> F"
  using assms by unat_arith

lemma sliding_ack:
  assumes s: "sliding g buf un nx" and ack: "un < ack" "ack \<le> nx" and small: "length buf \<le> 1024"
  shows "sliding g (drop (unat (ack - un)) buf) ack nx"
proof -
  obtain A F where A: "A \<le> length (written g)" and buf: "buf = drop A (written g)"
    and F: "F \<le> length buf" and un: "un = own_isn g + 1 + of_nat A" and nx: "nx = un + of_nat F"
    using s by (rule slidingE)
  let ?n = "unat (ack - un)"
  have "unat (of_nat F :: u32) = F"
    using F small by (simp add: unat_of_nat)
  then have n: "?n \<le> F"
    using ack nx ack_in_flight by blast
  then have "nx = ack + of_nat (F - ?n)"
    by (simp add: nx of_nat_diff)
  moreover have "ack = own_isn g + 1 + of_nat (A + ?n)"
    using un by simp
  ultimately show ?thesis
    using A buf F n by (intro slidingI [of _ "A + ?n" _ "F - ?n"]) (simp_all add: add.commute)
qed

lemma accept_ack_fields [simp]:
  "send_unack (swnd (accept_ack a w)) = a" "send_next (swnd (accept_ack a w)) = send_next (swnd w)"
  "recv_buffer (accept_ack a w) = recv_buffer w" "rwnd (accept_ack a w) = rwnd w"
  "iss_calls (accept_ack a w) = iss_calls w" "dup_ack_count (accept_ack a w) = dup_ack_count w"
  "last_ack_received (accept_ack a w) = last_ack_received w"
  "send_buffer (accept_ack a w) = pop_front (unat (a - send_unack (swnd w))) (send_buffer w)"
  by (simp_all add: accept_ack_def Let_def)

lemma count_dup_fields [simp]:
  "swnd (count_dup_ack a w) = swnd w" "send_buffer (count_dup_ack a w) = send_buffer w"
  "recv_buffer (count_dup_ack a w) = recv_buffer w" "rwnd (count_dup_ack a w) = rwnd w"
  "iss_calls (count_dup_ack a w) = iss_calls w"
  by (simp_all add: count_dup_ack_def)

text \<open>The third duplicate is never counted: an accepted acknowledgement is a new one.\<close>

lemma count_dup_bound:
  assumes "dup_ack_count w = 0 \<or> dup_ack_count w = 1 \<and> last_ack_received w \<le> un" and "un < a"
  shows "dup_ack_count (count_dup_ack a w) = 0
    \<or> dup_ack_count (count_dup_ack a w) = 1 \<and> last_ack_received (count_dup_ack a w) \<le> a"
  using assms by (auto simp: count_dup_ack_def)

lemma established_accept_ack:
  assumes w: "established_inv e g w" and a: "ack_acceptable a w"
  shows "established_inv e g (count_dup_ack a (accept_ack a w))"
    and "dup_ack_count (count_dup_ack a (accept_ack a w)) \<noteq> 3"
proof -
  let ?w = "count_dup_ack a (accept_ack a w)"
  have inv: "stream_inv e g w" and st: "state w = ESTABLISHED"
    using w by (simp_all add: established_inv_def)
  then have base: "base_inv w"
    by (simp add: stream_inv_def)
  then have b: "base_inv ?w"
    by (simp add: base_inv_accept_ack)
  have ok: "ring_ok (send_buffer w)" and cap: "qsize (send_buffer w) \<le> 1024"
    using base ring_ok_bound [of "send_buffer w"] by (auto simp: base_inv_def base_ok_def)
  have un: "send_unack (swnd w) < a" and nx: "a \<le> send_next (swnd w)"
    using a by (simp_all add: ack_acceptable_def)
  have sl: "sliding g (ring_contents (send_buffer ?w)) a (send_next (swnd w))"
    using sliding_ack [OF stream_inv_sliding [OF inv st] un nx] cap
    by (simp add: pop_front_contents [OF ok])
  have d: "dup_ack_count (accept_ack a w) = 0
      \<or> dup_ack_count (accept_ack a w) = 1 \<and> last_ack_received (accept_ack a w) \<le> send_unack (swnd w)"
    using inv st by (simp add: stream_inv_def snd_ok_def)
  from count_dup_bound [OF this un] show "dup_ack_count ?w \<noteq> 3"
    by auto
  from inv st have "emits (genuine g (past (state w))) ?w"
    by (simp add: stream_inv_def emits_timers)
  then show "established_inv e g ?w"
    using inv st b sl count_dup_bound [OF d un]
    unfolding established_inv_def stream_inv_def snd_ok_def by simp
qed

lemma established_try_send:
  "established_inv e g w \<Longrightarrow> returns (established_inv e g) (handle_try_send e' w)"
  using stream_inv_try_send [of e g w e'] handle_try_send_eq [OF stream_inv_base, of e g w e']
  by (simp add: established_inv_def)

lemma established_handle_ack:
  assumes "established_inv e g w"
  shows "returns (\<lambda>(_, w). established_inv e g w) (handle_ack e' p w)"
proof (cases "ack_acceptable (ntohl (ack_num (header p))) w")
  case True
  let ?w = "grow_cwnd (count_dup_ack (ntohl (ack_num (header p))) (accept_ack (ntohl (ack_num (header p))) w))"
  have "established_inv e g ?w"
    using established_accept_ack(1) [OF assms True] by (simp add: established_inv_def stream_inv_frame)
  from established_try_send [OF this, of e'] show ?thesis
    using established_accept_ack(2) [OF assms True] True
    by (auto simp: handle_ack_def Let_def react_dup_ack_def returns_def)
qed (use assms in \<open>simp add: handle_ack_def Let_def\<close>)

text \<open>Data that is next in order extends what was received, within the peer's stream.\<close>

lemma in_place_next:
  assumes pre: "prefix received stream" and place: "in_place isn stream seq data" and ne: "data \<noteq> []"
    and seq: "seq = isn + 1 + of_nat (length received)" and short: "length stream < 2 ^ 32"
  shows "prefix (received @ data) stream"
proof -
  obtain k where k: "seq = isn + 1 + of_nat k" and d: "prefix data (drop k stream)"
    using place by (auto simp: in_place_def)
  have "k < length stream"
    using d ne by (metis drop_all not_less prefix_Nil)
  moreover have "length received \<le> length stream"
    using pre by (rule prefix_length_le)
  moreover have "(of_nat k :: u32) = of_nat (length received)"
    using k seq by simp
  ultimately have "k = length received"
    using short by (simp add: word_of_nat_eq_iff take_bit_nat_eq_self_iff [THEN iffD2])
  moreover have "stream = received @ drop (length received) stream"
    using pre by (metis append_eq_conv_conj prefix_def)
  ultimately show ?thesis
    using d by (metis same_prefix_prefix)
qed

lemma established_incoming:
  assumes w: "established_inv e g w" and short: "length (incoming g) < 2 ^ 32"
    and p: "of_packet (acceptable g ESTABLISHED) p" and ne: "payload p \<noteq> []"
  shows "returns (\<lambda>(_, w). established_inv e g w) (handle_incoming_packet e' p w)"
proof -
  let ?w = "accept_in_order (payload p) w"
  have base: "base_inv w" and st: "state w = ESTABLISHED" and inv: "stream_inv e g w"
    using w unfolding established_inv_def stream_inv_def by blast+
  have "established_inv e g ?w" if seq: "ntohl (seq_num (header p)) = recv_next (rwnd w)"
  proof (cases "fst (push_batch (payload p) (recv_buffer w))")
    case True
    let ?r = "delivered g @ ring_contents (recv_buffer w)"
    have ok: "ring_ok (recv_buffer w)"
      using base by (simp add: base_inv_def base_ok_def)
    have "rcv_ok g ESTABLISHED (ring_contents (recv_buffer w)) (recv_next (rwnd w))"
      using inv st by (simp add: stream_inv_def)
    then have pre: "prefix ?r (incoming g)" and nx: "recv_next (rwnd w) = peer_isn g + 1 + of_nat (length ?r)"
      by (simp_all add: rcv_ok_def Let_def)
    have "in_place (peer_isn g) (incoming g) (recv_next (rwnd w)) (payload p)"
      using p ne seq by (simp add: of_packet_def acceptable_def past_def)
    from in_place_next [OF pre this ne nx short]
    have "rcv_ok g ESTABLISHED (ring_contents (recv_buffer ?w)) (recv_next (rwnd ?w))"
      using True rq.put_contents [OF ok, of "payload p"] nx
      by (simp add: rcv_ok_def Let_def accept_in_order_eq)
    then show ?thesis
      using inv st base_inv_accept_in_order [OF base, of "payload p"] True
      unfolding established_inv_def stream_inv_def
      by (simp add: accept_in_order_eq emits_def)
  qed (use w in \<open>simp add: accept_in_order_eq\<close>)
  then show ?thesis
    using w by (auto simp: handle_incoming_eq [OF base] Let_def established_inv_def stream_inv_pure_ack)
qed

section \<open>The past states\<close>

lemma stream_inv_past_eq:
  "past (state w) \<Longrightarrow>
     stream_inv e g w \<longleftrightarrow> base_inv w \<and> (state w = CLOSE_WAIT \<longrightarrow> peer_fin g)
       \<and> prefix (delivered g @ ring_contents (recv_buffer w)) (incoming g) \<and> emits (genuine g True) w"
  by (cases "state w") (auto simp: stream_inv_def snd_ok_def rcv_ok_def past_def)

lemma past_states [simp]:
  "past FIN_WAIT_1" "past FIN_WAIT_2" "past CLOSE_WAIT" "past LAST_ACK" "past TIME_WAIT" "past CLOSED"
  "\<not> past LISTEN" "\<not> past SYN_SENT" "\<not> past SYN_RECEIVED" "\<not> past ESTABLISHED"
  by (simp_all add: past_def)

lemma stream_inv_leaves:
  assumes w: "stream_inv e g w"
  shows "emits (genuine g True) w" and "prefix (delivered g @ ring_contents (recv_buffer w)) (incoming g)"
proof -
  have "emits (genuine g (past (state w))) w"
    using w by (simp add: stream_inv_def)
  then show "emits (genuine g True) w"
    by (rule emits_mono) (erule genuine_mono [where V = "[]"], auto)
  show "prefix (delivered g @ ring_contents (recv_buffer w)) (incoming g)"
    using w by (simp add: stream_inv_def rcv_ok_def Let_def)
qed

lemma stream_inv_transition:
  "stream_inv e g w \<Longrightarrow> past s \<Longrightarrow> s = CLOSE_WAIT \<longrightarrow> peer_fin g \<Longrightarrow> stream_inv e g (transition_to s w)"
  using stream_inv_leaves [of e g w]
  by (simp add: stream_inv_past_eq stream_inv_base) (simp add: transition_to_def)

lemma stream_inv_take_fin:
  assumes w: "stream_inv e g w" and s: "past s" "s = CLOSE_WAIT \<longrightarrow> peer_fin g"
  shows "stream_inv e g (transition_to s (send_pure_ack e' a (w\<lparr>rwnd := (rwnd w)\<lparr>recv_next := x\<rparr>\<rparr>)))"
  using s stream_inv_leaves [OF w] stream_inv_base [OF w]
  by (simp add: stream_inv_past_eq emits_pure_ack) (simp add: transition_to_def)

lemma stream_inv_send_fin:
  assumes "stream_inv e g w" and "past (state w)" and "fl = FLAG_FIN \<or> fl = FLAG_FIN OR FLAG_ACK"
  shows "stream_inv e g (send_control_packet e' fl w)"
  using assms by (auto simp: stream_inv_past_eq base_inv_control intro!: emits_control)

lemma stream_inv_swnd_past:
  "past (state w) \<Longrightarrow> stream_inv e g (w\<lparr>swnd := x\<rparr>) = stream_inv e g w"
  by (simp add: stream_inv_past_eq)

lemma stream_inv_tmgr:
  assumes "stream_inv e g w" and "base_inv (w\<lparr>tmgr := tm\<rparr>)" and "\<And>G. emits G w \<Longrightarrow> emits G (w\<lparr>tmgr := tm\<rparr>)"
  shows "stream_inv e g (w\<lparr>tmgr := tm\<rparr>)"
  using assms by (simp add: stream_inv_def)

lemma stream_inv_two_msl:
  assumes "stream_inv e g w"
  shows "stream_inv e g (start_2msl_timer w)"
    and "stream_inv e g (w\<lparr>tmgr := uv_request (Uv_timer_stop Two_msl) (tmgr w)\<rparr>)"
proof -
  have base: "base_inv (w\<lparr>tmgr := uv_request (Uv_timer_start Two_msl On_2msl (2 * 60 * 1000)) (tmgr w)\<rparr>)"
      "base_inv (w\<lparr>tmgr := uv_request (Uv_timer_stop Two_msl) (tmgr w)\<rparr>)"
    using stream_inv_base [OF assms] unfolding base_inv_def by (simp_all add: base_ok_two_msl)
  show "stream_inv e g (start_2msl_timer w)"
    unfolding start_2msl_timer_def
    by (rule stream_inv_tmgr [OF assms base(1)]) (rule emits_timers(3) [unfolded start_2msl_timer_def])
  show "stream_inv e g (w\<lparr>tmgr := uv_request (Uv_timer_stop Two_msl) (tmgr w)\<rparr>)"
    by (rule stream_inv_tmgr [OF assms base(2)]) (rule emits_timers(5))
qed

section \<open>The handlers\<close>

lemma stream_inv_env:
  assumes "quiet_env e"
  shows "stream_inv e' g w \<Longrightarrow> returns (stream_inv e' g) (call_if_set (on_established_cb e) w)"
    and "stream_inv e' g w \<Longrightarrow> returns (stream_inv e' g) (call_if_set (on_closed_cb e) w)"
    and "stream_inv e' g w \<Longrightarrow>
      returns (stream_inv e' g) (call_if_set (map_option (\<lambda>cb. cb n) (on_data_cb e)) w)"
  using assms
  by (auto intro!: call_if_set_keeps quiet_keeps simp: quiet_env_def stream_inv_frame)

lemma stream_handle_fin_wait_1:
  assumes w: "stream_inv e g w" "state w = FIN_WAIT_1" and fin: "has_flag p FLAG_FIN \<longrightarrow> peer_fin g"
  shows "stream_inv e g (handle_fin_wait_1 e' p w)"
proof -
  define w1 where "w1 = (if has_flag p FLAG_ACK \<and> ntohl (ack_num (header p)) = send_unack (swnd w) + 1
    then w\<lparr>state := FIN_WAIT_2, swnd := (swnd w)\<lparr>send_unack := send_unack (swnd w) + 1\<rparr>,
           tmgr := stop_timer (send_unack (swnd w)) (tmgr w)\<rparr> else w)"
  let ?w = "(transition_to FIN_WAIT_2 w)\<lparr>swnd := (swnd w)\<lparr>send_unack := send_unack (swnd w) + 1\<rparr>\<rparr>"
  have "stream_inv e g ?w"
    using w by (simp add: stream_inv_swnd_past stream_inv_transition)
  from stream_inv_timer(1) [OF this, of "send_unack (swnd w)"]
  have "stream_inv e g w1"
    using w by (simp add: w1_def transition_to_def)
  moreover have "handle_fin_wait_1 e' p w = (if has_flag p FLAG_FIN
      then transition_to CLOSE_WAIT (send_pure_ack e' (ntohl (seq_num (header p)) + 1)
             (w1\<lparr>rwnd := (rwnd w1)\<lparr>recv_next := ntohl (seq_num (header p)) + 1\<rparr>\<rparr>))
      else w1)"
    by (simp add: handle_fin_wait_1_def w1_def Let_def transition_to_def)
  ultimately show ?thesis
    using fin by (simp add: stream_inv_take_fin)
qed

lemma stream_handle_fin_wait_2:
  "stream_inv e g w \<Longrightarrow> stream_inv e g (handle_fin_wait_2 e' p w)"
  by (auto simp: handle_fin_wait_2_def Let_def intro!: stream_inv_two_msl stream_inv_take_fin)

lemma stream_handle_timed_wait:
  "stream_inv e g w \<Longrightarrow> state w = TIME_WAIT \<Longrightarrow> stream_inv e g (handle_timed_wait e' p w)"
  by (auto simp: handle_timed_wait_def Let_def stream_inv_past_eq intro!: emits_pure_ack)

lemma stream_handle_close_wait:
  assumes w: "stream_inv e g w" "state w = CLOSE_WAIT"
  shows "returns (stream_inv e g) (handle_close_wait e' p w)"
  unfolding handle_close_wait_def Let_def
proof (rule returns_bind)
  let ?P = "\<lambda>w. stream_inv e g w \<and> state w = CLOSE_WAIT"
  have w1: "?P (send_pure_ack e' (recv_next (rwnd w)) w)"
    using w by (simp add: stream_inv_pure_ack)
  then show "returns ?P (handle_try_send e' (send_pure_ack e' (recv_next (rwnd w)) w))"
    using stream_inv_try_send [OF w1 [THEN conjunct1], of e']
      handle_try_send_eq [OF stream_inv_base [OF w1 [THEN conjunct1]], of e']
    by simp
qed (auto intro!: stream_inv_transition stream_inv_send_fin stream_inv_timer simp: stream_inv_swnd_past)

lemma stream_handle_last_ack:
  assumes q: "quiet_env e'" and w: "stream_inv e g w" "state w = LAST_ACK"
  shows "returns (stream_inv e g) (handle_last_ack e' p w)"
  using w stream_inv_timer(1) [of e g "w\<lparr>swnd := (swnd w)\<lparr>send_unack := a\<rparr>\<rparr>" for a]
  by (auto simp: handle_last_ack_def Let_def stream_inv_swnd_past
      intro!: stream_inv_env [OF q] stream_inv_transition)

lemma stream_handle_reset:
  "quiet_env e' \<Longrightarrow> stream_inv e g w \<Longrightarrow> returns (stream_inv e g) (handle_reset e' w)"
  by (auto simp: handle_reset_def Let_def intro!: stream_inv_env stream_inv_transition stream_inv_timer)

lemma stream_handle_2msl:
  assumes "quiet_env e'" and "stream_inv e g w"
  shows "returns (stream_inv e g) (handle_2msl_timeout e' w)"
  using assms stream_inv_transition [OF assms(2), of CLOSED] unfolding handle_2msl_timeout_def Let_def
  by (auto intro!: stream_inv_env stream_inv_two_msl)

text \<open>The opening handlers, for packets that the peer may have sent.\<close>

lemma control_send_next:
  "send_next (swnd (send_control_packet e fl w)) = send_next (swnd w)
     + (if fl AND FLAG_SYN \<noteq> 0 \<or> fl AND FLAG_FIN \<noteq> 0 then 1 else 0)"
  by (simp add: send_control_packet_def Let_def has_flag_def make_header_def)

lemma stream_handle_listen:
  assumes w: "stream_inv e g w" "state w = LISTEN" and p: "of_packet (acceptable g LISTEN) p"
  shows "stream_inv e g (handle_listen e p w)"
proof (cases "has_flag p FLAG_SYN")
  case True
  let ?w = "transition_to SYN_RECEIVED (w\<lparr>iss_calls := iss_calls w + 1,
      swnd := (swnd w)\<lparr>send_next := own_isn g, send_unack := own_isn g\<rparr>,
      rwnd := (rwnd w)\<lparr>recv_next := peer_isn g + 1\<rparr>\<rparr>)"
  have isn: "ntohl (seq_num (header p)) = peer_isn g"
    using p True by (simp add: of_packet_def acceptable_def has_flag_def)
  have buf: "ring_contents (send_buffer w) = written g" and gen: "gen_initial_seq e (iss_calls w) = own_isn g"
    and d: "dup_ack_count w = 0" and r: "delivered g @ ring_contents (recv_buffer w) = []"
    using w by (simp_all add: stream_inv_def snd_ok_def rcv_ok_def Let_def)
  have z: "delivered g = []" "qsize (recv_buffer w) = 0"
    using r by (auto simp: qsize_length)
  have base: "base_inv (send_control_packet e (FLAG_SYN OR FLAG_ACK) ?w)"
    using stream_inv_base [OF w(1)] by (intro base_inv_control) (simp add: base_inv_def transition_to_def)
  have "emits (genuine g False) ?w"
    using w by (simp add: stream_inv_def)
  from emits_control [OF this, of "FLAG_SYN OR FLAG_ACK" e]
  have "emits (genuine g False) (send_control_packet e (FLAG_SYN OR FLAG_ACK) ?w)"
    by (simp add: transition_to_def)
  then show ?thesis
    using True isn buf gen d z base r
    by (simp add: handle_listen_def Let_def stream_inv_def snd_ok_def rcv_ok_def)
      (simp add: transition_to_def)
qed (use w in \<open>simp add: handle_listen_def\<close>)

lemma established_after_handshake:
  assumes q: "quiet_env e'" and w: "established_inv e g w"
  shows "returns (stream_inv e g) (bind_res (call_if_set (on_established_cb e') w) (handle_try_send e'))"
  using w
  by (intro returns_bind [OF stream_inv_env(1) [OF q]] stream_inv_handle_try_send)
    (simp_all add: established_inv_def)

lemma sliding_start: "sliding g (written g) (own_isn g + 1) (own_isn g + 1)"
  by (rule slidingI [of _ 0 _ 0]) simp_all

lemma stream_handle_syn_sent:
  assumes q: "quiet_env e'" and w: "stream_inv e g w" "state w = SYN_SENT"
    and p: "of_packet (acceptable g SYN_SENT) p"
  shows "returns (stream_inv e g) (handle_syn_sent e' p w)"
proof -
  let ?w = "transition_to ESTABLISHED (send_pure_ack e' (peer_isn g + 1)
      (w\<lparr>rwnd := (rwnd w)\<lparr>recv_next := peer_isn g + 1\<rparr>, swnd := (swnd w)\<lparr>send_unack := own_isn g + 1\<rparr>,
         tmgr := stop_timer (own_isn g) (tmgr w)\<rparr>))"
  have role: "\<not> is_server g" and buf: "ring_contents (send_buffer w) = written g"
    and un: "send_unack (swnd w) = own_isn g" and nx: "send_next (swnd w) = own_isn g + 1"
    and d: "dup_ack_count w = 0" and r: "delivered g @ ring_contents (recv_buffer w) = []"
    using w by (simp_all add: stream_inv_def snd_ok_def rcv_ok_def Let_def)
  have z: "delivered g = []" "qsize (recv_buffer w) = 0"
    using r by (auto simp: qsize_length)
  have syn: "ntohl (seq_num (header p)) = peer_isn g" "has_flag p FLAG_ACK" if "has_flag p FLAG_SYN"
    using p role that by (simp_all add: of_packet_def acceptable_def has_flag_def)
  have "base_inv (w\<lparr>tmgr := stop_timer (own_isn g) (tmgr w)\<rparr>)"
    using stream_inv_base [OF w(1)] by (rule base_inv_stop)
  then have base: "base_inv ?w"
    by (simp add: base_inv_def transition_to_def send_pure_ack_def Let_def)
  have "emits (genuine g False) (w\<lparr>tmgr := stop_timer (own_isn g) (tmgr w)\<rparr>)"
    using w by (simp add: stream_inv_def emits_timers)
  then have "emits (genuine g False) (w\<lparr>rwnd := (rwnd w)\<lparr>recv_next := peer_isn g + 1\<rparr>,
      swnd := (swnd w)\<lparr>send_unack := own_isn g + 1\<rparr>, tmgr := stop_timer (own_isn g) (tmgr w)\<rparr>)"
    by (simp add: emits_def)
  then have "emits (genuine g False) ?w"
    by (simp add: emits_pure_ack)
  then have "established_inv e g ?w"
    using base buf nx d z r sliding_start [of g]
    by (simp add: established_inv_def stream_inv_def snd_ok_def rcv_ok_def)
      (simp add: transition_to_def)
  from established_after_handshake [OF q this] show ?thesis
    using w(1) un syn by (auto simp: handle_syn_sent_def Let_def)
qed

lemma stream_handle_syn_received:
  assumes q: "quiet_env e'" and w: "stream_inv e g w" "state w = SYN_RECEIVED"
  shows "returns (stream_inv e g) (handle_syn_received e' p w)"
proof -
  let ?w = "transition_to ESTABLISHED (w\<lparr>swnd := (swnd w)\<lparr>send_unack := own_isn g + 1\<rparr>,
      tmgr := stop_timer (own_isn g) (tmgr w)\<rparr>)"
  have buf: "ring_contents (send_buffer w) = written g"
    and un: "send_unack (swnd w) = own_isn g" and nx: "send_next (swnd w) = own_isn g + 1"
    and d: "dup_ack_count w = 0" and r: "rcv_ok g ESTABLISHED (ring_contents (recv_buffer w)) (recv_next (rwnd w))"
    using w by (simp_all add: stream_inv_def snd_ok_def rcv_ok_def Let_def)
  have "base_inv (w\<lparr>tmgr := stop_timer (own_isn g) (tmgr w)\<rparr>)"
    using stream_inv_base [OF w(1)] by (rule base_inv_stop)
  then have base: "base_inv ?w"
    by (simp add: base_inv_def transition_to_def)
  have "emits (genuine g False) (w\<lparr>tmgr := stop_timer (own_isn g) (tmgr w)\<rparr>)"
    using w by (simp add: stream_inv_def emits_timers)
  then have "emits (genuine g False) ?w"
    by (simp add: emits_def transition_to_def)
  then have "established_inv e g ?w"
    using base buf nx d r sliding_start [of g]
    by (simp add: established_inv_def stream_inv_def snd_ok_def)
      (simp add: transition_to_def)
  from established_after_handshake [OF q this] show ?thesis
    using w(1) un by (auto simp: handle_syn_received_def Let_def)
qed

lemma stream_handle_established:
  assumes q: "quiet_env e'" and w: "stream_inv e g w" "state w = ESTABLISHED"
    and short: "length (incoming g) < 2 ^ 32" and p: "of_packet (acceptable g ESTABLISHED) p"
    and fin: "has_flag p FLAG_FIN \<longrightarrow> peer_fin g"
  shows "returns (stream_inv e g) (handle_established e' p w)"
  unfolding handle_established_def
proof (intro returns_bind)
  have w': "established_inv e g w"
    using w by (simp add: established_inv_def)
  then show "returns (established_inv e g) (if has_flag p FLAG_ACK
      then bind_res (handle_ack e' p w) (\<lambda>(_, w). handle_try_send e' w) else Inr w)"
    by (auto intro!: returns_bind [OF established_handle_ack [OF w']] established_try_send)
next
  fix w1
  assume w1: "established_inv e g w1"
  have data: "returns (established_inv e g) (call_if_set (map_option (\<lambda>cb. cb n) (on_data_cb e')) w)"
    if "established_inv e g w" for n w
    using q that by (auto intro!: call_if_set_keeps quiet_keeps
        simp: quiet_env_def established_inv_def stream_inv_frame)
  show "returns (established_inv e g) (if payload p \<noteq> []
      then bind_res (handle_incoming_packet e' p w1) (\<lambda>(is_order, w).
        if is_order then call_if_set (map_option (\<lambda>cb. cb (available w)) (on_data_cb e')) w else Inr w)
      else Inr w1)"
    using w1 by (auto intro!: returns_bind [OF established_incoming [OF w1 short p]] data)
next
  fix w2
  assume "established_inv e g w2"
  then show "returns (stream_inv e g) (if has_flag p FLAG_FIN
      then let w = w2\<lparr>rwnd := (rwnd w2)\<lparr>recv_next := ntohl (seq_num (header p)) + 1\<rparr>\<rparr>;
               w = send_pure_ack e' (recv_next (rwnd w)) w;
               w = transition_to CLOSE_WAIT w
           in call_if_set (map_option (\<lambda>cb. cb 0) (on_data_cb e')) w
      else Inr w2)"
    using fin by (auto simp: Let_def established_inv_def intro!: stream_inv_env(3) [OF q] stream_inv_take_fin)
qed

lemma stream_input:
  assumes q: "quiet_env e'" and w: "stream_inv e' g w" and short: "length (incoming g) < 2 ^ 32"
    and p: "of_packet (acceptable g (state w)) p" and fin: "has_flag p FLAG_FIN \<longrightarrow> peer_fin g"
  shows "returns (stream_inv e' g) (input e' p w)"
proof -
  let ?w = "w\<lparr>peer_usable_window_size := ucast (ntohs (window_size (header p)))\<rparr>"
  have w': "stream_inv e' g ?w"
    using w by (simp add: stream_inv_frame)
  have "returns (stream_inv e' g)
     (case state w of
        CLOSED \<Rightarrow> Inr (?w\<lparr>user_want_to_close := False\<rparr>)
      | LISTEN \<Rightarrow> Inr (handle_listen e' p ?w)
      | SYN_SENT \<Rightarrow> handle_syn_sent e' p ?w
      | SYN_RECEIVED \<Rightarrow> handle_syn_received e' p ?w
      | ESTABLISHED \<Rightarrow> handle_established e' p ?w
      | FIN_WAIT_1 \<Rightarrow> Inr (handle_fin_wait_1 e' p ?w)
      | FIN_WAIT_2 \<Rightarrow> Inr (handle_fin_wait_2 e' p ?w)
      | CLOSE_WAIT \<Rightarrow> handle_close_wait e' p ?w
      | LAST_ACK \<Rightarrow> handle_last_ack e' p ?w
      | TIME_WAIT \<Rightarrow> Inr (handle_timed_wait e' p ?w))"
    using w' p fin
    by (cases "state w")
      (simp_all add: stream_inv_frame stream_handle_listen stream_handle_syn_sent [OF q]
        stream_handle_syn_received [OF q] stream_handle_established [OF q _ _ short]
        stream_handle_fin_wait_1 stream_handle_fin_wait_2 stream_handle_close_wait
        stream_handle_last_ack [OF q] stream_handle_timed_wait)
  then show ?thesis
    using w stream_handle_reset [OF q w] by (simp add: input_def Let_def)
qed

section \<open>The application's calls and the timers\<close>

lemma stream_active_close:
  "stream_inv e g w \<Longrightarrow> stream_inv e g (send_control_packet e' FLAG_FIN
     (transition_to FIN_WAIT_1 (w\<lparr>tmgr := stop_all_timers (tmgr w)\<rparr>)))"
  by (auto intro!: stream_inv_send_fin stream_inv_transition stream_inv_timer)

lemma stream_passive_close:
  "stream_inv e g w \<Longrightarrow> stream_inv e g (send_control_packet e' (FLAG_FIN OR FLAG_ACK) (transition_to LAST_ACK w))"
  by (auto intro!: stream_inv_send_fin stream_inv_transition)

lemma stream_abort:
  assumes w: "stream_inv e g w"
  shows "stream_inv e g (transition_to CLOSED ((send_control_packet e' FLAG_RST w)
      \<lparr>tmgr := stop_all_timers (tmgr (send_control_packet e' FLAG_RST w))\<rparr>))"
  using stream_inv_leaves [OF w] stream_inv_base [OF w]
  by (simp add: stream_inv_past_eq base_inv_stop_all base_inv_control emits_timers emits_control)
    (simp add: transition_to_def)

lemma stream_close:
  assumes w: "stream_inv e g w"
  shows "returns (stream_inv e g) (close e' w)"
proof (cases "state w = ESTABLISHED")
  case True
  then show ?thesis
    unfolding close_def Let_def
    by simp (rule returns_bind [OF stream_inv_handle_try_send [OF w]],
      simp add: stream_inv_frame stream_active_close)
next
  case False
  then show ?thesis
    using w stream_passive_close [OF w, of e'] stream_abort [OF w, of e']
    by (simp add: close_def Let_def stream_inv_frame)
qed

lemma stream_auto_close: "stream_inv e g w \<Longrightarrow> returns (stream_inv e g) (auto_close e' w)"
  by (simp add: auto_close_def stream_close)

text \<open>Reading moves bytes from the receive buffer to the application.\<close>

lemma stream_reading:
  assumes w: "stream_inv e g w" and n: "n \<le> qsize (recv_buffer w)"
  shows "stream_inv e (g\<lparr>delivered := delivered g @ fst (read_loop front pop_front n (recv_buffer w))\<rparr>)
     (w\<lparr>recv_buffer := snd (read_loop front pop_front n (recv_buffer w))\<rparr>)"
proof -
  let ?r = "read_loop front pop_front n (recv_buffer w)"
  let ?g = "g\<lparr>delivered := delivered g @ fst ?r\<rparr>"
  have ok: "ring_ok (recv_buffer w)"
    using stream_inv_base [OF w] by (simp add: base_inv_def base_ok_def)
  have "fst ?r @ ring_contents (snd ?r) = ring_contents (recv_buffer w)"
    using rq.read_loop_take [OF ok, of n] n by simp
  then have "rcv_ok ?g s (ring_contents (snd ?r)) nx = rcv_ok g s (ring_contents (recv_buffer w)) nx" for s nx
    by (simp add: rcv_ok_def Let_def)
  moreover have "emits (genuine ?g (past (state w))) w"
    using w unfolding stream_inv_def
    by (elim conjE emits_mono) (auto elim!: genuine_mono [where V = "[]"])
  moreover have "snd_ok gen ?g s b un nx c d l = snd_ok gen g s b un nx c d l" for gen s b un nx c d l
    by (cases s) (simp_all add: snd_ok_def)
  ultimately show ?thesis
    using w base_inv_recv_buffer [OF stream_inv_base [OF w] n] by (simp add: stream_inv_def)
qed

lemma stream_expire:
  assumes q: "quiet_env e'" and w: "stream_inv e g w"
  shows "returns (stream_inv e g) (expire e' h w)"
proof (cases "armed (tmgr w) h")
  case (Some a)
  obtain cb t where a: "a = (cb, t)"
    by (cases a)
  show ?thesis
  proof (cases cb)
    case (On_timer_uv_tick c)
    have "armed (tmgr w) h = Some (On_timer_uv_tick c, t)"
      using Some a On_timer_uv_tick by simp
    moreover have "emits (genuine g (past (state w))) w"
      using w by (simp add: stream_inv_def)
    ultimately have "emits (genuine g (past (state w))) (run_retransmit_closure e' c w)"
      by (rule emits_expiry [rotated])
    then have "stream_inv e g (run_retransmit_closure e' c w)"
      using w by (simp add: stream_inv_def run_retransmit_closure_def base_inv_retransmit)
    then show ?thesis
      using Some a On_timer_uv_tick by (simp add: expire_def)
  qed (use Some a stream_handle_2msl [OF q w] in \<open>simp add: expire_def\<close>)
qed (use w in \<open>simp add: expire_def\<close>)

section \<open>Every event\<close>

text \<open>The events considered: everything but a second opening; arriving packets are acceptable.\<close>

definition arrival_ok :: "ghost \<Rightarrow> event \<Rightarrow> world \<Rightarrow> bool" where
  "arrival_ok g ev w =
     (case ev of
        Ev_connect \<Rightarrow> False
      | Ev_listen \<Rightarrow> False
      | Ev_input p \<Rightarrow> of_packet (acceptable g (state w)) p
      | _ \<Rightarrow> True)"

lemma observe_read:
  "accepted e ev w = [] \<Longrightarrow> \<not> fin_arrives ev \<Longrightarrow> observe e ev w b g = g\<lparr>delivered := delivered g @ b\<rparr>"
  by (simp add: observe_def)

lemma observe_input: "observe e (Ev_input p) w [] g = g\<lparr>peer_fin := peer_fin g \<or> has_flag p FLAG_FIN\<rparr>"
  by (simp add: observe_def fin_arrives_def)

lemma observe_quiet: "accepted e ev w = [] \<Longrightarrow> \<not> fin_arrives ev \<Longrightarrow> observe e ev w [] g = g"
  by (simp add: observe_def)

lemma stream_step:
  assumes q: "quiet_env e" and w: "stream_inv e g w" and a: "arrival_ok g ev w"
    and short: "length (incoming g) < 2 ^ 32"
  shows "returns (\<lambda>(b, w'). stream_inv e (observe e ev w b g) w') (session_step e ev w)"
proof (cases ev)
  case (Ev_send data)
  have "stream_inv e (g\<lparr>written := written g @ queue_bytes data w\<rparr>)
      (send_payload_packet e (try_send_data (queued data w)) FLAG_ACK (queued data w))"
    by (rule stream_inv_try_send [OF stream_inv_queued [OF w]])
  then show ?thesis
    using w Ev_send accepted_eq [OF stream_inv_base [OF w], of e data]
    by (auto simp: observe_def fin_arrives_def send_eq [OF stream_inv_base [OF w]] queue_bytes_def)
next
  case (Ev_recv n)
  let ?k = "if ring_empty (recv_buffer w) then 0 else min n (qsize (recv_buffer w))"
  have "?k \<le> qsize (recv_buffer w)"
    by simp
  from stream_auto_close [OF stream_reading [OF w this]] show ?thesis
    unfolding Ev_recv session_step.simps recv_eq Let_def
    by (rule returns_bind) (simp add: observe_read fin_arrives_def)
next
  case Ev_read_all
  from stream_auto_close [OF stream_reading [OF w order_refl]] show ?thesis
    unfolding Ev_read_all session_step.simps read_all_eq Let_def
    by (rule returns_bind) (simp add: observe_read fin_arrives_def)
next
  case (Ev_input p)
  let ?g = "g\<lparr>peer_fin := peer_fin g \<or> has_flag p FLAG_FIN\<rparr>"
  have "of_packet (acceptable ?g (state w)) p"
    using a Ev_input by (simp add: arrival_ok_def of_packet_def acceptable_def)
  from stream_input [OF q stream_inv_peer_fin [OF w] _ this] short show ?thesis
    unfolding Ev_input session_step.simps
    by (intro returns_bind [where P = "stream_inv e ?g"]) (simp_all add: observe_input)
next
  case Ev_close
  show ?thesis
    unfolding Ev_close session_step.simps
    by (rule returns_bind [OF stream_close [OF w]]) (simp add: observe_quiet fin_arrives_def)
next
  case (Ev_timer h)
  show ?thesis
    unfolding Ev_timer session_step.simps
    by (rule returns_bind [OF stream_expire [OF q w]]) (simp add: observe_quiet fin_arrives_def)
qed (use a in \<open>simp_all add: arrival_ok_def\<close>)

section \<open>Opening\<close>

definition fresh_ghost :: "u32 \<Rightarrow> u32 \<Rightarrow> bool \<Rightarrow> ghost" where
  "fresh_ghost own peer server = \<lparr>own_isn = own, peer_isn = peer, is_server = server,
     written = [], incoming = [], delivered = [], peer_fin = False\<rparr>"

lemma emits_fresh:
  "udp_sends d = [] \<Longrightarrow> emits_ok G new_timer_manager d"
  by (simp add: emits_ok_def closures_def new_timer_manager_def armed_def)

lemma stream_listen:
  assumes "udp_sends d = []"
  shows "stream_inv e (fresh_ghost (gen_initial_seq e n) irs True)
     (listen (enter_world (new_session ptr i0 r0 lp rp) d n))"
  using base_inv_listen [OF base_inv_new [of ptr i0 r0 lp rp d n]] emits_fresh [OF assms]
  by (simp add: stream_inv_def)
    (simp add: listen_def enter_world_new transition_to_def snd_ok_def rcv_ok_def fresh_ghost_def
      ring_simps emits_def)

lemma stream_connect:
  assumes "udp_sends d = []"
  shows "stream_inv e (fresh_ghost (gen_initial_seq e n) irs False)
     (connect e (enter_world (new_session ptr i0 r0 lp rp) d n))"
proof -
  let ?g = "fresh_ghost (gen_initial_seq e n) irs False"
  define w0 where "w0 = enter_world (new_session ptr i0 r0 lp rp) d n"
  have f: "udp w0 = d" "iss_calls w0 = n" "tmgr w0 = new_timer_manager" "dup_ack_count w0 = 0"
      "ring_contents (send_buffer w0) = []" "ring_contents (recv_buffer w0) = []"
    by (simp_all add: w0_def enter_world_new ring_simps)
  have b: "base_inv w0"
    by (simp add: w0_def base_inv_new)
  let ?w = "(transition_to SYN_SENT w0)\<lparr>udp := set_on_receive (Session_input (self_ptr w0)) d,
      iss_calls := n + 1, swnd := (swnd w0)\<lparr>send_next := gen_initial_seq e n, send_unack := gen_initial_seq e n\<rparr>\<rparr>"
  have c: "connect e w0 = (send_control_packet e FLAG_SYN ?w)
      \<lparr>swnd := (swnd (send_control_packet e FLAG_SYN ?w))\<lparr>send_next := gen_initial_seq e n + 1\<rparr>\<rparr>"
    by (simp add: connect_def Let_def transition_to_def f)
  have "emits (genuine ?g False) ?w"
    using emits_fresh [OF assms] by (simp add: emits_def transition_to_def f)
  from emits_control [OF this, of FLAG_SYN e]
  have "emits (genuine ?g False) (send_control_packet e FLAG_SYN ?w)"
    using genuine_syn [of ?g False] by (simp add: fresh_ghost_def)
  then have "emits (genuine ?g False) (connect e w0)"
    by (simp add: c)
  moreover have "base_inv (connect e w0)"
    using b by (rule base_inv_connect)
  moreover have "state (connect e w0) = SYN_SENT" "ring_contents (send_buffer (connect e w0)) = []"
      "ring_contents (recv_buffer (connect e w0)) = []" "dup_ack_count (connect e w0) = 0"
      "send_unack (swnd (connect e w0)) = gen_initial_seq e n"
      "send_next (swnd (connect e w0)) = gen_initial_seq e n + 1"
    by (simp_all add: connect_def Let_def transition_to_def f)
  ultimately show ?thesis
    by (simp add: stream_inv_def w0_def [symmetric] snd_ok_def rcv_ok_def) (simp add: fresh_ghost_def)
qed

end
