(* ===== verification/Network.thy ===== *)
theory Network
  imports Byte_Stream
begin

text \<open>
  Two hosts, a client that connected and a server that listens, joined by a network that may
  lose, duplicate and reorder datagrams. Whatever the applications do and whatever the
  network does, what one side reads is a prefix of what the other side wrote.

  A host is one session with its driver; the network hands a datagram to the session of the
  other host whatever its destination address is. After the peer's FIN a session that closed
  first may send bytes out of place (\<open>FIN_WAIT_1\<close> moves to \<open>CLOSE_WAIT\<close>, where data is sent
  again, while its own FIN has taken a sequence number); the receiver is past taking data
  then, so the streams are not affected.
\<close>

section \<open>The network\<close>

record net =
  client :: world
  server :: world
  client_wrote :: "u8 list"
  server_wrote :: "u8 list"
  client_read :: "u8 list"
  server_read :: "u8 list"

text \<open>
  An application call or a timer at one host, or the delivery of the \<open>i\<close>-th datagram that the
  other host has sent so far (any of them, any number of times, in any order).
\<close>

datatype action = At_client event | At_server event | To_client nat | To_server nat

definition arrivals :: "nat \<Rightarrow> world \<Rightarrow> tcp_packet option" where
  "arrivals i w =
     (if i < length (udp_sends (udp w)) then parse_datagram (fst (udp_sends (udp w) ! i)) else None)"

definition client_does :: "env \<Rightarrow> event \<Rightarrow> net \<Rightarrow> net result" where
  "client_does e ev n =
     bind_res (session_step e ev (client n)) (\<lambda>(b, w).
       Inr (n\<lparr>client := w, client_wrote := client_wrote n @ accepted e ev (client n),
              client_read := client_read n @ b\<rparr>))"

definition server_does :: "env \<Rightarrow> event \<Rightarrow> net \<Rightarrow> net result" where
  "server_does e ev n =
     bind_res (session_step e ev (server n)) (\<lambda>(b, w).
       Inr (n\<lparr>server := w, server_wrote := server_wrote n @ accepted e ev (server n),
              server_read := server_read n @ b\<rparr>))"

fun net_step :: "env \<Rightarrow> env \<Rightarrow> action \<Rightarrow> net \<Rightarrow> net result" where
  "net_step ec es (At_client ev) n = client_does ec ev n"
| "net_step ec es (At_server ev) n = server_does es ev n"
| "net_step ec es (To_client i) n =
     (case arrivals i (server n) of None \<Rightarrow> Inr n | Some p \<Rightarrow> client_does ec (Ev_input p) n)"
| "net_step ec es (To_server i) n =
     (case arrivals i (client n) of None \<Rightarrow> Inr n | Some p \<Rightarrow> server_does es (Ev_input p) n)"

fun net_run :: "env \<Rightarrow> env \<Rightarrow> action list \<Rightarrow> net \<Rightarrow> net result" where
  "net_run ec es [] n = Inr n"
| "net_run ec es (a # as) n = bind_res (net_step ec es a n) (net_run ec es as)"

text \<open>Local events: packets come from the network only, and there is no second opening.\<close>

fun local_event :: "event \<Rightarrow> bool" where
  "local_event Ev_connect = False"
| "local_event Ev_listen = False"
| "local_event (Ev_input p) = False"
| "local_event _ = True"

fun action_ok :: "action \<Rightarrow> bool" where
  "action_ok (At_client ev) = local_event ev"
| "action_ok (At_server ev) = local_event ev"
| "action_ok _ = True"

text \<open>The two sessions just opened, in worlds with any drivers that have not sent anything.\<close>

definition opened :: "env \<Rightarrow> tcp_session \<Rightarrow> udp_driver \<Rightarrow> nat \<Rightarrow> tcp_session \<Rightarrow> udp_driver \<Rightarrow> nat \<Rightarrow> net" where
  "opened ec c dc nc s ds ns =
     \<lparr>client = connect ec (enter_world c dc nc), server = listen (enter_world s ds ns),
      client_wrote = [], server_wrote = [], client_read = [], server_read = []\<rparr>"

section \<open>The invariant\<close>

definition paired :: "ghost \<Rightarrow> ghost \<Rightarrow> net \<Rightarrow> bool" where
  "paired gc gs n \<longleftrightarrow>
     \<not> is_server gc \<and> is_server gs \<and> own_isn gc = peer_isn gs \<and> own_isn gs = peer_isn gc
     \<and> written gc = client_wrote n \<and> incoming gs = client_wrote n
     \<and> written gs = server_wrote n \<and> incoming gc = server_wrote n
     \<and> delivered gc = client_read n \<and> delivered gs = server_read n
     \<and> (peer_fin gc \<longrightarrow> past (state (server n))) \<and> (peer_fin gs \<longrightarrow> past (state (client n)))"

definition net_inv :: "env \<Rightarrow> env \<Rightarrow> net \<Rightarrow> bool" where
  "net_inv ec es n \<longleftrightarrow>
     (\<exists>gc gs. stream_inv ec gc (client n) \<and> stream_inv es gs (server n) \<and> paired gc gs n)"

definition short_streams :: "net \<Rightarrow> bool" where
  "short_streams n \<longleftrightarrow> length (client_wrote n) < 2 ^ 32 \<and> length (server_wrote n) < 2 ^ 32"

lemma past_kept:
  assumes "quiet_env e" and "base_inv w" and "ev \<noteq> Ev_connect" and "ev \<noteq> Ev_listen" and "past (state w)"
  shows "returns (\<lambda>(_, w'). past (state w')) (session_step e ev w)"
proof -
  have "past (event_state ev w)"
    using assms(3-) by (cases "state w"; cases ev)
      (auto simp: input_state_def segment_state_def Let_def split: option.split uv_callback.split)
  then show ?thesis
    using event_state_correct [OF assms(1,2), of ev] by (auto simp: returns_def in_state_def)
qed

text \<open>What one host sent is acceptable to the other.\<close>

lemma sent_acceptable:
  assumes "emits (genuine g (past s)) w" and "arrivals i w = Some p"
    and "own_isn g = peer_isn g'" and "written g = incoming g'" and "is_server g \<longleftrightarrow> \<not> is_server g'"
    and "peer_fin g \<longrightarrow> past s'"
  shows "of_packet (acceptable g' s') p" and "has_flag p FLAG_FIN \<longrightarrow> past s"
proof -
  have "i < length (udp_sends (udp w))" and "parse_datagram (fst (udp_sends (udp w) ! i)) = Some p"
    using assms(2) by (auto simp: arrivals_def split: if_splits)
  then have "(fst (udp_sends (udp w) ! i), snd (udp_sends (udp w) ! i)) \<in> set (udp_sends (udp w))"
    by simp
  from emits_sent [OF assms(1) this] have "of_packet (genuine g (past s)) p"
    using \<open>parse_datagram _ = Some p\<close> by blast
  then show "of_packet (acceptable g' s') p" and "has_flag p FLAG_FIN \<longrightarrow> past s"
    using assms(3-) by (auto simp: of_packet_def acceptable_def genuine_def has_flag_def)
qed

text \<open>One host acts; the other's stream of arriving bytes grows by what was written.\<close>

lemma host_acts:
  assumes q: "quiet_env e" and w: "stream_inv e g w" and w': "stream_inv e' g' w'"
    and a: "arrival_ok g ev w" and short: "length (incoming g) < 2 ^ 32"
    and pf: "peer_fin g' \<longrightarrow> past (state w)"
  shows "returns (\<lambda>(b, v). stream_inv e (observe e ev w b g) v
      \<and> stream_inv e' (g'\<lparr>incoming := incoming g' @ accepted e ev w\<rparr>) w'
      \<and> (peer_fin g' \<longrightarrow> past (state v))) (session_step e ev w)"
proof -
  have ev: "ev \<noteq> Ev_connect" "ev \<noteq> Ev_listen"
    using a by (auto simp: arrival_ok_def)
  show ?thesis
    using stream_step [OF q w a short] past_kept [OF q stream_inv_base [OF w] ev]
      stream_inv_incoming [OF w'] pf
    by (auto simp: returns_def)
qed

definition both_base :: "net \<Rightarrow> bool" where
  "both_base n \<longleftrightarrow> base_inv (client n) \<and> base_inv (server n)"

text \<open>What holds throughout a run: no failure, and the stream invariant while the streams are short.\<close>

definition run_inv :: "env \<Rightarrow> env \<Rightarrow> net \<Rightarrow> bool" where
  "run_inv ec es n \<longleftrightarrow> both_base n \<and> (short_streams n \<longrightarrow> net_inv ec es n)"

lemma client_does_inv:
  assumes q: "quiet_env ec" and n: "run_inv ec es n"
    and ev: "\<And>gc gs. stream_inv ec gc (client n) \<Longrightarrow> stream_inv es gs (server n) \<Longrightarrow> paired gc gs n \<Longrightarrow>
      arrival_ok gc ev (client n) \<and> (fin_arrives ev \<longrightarrow> past (state (server n)))"
  shows "returns (run_inv ec es) (client_does ec ev n)"
proof -
  have base: "base_inv (client n)" "base_inv (server n)"
    using n by (simp_all add: run_inv_def both_base_def)
  obtain b w where step: "session_step ec ev (client n) = Inr (b, w)" and bw: "base_inv w"
    using base_inv_step [OF in_state_base_env [OF q] base(1), of ev] by (auto simp: returns_def)
  let ?n = "n\<lparr>client := w, client_wrote := client_wrote n @ accepted ec ev (client n),
      client_read := client_read n @ b\<rparr>"
  have "net_inv ec es ?n" if "short_streams ?n"
  proof -
    have short: "short_streams n"
      using that by (simp add: short_streams_def)
    then obtain gc gs where c: "stream_inv ec gc (client n)" and s: "stream_inv es gs (server n)"
      and p: "paired gc gs n"
      using n by (auto simp: run_inv_def net_inv_def)
    have "length (incoming gc) < 2 ^ 32"
      using p short by (simp add: paired_def short_streams_def)
    moreover have "peer_fin gs \<longrightarrow> past (state (client n))"
      using p by (simp add: paired_def)
    ultimately have "stream_inv ec (observe ec ev (client n) b gc) w
        \<and> stream_inv es (gs\<lparr>incoming := incoming gs @ accepted ec ev (client n)\<rparr>) (server n)
        \<and> (peer_fin gs \<longrightarrow> past (state w))"
      using host_acts [OF q c s ev [OF c s p, THEN conjunct1]] by (simp add: step)
    moreover have "paired (observe ec ev (client n) b gc)
        (gs\<lparr>incoming := incoming gs @ accepted ec ev (client n)\<rparr>) ?n"
      using p ev [OF c s p] calculation by (auto simp: paired_def observe_def)
    ultimately show ?thesis
      unfolding net_inv_def by auto
  qed
  then show ?thesis
    using bw base by (simp add: client_does_def step run_inv_def both_base_def)
qed

lemma server_does_inv:
  assumes q: "quiet_env es" and n: "run_inv ec es n"
    and ev: "\<And>gc gs. stream_inv ec gc (client n) \<Longrightarrow> stream_inv es gs (server n) \<Longrightarrow> paired gc gs n \<Longrightarrow>
      arrival_ok gs ev (server n) \<and> (fin_arrives ev \<longrightarrow> past (state (client n)))"
  shows "returns (run_inv ec es) (server_does es ev n)"
proof -
  have base: "base_inv (client n)" "base_inv (server n)"
    using n by (simp_all add: run_inv_def both_base_def)
  obtain b w where step: "session_step es ev (server n) = Inr (b, w)" and bw: "base_inv w"
    using base_inv_step [OF in_state_base_env [OF q] base(2), of ev] by (auto simp: returns_def)
  let ?n = "n\<lparr>server := w, server_wrote := server_wrote n @ accepted es ev (server n),
      server_read := server_read n @ b\<rparr>"
  have "net_inv ec es ?n" if "short_streams ?n"
  proof -
    have short: "short_streams n"
      using that by (simp add: short_streams_def)
    then obtain gc gs where c: "stream_inv ec gc (client n)" and s: "stream_inv es gs (server n)"
      and p: "paired gc gs n"
      using n by (auto simp: run_inv_def net_inv_def)
    have "length (incoming gs) < 2 ^ 32"
      using p short by (simp add: paired_def short_streams_def)
    moreover have "peer_fin gc \<longrightarrow> past (state (server n))"
      using p by (simp add: paired_def)
    ultimately have "stream_inv es (observe es ev (server n) b gs) w
        \<and> stream_inv ec (gc\<lparr>incoming := incoming gc @ accepted es ev (server n)\<rparr>) (client n)
        \<and> (peer_fin gc \<longrightarrow> past (state w))"
      using host_acts [OF q s c ev [OF c s p, THEN conjunct1]] by (simp add: step)
    moreover have "paired (gc\<lparr>incoming := incoming gc @ accepted es ev (server n)\<rparr>)
        (observe es ev (server n) b gs) ?n"
      using p ev [OF c s p] calculation by (auto simp: paired_def observe_def)
    ultimately show ?thesis
      unfolding net_inv_def by auto
  qed
  then show ?thesis
    using bw base by (simp add: server_does_def step run_inv_def both_base_def)
qed

lemma local_event_ok: "local_event ev \<Longrightarrow> arrival_ok g ev w \<and> (fin_arrives ev \<longrightarrow> b)"
  by (cases ev) (simp_all add: arrival_ok_def fin_arrives_def)

lemma net_step_inv:
  assumes qc: "quiet_env ec" and qs: "quiet_env es" and n: "run_inv ec es n" and a: "action_ok a"
  shows "returns (run_inv ec es) (net_step ec es a n)"
proof (cases a)
  case (At_client ev)
  with a have "local_event ev"
    by simp
  then show ?thesis
    unfolding At_client net_step.simps by (intro client_does_inv [OF qc n] local_event_ok)
next
  case (At_server ev)
  with a have "local_event ev"
    by simp
  then show ?thesis
    unfolding At_server net_step.simps by (intro server_does_inv [OF qs n] local_event_ok)
next
  case (To_client i)
  show ?thesis
  proof (cases "arrivals i (server n)")
    case (Some p)
    have "returns (run_inv ec es) (client_does ec (Ev_input p) n)"
    proof (rule client_does_inv [OF qc n])
      fix gc gs
      assume "stream_inv ec gc (client n)" "stream_inv es gs (server n)" "paired gc gs n"
      then show "arrival_ok gc (Ev_input p) (client n) \<and> (fin_arrives (Ev_input p) \<longrightarrow> past (state (server n)))"
        using sent_acceptable [of gs "state (server n)" "server n" i p gc "state (client n)"] Some
        by (simp add: stream_inv_def paired_def arrival_ok_def fin_arrives_def)
    qed
    then show ?thesis
      using To_client Some by simp
  qed (use To_client n in simp)
next
  case (To_server i)
  show ?thesis
  proof (cases "arrivals i (client n)")
    case (Some p)
    have "returns (run_inv ec es) (server_does es (Ev_input p) n)"
    proof (rule server_does_inv [OF qs n])
      fix gc gs
      assume "stream_inv ec gc (client n)" "stream_inv es gs (server n)" "paired gc gs n"
      then show "arrival_ok gs (Ev_input p) (server n) \<and> (fin_arrives (Ev_input p) \<longrightarrow> past (state (client n)))"
        using sent_acceptable [of gc "state (client n)" "client n" i p gs "state (server n)"] Some
        by (simp add: stream_inv_def paired_def arrival_ok_def fin_arrives_def)
    qed
    then show ?thesis
      using To_server Some by simp
  qed (use To_server n in simp)
qed

interpretation net: machine "net_step ec es" "net_run ec es" id for ec es
  by unfold_locales auto

lemma net_run_inv:
  assumes "quiet_env ec" and "quiet_env es" and "run_inv ec es n" and "list_all action_ok as"
  shows "returns (run_inv ec es) (net_run ec es as n)"
  using net.run_returns [where ok = action_ok and good = "run_inv ec es"] net_step_inv [OF assms(1,2)] assms(3,4)
  by simp

lemma opened_inv:
  assumes "udp_sends dc = []" and "udp_sends ds = []"
  shows "run_inv ec es (opened ec (new_session pc ic rc lc qc) dc nc (new_session ps is rs ls qs) ds ns)"
proof -
  let ?gc = "fresh_ghost (gen_initial_seq ec nc) (gen_initial_seq es ns) False"
  let ?gs = "fresh_ghost (gen_initial_seq es ns) (gen_initial_seq ec nc) True"
  let ?n = "opened ec (new_session pc ic rc lc qc) dc nc (new_session ps is rs ls qs) ds ns"
  have "stream_inv ec ?gc (client ?n)" and "stream_inv es ?gs (server ?n)"
    using stream_connect [OF assms(1)] stream_listen [OF assms(2)] by (simp_all add: opened_def)
  moreover have "paired ?gc ?gs ?n"
    by (simp add: paired_def fresh_ghost_def opened_def)
  ultimately show ?thesis
    unfolding run_inv_def net_inv_def both_base_def by (blast intro: stream_inv_base)
qed

lemma net_inv_prefix:
  assumes "net_inv ec es n"
  shows "prefix (client_read n) (server_wrote n) \<and> prefix (server_read n) (client_wrote n)"
proof -
  obtain gc gs where "stream_inv ec gc (client n)" "stream_inv es gs (server n)" "paired gc gs n"
    using assms by (auto simp: net_inv_def)
  then show ?thesis
    using stream_inv_leaves(2) [of ec gc "client n"] stream_inv_leaves(2) [of es gs "server n"]
    by (auto simp: paired_def dest: append_prefixD)
qed

section \<open>Property\<close>

text \<open>
  C1: Stream integrity end to end. A client that connected and a server that listens are run
  through any sequence of application calls (send, recv, read_all, close), timer expiries and
  deliveries of datagrams that the other side sent, in any order, any number of times or
  never. The run never fails, and (as long as less than 2^32 bytes were written on each side)
  the bytes each application has read are a prefix of the bytes the other has written.
\<close>

theorem network_delivers_prefix:
  assumes "quiet_env ec" and "quiet_env es" and "udp_sends dc = []" and "udp_sends ds = []"
    and "list_all action_ok as"
  shows "\<exists>n. net_run ec es as (opened ec (new_session pc ic rc lc qc) dc nc
                                      (new_session ps is rs ls qs) ds ns) = Inr n
           \<and> (length (client_wrote n) < 2 ^ 32 \<and> length (server_wrote n) < 2 ^ 32 \<longrightarrow>
                prefix (client_read n) (server_wrote n) \<and> prefix (server_read n) (client_wrote n))"
proof -
  obtain n where n: "net_run ec es as (opened ec (new_session pc ic rc lc qc) dc nc
        (new_session ps is rs ls qs) ds ns) = Inr n" and inv: "run_inv ec es n"
    using net_run_inv [OF assms(1,2) opened_inv [OF assms(3,4)] assms(5)]
    unfolding returns_def by blast
  show ?thesis
    using n inv net_inv_prefix by (auto simp: run_inv_def short_streams_def)
qed

theorem network_delivers_prefix_witness:
  "\<exists>n. net_run example_env example_env
         [To_server 0, To_client 0, To_client 0, At_client (Ev_send [1, 2, 3]), To_server 1, To_server 2,
          At_client (Ev_timer (Seq_timer 1)), To_server 3, At_server Ev_read_all, At_client Ev_close]
         (opened example_env (new_session 0 1 2 3 4) new_driver 0 (new_session 5 6 7 8 9) new_driver 1) = Inr n
       \<and> (length (client_wrote n) < 2 ^ 32 \<and> length (server_wrote n) < 2 ^ 32 \<longrightarrow>
            prefix (client_read n) (server_wrote n) \<and> prefix (server_read n) (client_wrote n))"
proof -
  have q: "quiet_env example_env"
    unfolding example_env_def by (rule session_env_quiet)
  have d: "udp_sends new_driver = []"
    by (simp add: new_driver_def)
  show ?thesis
    by (rule network_delivers_prefix [OF q q d d]) simp
qed

end
