(* ===== verification/Data_Transfer.thy ===== *)
theory Data_Transfer
  imports Network
begin

text \<open>
  What gets done when nothing is lost: the three-way handshake establishes both sides with
  matching windows, written bytes arrive and are acknowledged, and the four-way close takes
  both sides to the end of their life.
\<close>

section \<open>Lossless drivers\<close>

definition reliable :: "env \<Rightarrow> udp_driver \<Rightarrow> bool" where
  "reliable e d \<longleftrightarrow> (\<forall>k. loss_rate d \<le> draw e k)"

lemma reliable_sends:
  "reliable e d \<Longrightarrow> udp_sends (send_packet (draw e) p dest d) = udp_sends d @ [(raw_data p, dest)]"
  by (simp add: reliable_def send_packet_def Let_def not_less)

lemma reliable_kept [simp]: "reliable e (send_packet r p dest d) = reliable e d"
  "reliable e (set_on_receive cb d) = reliable e d"
  by (simp_all add: reliable_def send_packet_def Let_def set_on_receive_def)

text \<open>A segment as the three sending functions build it.\<close>

definition segment :: "env \<Rightarrow> u32 \<Rightarrow> u8 \<Rightarrow> u8 list \<Rightarrow> world \<Rightarrow> tcp_packet" where
  "segment e ack fl data w =
     calculate_checksum \<lparr>header = make_header e ack fl w, options = [], payload = data\<rparr>"

lemma segment_fields [simp]:
  "options (segment e ack fl data w) = []" "payload (segment e ack fl data w) = data"
  "ntohl (seq_num (header (segment e ack fl data w))) = send_next (swnd w)"
  "ntohl (ack_num (header (segment e ack fl data w))) = ack"
  "has_flag (segment e ack fl data w) f \<longleftrightarrow> fl AND f \<noteq> 0"
  by (simp_all add: segment_def frame_simps make_header_def has_flag_def)

lemma segment_accepted: "length data \<le> 65535 \<Longrightarrow> verify_checksum (segment e ack fl data w)"
  by (simp add: segment_def checksum_accepts)

lemma arrivals_last:
  "udp_sends (udp w) = xs @ (raw_data p, dest) # ys \<Longrightarrow> options p = [] \<Longrightarrow> i = length xs \<Longrightarrow> arrivals i w = Some p"
  by (simp add: arrivals_def wire.law_dec_enc)

lemma pure_ack_sends:
  "reliable e (udp w) \<Longrightarrow> udp_sends (udp (send_pure_ack e a w)) =
     udp_sends (udp w) @ [(raw_data (segment e a FLAG_ACK [] w), remote_ip w, remote_port w)]"
  by (simp add: send_pure_ack_def Let_def reliable_sends segment_def)

lemma control_sends:
  "reliable e (udp w) \<Longrightarrow> udp_sends (udp (send_control_packet e fl w)) =
     udp_sends (udp w) @ [(raw_data (segment e (recv_next (rwnd w)) fl [] w), remote_ip w, remote_port w)]"
  by (simp add: send_control_packet_def Let_def reliable_sends segment_def)

lemma payload_sends:
  "reliable e (udp w) \<Longrightarrow> data \<noteq> [] \<Longrightarrow> udp_sends (udp (send_payload_packet e data fl w)) =
     udp_sends (udp w) @ [(raw_data (segment e (recv_next (rwnd w)) fl data w), remote_ip w, remote_port w)]"
  by (simp add: send_payload_packet_def Let_def reliable_sends segment_def)

lemma reliable_blocks [simp]:
  "reliable e (udp (send_pure_ack e' a w)) = reliable e (udp w)"
  "reliable e (udp (send_control_packet e' fl w)) = reliable e (udp w)"
  "reliable e (udp (send_payload_packet e' data fl w)) = reliable e (udp w)"
  by (simp_all add: send_pure_ack_def send_control_packet_def send_payload_packet_def Let_def)

lemma input_accepted:
  assumes "verify_checksum p" and "\<not> has_flag p FLAG_RST"
    and "has_flag p FLAG_ACK \<or> has_flag p FLAG_SYN \<or> has_flag p FLAG_FIN"
  shows "input e p w =
     (let w = w\<lparr>peer_usable_window_size := ucast (ntohs (window_size (header p)))\<rparr>
      in (case state w of
            CLOSED \<Rightarrow> Inr (w\<lparr>user_want_to_close := False\<rparr>)
          | LISTEN \<Rightarrow> Inr (handle_listen e p w)
          | SYN_SENT \<Rightarrow> handle_syn_sent e p w
          | SYN_RECEIVED \<Rightarrow> handle_syn_received e p w
          | ESTABLISHED \<Rightarrow> handle_established e p w
          | FIN_WAIT_1 \<Rightarrow> Inr (handle_fin_wait_1 e p w)
          | FIN_WAIT_2 \<Rightarrow> Inr (handle_fin_wait_2 e p w)
          | CLOSE_WAIT \<Rightarrow> handle_close_wait e p w
          | LAST_ACK \<Rightarrow> handle_last_ack e p w
          | TIME_WAIT \<Rightarrow> Inr (handle_timed_wait e p w)))"
  using assms by (auto simp: input_def)

text \<open>Callbacks that only notify.\<close>

lemma quiet_call:
  assumes "\<And>f. cb = Some f \<Longrightarrow> quiet f"
  obtains ps b where "call_if_set cb w = Inr (w\<lparr>posts := ps, is_in_ready_queue := b\<rparr>)"
proof (cases cb)
  case None
  then have "call_if_set cb w = Inr (w\<lparr>posts := posts w, is_in_ready_queue := is_in_ready_queue w\<rparr>)"
    by (simp add: call_if_set_def)
  then show ?thesis
    by (rule that)
next
  case (Some f)
  then show ?thesis
    using assms [OF Some] that by (auto simp: call_if_set_def quiet_def)
qed

section \<open>The handshake\<close>

text \<open>An endpoint in a given state, idle: nothing to send, nothing in flight.\<close>

definition idle :: "env \<Rightarrow> tcp_state \<Rightarrow> u32 \<Rightarrow> u32 \<Rightarrow> world \<Rightarrow> bool" where
  "idle e s mine theirs w \<longleftrightarrow> base_inv w \<and> state w = s \<and> qsize (send_buffer w) = 0
     \<and> send_unack (swnd w) = mine \<and> send_next (swnd w) = mine \<and> recv_next (rwnd w) = theirs
     \<and> reliable e (udp w)"

lemma idle_frame [simp]:
  "idle e s m t (w\<lparr>posts := ps, is_in_ready_queue := b\<rparr>) = idle e s m t w"
  "idle e s m t (w\<lparr>peer_usable_window_size := x\<rparr>) = idle e s m t w"
  by (simp_all add: idle_def base_inv_def)

lemma idle_try_send: "idle e s m t w \<Longrightarrow> handle_try_send e' w = Inr w"
  by (simp add: idle_def handle_try_send_eq try_send_data_empty)

text \<open>A packet with the given contents and a good checksum.\<close>

definition seg_is :: "tcp_packet \<Rightarrow> u32 \<Rightarrow> u32 \<Rightarrow> u8 \<Rightarrow> u8 list \<Rightarrow> bool" where
  "seg_is p seq ack fl data \<longleftrightarrow> options p = [] \<and> payload p = data \<and> ntohl (seq_num (header p)) = seq
     \<and> ntohl (ack_num (header p)) = ack \<and> flags (header p) = fl \<and> verify_checksum p"

lemma segment_is: "length data \<le> 65535 \<Longrightarrow> seg_is (segment e ack fl data w) (send_next (swnd w)) ack fl data"
  by (simp add: seg_is_def segment_accepted) (simp add: segment_def frame_simps make_header_def)

lemma seg_is_flag: "seg_is p seq ack fl data \<Longrightarrow> has_flag p f \<longleftrightarrow> fl AND f \<noteq> 0"
  by (simp add: seg_is_def has_flag_def)

lemma flag_values:
  "FLAG_ACK AND FLAG_RST = 0" "FLAG_SYN AND FLAG_RST = 0" "FLAG_FIN AND FLAG_RST = 0"
  "(FLAG_SYN OR FLAG_ACK) AND FLAG_RST = 0" "(FLAG_FIN OR FLAG_ACK) AND FLAG_RST = 0"
  "(FLAG_SYN OR FLAG_ACK) AND FLAG_SYN \<noteq> 0" "(FLAG_FIN OR FLAG_ACK) AND FLAG_FIN \<noteq> 0"
  "(FLAG_FIN OR FLAG_ACK) AND FLAG_ACK \<noteq> 0" "FLAG_FIN AND FLAG_ACK = 0" "FLAG_SYN AND FLAG_ACK = 0"
  "FLAG_ACK \<noteq> 0" "FLAG_SYN \<noteq> 0" "FLAG_FIN \<noteq> 0" "FLAG_ACK AND FLAG_FIN = 0"
  by (simp_all add: flag_defs)

text \<open>A packet is sent to the peer, after what was sent before.\<close>

definition sends :: "world \<Rightarrow> world \<Rightarrow> u32 \<Rightarrow> u32 \<Rightarrow> u8 \<Rightarrow> u8 list \<Rightarrow> bool" where
  "sends w w' seq ack fl data \<longleftrightarrow>
     (\<exists>q. udp_sends (udp w') = udp_sends (udp w) @ [(raw_data q, remote_ip w', remote_port w')] \<and> seg_is q seq ack fl data)"

lemma remote_blocks [simp]:
  "remote_ip (send_pure_ack e a w) = remote_ip w" "remote_port (send_pure_ack e a w) = remote_port w"
  "remote_ip (send_control_packet e fl w) = remote_ip w" "remote_port (send_control_packet e fl w) = remote_port w"
  "remote_ip (send_payload_packet e data fl w) = remote_ip w" "remote_port (send_payload_packet e data fl w) = remote_port w"
  "remote_ip (transition_to s w) = remote_ip w" "remote_port (transition_to s w) = remote_port w"
  "remote_ip (accept_in_order data w) = remote_ip w" "remote_port (accept_in_order data w) = remote_port w"
  by (simp_all add: send_pure_ack_def send_control_packet_def send_payload_packet_def transition_to_def accept_in_order_eq Let_def)

lemma sends_arrives:
  assumes "sends w w' seq ack fl data" and "i = length (udp_sends (udp w))"
  obtains p where "arrivals i w' = Some p" and "seg_is p seq ack fl data"
  using assms arrivals_last unfolding sends_def seg_is_def by metis

lemma sends_pure_ack:
  "reliable e (udp w) \<Longrightarrow> udp_sends (udp v) = udp_sends (udp w) \<Longrightarrow>
     sends v (send_pure_ack e a w) (send_next (swnd w)) a FLAG_ACK []"
  unfolding sends_def using pure_ack_sends segment_is [of "[]"] by fastforce

lemma sends_control:
  "reliable e (udp w) \<Longrightarrow> udp_sends (udp v) = udp_sends (udp w) \<Longrightarrow>
     sends v (send_control_packet e fl w) (send_next (swnd w)) (recv_next (rwnd w)) fl []"
  unfolding sends_def using control_sends segment_is [of "[]"] by fastforce

lemma sends_payload:
  "reliable e (udp w) \<Longrightarrow> udp_sends (udp v) = udp_sends (udp w) \<Longrightarrow> data \<noteq> [] \<Longrightarrow> length data \<le> 65535 \<Longrightarrow>
     sends v (send_payload_packet e data fl w) (send_next (swnd w)) (recv_next (rwnd w)) fl data"
  unfolding sends_def using payload_sends segment_is by fastforce

text \<open>Whom the session sends to, and whom the driver hands packets to.\<close>

definition route :: "world \<Rightarrow> sock_addr \<times> receiver" where
  "route w = ((remote_ip w, remote_port w), on_receive_callback (udp w))"

lemma route_blocks [simp]:
  "route (send_pure_ack e a w) = route w" "route (send_control_packet e fl w) = route w"
  "route (send_payload_packet e data fl w) = route w" "route (transition_to s w) = route w"
  "route (accept_in_order data w) = route w" "route (w\<lparr>posts := ps, is_in_ready_queue := b\<rparr>) = route w"
  by (simp_all add: route_def)
    (simp_all add: send_pure_ack_def send_control_packet_def send_payload_packet_def send_packet_def transition_to_def
      accept_in_order_eq Let_def)

text \<open>
  With the session's address, what it asks of the stack, and whether it closes at the end of
  the stream: what no handler changes except by way of the callbacks.
\<close>

definition place :: "world \<Rightarrow> (sock_addr \<times> receiver) \<times> nat \<times> bool \<times> post list \<times> bool" where
  "place w = (route w, self_ptr w, is_in_ready_queue w, posts w, auto_close_on_eof w)"

lemma place_blocks [simp]:
  "place (send_pure_ack e a w) = place w" "place (send_control_packet e fl w) = place w"
  "place (send_payload_packet e data fl w) = place w" "place (transition_to s w) = place w"
  "place (accept_in_order data w) = place w" "place (queued data w) = place w" "place (start_2msl_timer w) = place w"
  by (simp_all add: place_def)
    (simp_all add: route_def send_pure_ack_def send_control_packet_def send_payload_packet_def send_packet_def
      transition_to_def accept_in_order_eq queued_def start_2msl_timer_def Let_def)

lemma place_updates [simp]:
  "place (w\<lparr>swnd := s\<rparr>) = place w" "place (w\<lparr>rwnd := r\<rparr>) = place w" "place (w\<lparr>tmgr := t\<rparr>) = place w"
  "place (w\<lparr>recv_buffer := b\<rparr>) = place w" "place (w\<lparr>user_want_to_close := u\<rparr>) = place w"
  "place (w\<lparr>peer_usable_window_size := p\<rparr>) = place w"
  by (simp_all add: place_def route_def)

lemma place_connect: "place (connect e w) =
    (((remote_ip w, remote_port w), Session_input (self_ptr w)), self_ptr w, is_in_ready_queue w, posts w, auto_close_on_eof w)"
  by (simp add: place_def connect_def Let_def)
    (simp add: route_def transition_to_def set_on_receive_def send_control_packet_def send_packet_def Let_def)

text \<open>What the opening leaves alone: the congestion window and its counters, and the receive buffer.\<close>

definition meters :: "world \<Rightarrow> u32 \<times> u32 \<times> int \<times> u8 ring_queue" where
  "meters w = (send_window_size (swnd w), ssthresh w, dup_ack_count w, recv_buffer w)"

lemma meters_blocks [simp]:
  "meters (send_pure_ack e a w) = meters w" "meters (send_control_packet e fl w) = meters w"
  "meters (transition_to s w) = meters w" "meters (w\<lparr>posts := ps, is_in_ready_queue := b\<rparr>) = meters w"
  by (simp_all add: meters_def transition_to_def send_pure_ack_def send_control_packet_def Let_def)

text \<open>The endpoint before it is established: its SYN is out and unacknowledged.\<close>

definition syn_out :: "env \<Rightarrow> tcp_state \<Rightarrow> u32 \<Rightarrow> world \<Rightarrow> bool" where
  "syn_out e s isn w \<longleftrightarrow> base_inv w \<and> state w = s \<and> qsize (send_buffer w) = 0
     \<and> send_unack (swnd w) = isn \<and> send_next (swnd w) = isn + 1 \<and> reliable e (udp w)"

lemma input_listen_eq:
  fixes e :: env
  assumes w: "state w = LISTEN" and p: "seg_is p seq a FLAG_SYN []"
  defines "v \<equiv> transition_to SYN_RECEIVED (w\<lparr>peer_usable_window_size := ucast (ntohs (window_size (header p))),
      iss_calls := iss_calls w + 1,
      swnd := (swnd w)\<lparr>send_next := gen_initial_seq e (iss_calls w), send_unack := gen_initial_seq e (iss_calls w)\<rparr>,
      rwnd := (rwnd w)\<lparr>recv_next := seq + 1\<rparr>\<rparr>)"
  shows "input e p w = Inr (handle_listen e p (w\<lparr>peer_usable_window_size := ucast (ntohs (window_size (header p)))\<rparr>))"
    and "handle_listen e p (w\<lparr>peer_usable_window_size := ucast (ntohs (window_size (header p)))\<rparr>)
      = (send_control_packet e (FLAG_SYN OR FLAG_ACK) v)
          \<lparr>swnd := (swnd (send_control_packet e (FLAG_SYN OR FLAG_ACK) v))\<lparr>send_next := gen_initial_seq e (iss_calls w) + 1\<rparr>\<rparr>"
proof -
  have seq: "ntohl (seq_num (header p)) = seq" and ver: "verify_checksum p"
    using p by (simp_all add: seg_is_def)
  show "input e p w = Inr (handle_listen e p (w\<lparr>peer_usable_window_size := ucast (ntohs (window_size (header p)))\<rparr>))"
    using w ver by (simp add: input_accepted seg_is_flag [OF p] flag_values)
  show "handle_listen e p (w\<lparr>peer_usable_window_size := ucast (ntohs (window_size (header p)))\<rparr>)
      = (send_control_packet e (FLAG_SYN OR FLAG_ACK) v)
          \<lparr>swnd := (swnd (send_control_packet e (FLAG_SYN OR FLAG_ACK) v))\<lparr>send_next := gen_initial_seq e (iss_calls w) + 1\<rparr>\<rparr>"
    by (simp add: handle_listen_def Let_def seg_is_flag [OF p] flag_values seq transition_to_def v_def)
qed

lemma input_listen:
  assumes w: "base_inv w" "state w = LISTEN" "qsize (send_buffer w) = 0" "reliable e (udp w)"
    and p: "seg_is p seq a FLAG_SYN []"
  shows "\<exists>w'. input e p w = Inr w' \<and> syn_out e SYN_RECEIVED (gen_initial_seq e (iss_calls w)) w'
    \<and> recv_next (rwnd w') = seq + 1
    \<and> sends w w' (gen_initial_seq e (iss_calls w)) (seq + 1) (FLAG_SYN OR FLAG_ACK) [] \<and> meters w' = meters w"
proof -
  let ?w = "w\<lparr>peer_usable_window_size := ucast (ntohs (window_size (header p)))\<rparr>"
  let ?v = "transition_to SYN_RECEIVED (?w\<lparr>iss_calls := iss_calls w + 1,
      swnd := (swnd w)\<lparr>send_next := gen_initial_seq e (iss_calls w), send_unack := gen_initial_seq e (iss_calls w)\<rparr>,
      rwnd := (rwnd w)\<lparr>recv_next := seq + 1\<rparr>\<rparr>)"
  note inp = input_listen_eq(1) [OF w(2) p, of e] and h = input_listen_eq(2) [OF w(2) p, of e]
  have "reliable e (udp ?v)" and "udp_sends (udp w) = udp_sends (udp ?v)"
    using w by (simp_all add: transition_to_def)
  from sends_control [OF this, of "FLAG_SYN OR FLAG_ACK"]
  have "sends w (handle_listen e p ?w) (gen_initial_seq e (iss_calls w)) (seq + 1) (FLAG_SYN OR FLAG_ACK) []"
    unfolding h by (simp add: sends_def transition_to_def)
  moreover have "base_inv (handle_listen e p ?w)"
    using w by (simp add: base_inv_handle_listen)
  moreover have "state (handle_listen e p ?w) = SYN_RECEIVED" "recv_next (rwnd (handle_listen e p ?w)) = seq + 1"
    "qsize (send_buffer (handle_listen e p ?w)) = 0" "reliable e (udp (handle_listen e p ?w))"
    "send_unack (swnd (handle_listen e p ?w)) = gen_initial_seq e (iss_calls w)"
    "send_next (swnd (handle_listen e p ?w)) = gen_initial_seq e (iss_calls w) + 1"
    unfolding h using w by (simp_all add: transition_to_def)
  moreover have "meters (send_control_packet e (FLAG_SYN OR FLAG_ACK) ?v) = meters w"
    unfolding meters_blocks by (simp add: meters_def)
  then have "meters (handle_listen e p ?w) = meters w"
    unfolding h by (simp add: meters_def)
  ultimately show ?thesis
    unfolding inp syn_out_def by blast
qed

lemma quiet_established:
  assumes q: "quiet_env e" and w: "idle e ESTABLISHED m t w"
  shows "\<exists>w'. bind_res (call_if_set (on_established_cb e) w) (handle_try_send e) = Inr w'
    \<and> idle e ESTABLISHED m t w' \<and> udp w' = udp w \<and> (on_established_cb e = None \<longrightarrow> w' = w) \<and> meters w' = meters w
    \<and> route w' = route w"
proof -
  obtain w' where c: "call_if_set (on_established_cb e) w = Inr w'" "idle e ESTABLISHED m t w'" "udp w' = udp w" "meters w' = meters w"
    "route w' = route w"
    by (rule quiet_call [of "on_established_cb e" w]) (use q w in \<open>auto simp: quiet_env_def\<close>)
  then show ?thesis
    using idle_try_send [OF c(2), of e] by (auto simp: call_if_set_def)
qed

lemma input_syn_sent:
  assumes q: "quiet_env e" and w: "syn_out e SYN_SENT isn w"
    and p: "seg_is p seq (isn + 1) (FLAG_SYN OR FLAG_ACK) []"
  shows "\<exists>w'. input e p w = Inr w' \<and> idle e ESTABLISHED (isn + 1) (seq + 1) w'
    \<and> sends w w' (isn + 1) (seq + 1) FLAG_ACK [] \<and> (on_established_cb e = None \<longrightarrow> place w' = place w)
    \<and> meters w' = meters w \<and> route w' = route w"
proof -
  let ?w = "w\<lparr>peer_usable_window_size := ucast (ntohs (window_size (header p)))\<rparr>"
  let ?u = "?w\<lparr>rwnd := (rwnd w)\<lparr>recv_next := seq + 1\<rparr>, swnd := (swnd w)\<lparr>send_unack := isn + 1\<rparr>,
      tmgr := stop_timer isn (tmgr w)\<rparr>"
  let ?v = "transition_to ESTABLISHED (send_pure_ack e (seq + 1) ?u)"
  have un: "send_unack (swnd w) = isn" and st: "state w = SYN_SENT" and base: "base_inv w"
    and rel: "reliable e (udp w)" and empty: "qsize (send_buffer w) = 0"
    and nx: "send_next (swnd w) = isn + 1"
    using w by (simp_all add: syn_out_def)
  have seq: "ntohl (seq_num (header p)) = seq" "ntohl (ack_num (header p)) = isn + 1" "verify_checksum p"
    using p by (simp_all add: seg_is_def)
  have inp: "input e p w = bind_res (call_if_set (on_established_cb e) ?v) (handle_try_send e)"
    using seq un st by (simp add: input_accepted handle_syn_sent_def Let_def seg_is_flag [OF p] flag_values)
  have "base_inv (w\<lparr>tmgr := stop_timer isn (tmgr w)\<rparr>)"
    using base by (rule base_inv_stop)
  then have "base_inv ?u"
    by (simp add: base_inv_def)
  then have v: "idle e ESTABLISHED (isn + 1) (seq + 1) ?v"
    using rel empty nx by (simp add: idle_def) (simp add: transition_to_def)
  have "sends w (send_pure_ack e (seq + 1) ?u) (isn + 1) (seq + 1) FLAG_ACK []"
    using sends_pure_ack [of e ?u w "seq + 1"] rel nx by simp
  then have "sends w ?v (isn + 1) (seq + 1) FLAG_ACK []"
    by (simp add: sends_def transition_to_def send_pure_ack_def Let_def)
  moreover have "place ?v = place w"
    by simp
  moreover have "route ?v = route w"
    by (simp only: route_blocks) (simp add: route_def)
  moreover have "meters ?v = meters w"
    unfolding meters_blocks by (simp add: meters_def)
  ultimately show ?thesis
    using quiet_established [OF q v] by (auto simp: inp sends_def route_def)
qed

text \<open>The acknowledgement of the SYN+ACK; what it carries is not looked at.\<close>

lemma input_syn_received:
  assumes q: "quiet_env e" and w: "syn_out e SYN_RECEIVED isn w" and p: "seg_is p seq (isn + 1) FLAG_ACK data"
  shows "\<exists>w'. input e p w = Inr w' \<and> idle e ESTABLISHED (isn + 1) (recv_next (rwnd w)) w'
    \<and> udp w' = udp w \<and> (on_established_cb e = None \<longrightarrow> place w' = place w)
    \<and> meters w' = meters w \<and> route w' = route w"
proof -
  let ?w = "w\<lparr>peer_usable_window_size := ucast (ntohs (window_size (header p)))\<rparr>"
  let ?v = "transition_to ESTABLISHED (?w\<lparr>swnd := (swnd w)\<lparr>send_unack := isn + 1\<rparr>,
      tmgr := stop_timer isn (tmgr w)\<rparr>)"
  have un: "send_unack (swnd w) = isn" and st: "state w = SYN_RECEIVED" and base: "base_inv w"
    and rel: "reliable e (udp w)" and empty: "qsize (send_buffer w) = 0"
    and nx: "send_next (swnd w) = isn + 1"
    using w by (simp_all add: syn_out_def)
  have "ntohl (ack_num (header p)) = isn + 1" "verify_checksum p"
    using p by (simp_all add: seg_is_def)
  then have inp: "input e p w = bind_res (call_if_set (on_established_cb e) ?v) (handle_try_send e)"
    using un st by (simp add: input_accepted handle_syn_received_def Let_def seg_is_flag [OF p] flag_values)
  have "base_inv (w\<lparr>tmgr := stop_timer isn (tmgr w)\<rparr>)"
    using base by (rule base_inv_stop)
  then have v: "idle e ESTABLISHED (isn + 1) (recv_next (rwnd w)) ?v"
    using rel empty nx by (simp add: idle_def base_inv_def transition_to_def)
  have "meters ?v = meters w"
    unfolding meters_blocks by (simp add: meters_def)
  moreover have "place ?v = place w"
    by simp
  ultimately show ?thesis
    using quiet_established [OF q v] by (auto simp: inp transition_to_def route_def)
qed

lemma connect_syn:
  assumes w: "base_inv w" "qsize (send_buffer w) = 0" "reliable e (udp w)"
  shows "syn_out e SYN_SENT (gen_initial_seq e (iss_calls w)) (connect e w)"
    and "sends w (connect e w) (gen_initial_seq e (iss_calls w)) (recv_next (rwnd w)) FLAG_SYN []"
    and "meters (connect e w) = meters w"
proof -
  let ?isn = "gen_initial_seq e (iss_calls w)"
  let ?w = "(transition_to SYN_SENT w)\<lparr>udp := set_on_receive (Session_input (self_ptr w)) (udp w),
      iss_calls := iss_calls w + 1, swnd := (swnd w)\<lparr>send_next := ?isn, send_unack := ?isn\<rparr>\<rparr>"
  have c: "connect e w = (send_control_packet e FLAG_SYN ?w)
      \<lparr>swnd := (swnd (send_control_packet e FLAG_SYN ?w))\<lparr>send_next := ?isn + 1\<rparr>\<rparr>"
    by (simp add: connect_def Let_def transition_to_def)
  show "syn_out e SYN_SENT ?isn (connect e w)"
    using w base_inv_connect [OF w(1), of e] by (simp add: syn_out_def) (simp add: c transition_to_def)
  have rel: "reliable e (udp ?w)" and same: "udp_sends (udp w) = udp_sends (udp ?w)"
    using w by (simp_all add: set_on_receive_def reliable_def)
  show "sends w (connect e w) ?isn (recv_next (rwnd w)) FLAG_SYN []"
    using sends_control [OF rel same, of FLAG_SYN] by (simp add: c sends_def) (simp add: transition_to_def)
  have "meters (send_control_packet e FLAG_SYN ?w) = meters w"
    unfolding meters_blocks by (simp add: meters_def transition_to_def)
  then show "meters (connect e w) = meters w"
    unfolding c by (simp add: meters_def)
qed

lemma connect_opens:
  assumes d: "reliable e d" "udp_sends d = []"
  shows "syn_out e SYN_SENT (gen_initial_seq e n) (connect e (enter_world (new_session ptr i0 r0 lp rp) d n))"
    and "sends (enter_world (new_session ptr i0 r0 lp rp) d n)
      (connect e (enter_world (new_session ptr i0 r0 lp rp) d n)) (gen_initial_seq e n) 0 FLAG_SYN []"
    and "meters (connect e (enter_world (new_session ptr i0 r0 lp rp) d n)) = (1, 8, 0, ring_new 1024 0)"
  using connect_syn [OF base_inv_new [of ptr i0 r0 lp rp d n], of e] d
  by (simp_all add: meters_def enter_world_new ring_new_def)

text \<open>Deliveries as steps of the network.\<close>

lemma deliver_client:
  "arrivals i (server n) = Some p \<Longrightarrow> input ec p (client n) = Inr w \<Longrightarrow>
     net_step ec es (To_client i) n = Inr (n\<lparr>client := w\<rparr>)"
  by (cases n) (simp add: client_does_def)

lemma deliver_server:
  "arrivals i (client n) = Some p \<Longrightarrow> input es p (server n) = Inr w \<Longrightarrow>
     net_step ec es (To_server i) n = Inr (n\<lparr>server := w\<rparr>)"
  by (cases n) (simp add: server_does_def)

lemma sends_length: "sends w w' seq ack fl data \<Longrightarrow> length (udp_sends (udp w')) = Suc (length (udp_sends (udp w)))"
  by (auto simp: sends_def)

lemma handshake:
  assumes qc: "quiet_env ec" and qs: "quiet_env es"
    and dc: "reliable ec dc" "udp_sends dc = []" and ds: "reliable es ds" "udp_sends ds = []"
    and n0: "n0 = opened ec (new_session pc ic rc lc kc) dc nc (new_session ps is rs ls ks) ds ns"
  shows "\<exists>c s. net_run ec es [To_server 0, To_client 0, To_server 1] n0 = Inr (n0\<lparr>client := c, server := s\<rparr>)
    \<and> idle ec ESTABLISHED (gen_initial_seq ec nc + 1) (gen_initial_seq es ns + 1) c
    \<and> idle es ESTABLISHED (gen_initial_seq es ns + 1) (gen_initial_seq ec nc + 1) s
    \<and> meters c = (1, 8, 0, ring_new 1024 0) \<and> meters s = (1, 8, 0, ring_new 1024 0)
    \<and> length (udp_sends (udp c)) = 2 \<and> length (udp_sends (udp s)) = 1"
proof -
  let ?x = "gen_initial_seq ec nc" and ?y = "gen_initial_seq es ns"
  let ?wc = "enter_world (new_session pc ic rc lc kc) dc nc" and ?ws = "enter_world (new_session ps is rs ls ks) ds ns"
  have c0: "syn_out ec SYN_SENT ?x (client n0)" and syn: "sends ?wc (client n0) ?x 0 FLAG_SYN []"
    and mc: "meters (client n0) = (1, 8, 0, ring_new 1024 0)"
    using connect_opens [OF dc] by (simp_all add: n0 opened_def)
  have s0: "base_inv (server n0)" "state (server n0) = LISTEN" "qsize (send_buffer (server n0)) = 0"
    "reliable es (udp (server n0))" "iss_calls (server n0) = ns" "udp_sends (udp (server n0)) = []"
    "meters (server n0) = (1, 8, 0, ring_new 1024 0)"
    using base_inv_listen [OF base_inv_new [of ps "is" rs ls ks ds ns]] ds
    by (simp_all add: n0 opened_def) (simp_all add: meters_def listen_def enter_world_new transition_to_def ring_new_def)
  have len0: "0 = length (udp_sends (udp ?wc))"
    using dc by (simp add: enter_world_new)
  obtain p1 where a1: "arrivals 0 (client n0) = Some p1" and p1: "seg_is p1 ?x 0 FLAG_SYN []"
    by (rule sends_arrives [OF syn len0])
  obtain s1 where i1: "input es p1 (server n0) = Inr s1" and s1: "syn_out es SYN_RECEIVED ?y s1"
    and r1: "recv_next (rwnd s1) = ?x + 1" and y1: "sends (server n0) s1 ?y (?x + 1) (FLAG_SYN OR FLAG_ACK) []"
    and m1: "meters s1 = meters (server n0)"
    using input_listen [OF s0(1-4) p1] s0(5) by auto
  have len1: "0 = length (udp_sends (udp (server n0)))"
    using s0(6) by simp
  obtain p2 where a2: "arrivals 0 s1 = Some p2" and p2: "seg_is p2 ?y (?x + 1) (FLAG_SYN OR FLAG_ACK) []"
    by (rule sends_arrives [OF y1 len1])
  obtain c2 where i2: "input ec p2 (client n0) = Inr c2" and c2: "idle ec ESTABLISHED (?x + 1) (?y + 1) c2"
    and y2: "sends (client n0) c2 (?x + 1) (?y + 1) FLAG_ACK []" and m2: "meters c2 = meters (client n0)"
    using input_syn_sent [OF qc c0 p2] by blast
  have len2: "1 = length (udp_sends (udp (client n0)))"
    using sends_length [OF syn] len0 by simp
  obtain p3 where a3: "arrivals 1 c2 = Some p3" and p3: "seg_is p3 (?x + 1) (?y + 1) FLAG_ACK []"
    by (rule sends_arrives [OF y2 len2])
  obtain s3 where i3: "input es p3 s1 = Inr s3" and s3: "idle es ESTABLISHED (?y + 1) (?x + 1) s3"
    and m3: "meters s3 = meters s1" and u3: "udp_sends (udp s3) = udp_sends (udp s1)"
    using input_syn_received [OF qs s1 p3] r1 by auto
  have "net_run ec es [To_server 0, To_client 0, To_server 1] n0 = Inr (n0\<lparr>client := c2, server := s3\<rparr>)"
    using deliver_server [OF a1 i1, of ec] deliver_client [of 0 "n0\<lparr>server := s1\<rparr>" p2 ec c2 es]
      deliver_server [of 1 "n0\<lparr>server := s1, client := c2\<rparr>" p3 es s3 ec] a2 i2 a3 i3
    by (simp del: net_step.simps)
  moreover have "length (udp_sends (udp c2)) = 2" "length (udp_sends (udp s3)) = 1"
    using sends_length [OF y2] sends_length [OF y1] len1 len2 u3 by simp_all
  ultimately show ?thesis
    using c2 s3 m1 m2 m3 mc s0(7) by auto
qed

section \<open>Data\<close>

text \<open>Writing at an idle endpoint puts the data on the wire at once, if the window allows.\<close>

definition sent_all :: "env \<Rightarrow> u32 \<Rightarrow> u32 \<Rightarrow> u8 list \<Rightarrow> world \<Rightarrow> bool" where
  "sent_all e mine theirs data w \<longleftrightarrow> base_inv w \<and> state w = ESTABLISHED
     \<and> ring_contents (send_buffer w) = data \<and> send_unack (swnd w) = mine
     \<and> send_next (swnd w) = mine + of_nat (length data) \<and> recv_next (rwnd w) = theirs \<and> reliable e (udp w)"

lemma send_out:
  assumes w: "idle e s m t w" "sends_data s" and data: "data \<noteq> []" "length data \<le> 1024"
    "length data \<le> unat (send_window_size (swnd w))"
  defines "w' \<equiv> send_payload_packet e data FLAG_ACK (queued data w)"
  shows "send e data w = Inr (length data, w')"
    and "base_inv w' \<and> state w' = s \<and> ring_contents (send_buffer w') = data \<and> send_unack (swnd w') = m
      \<and> send_next (swnd w') = m + of_nat (length data) \<and> recv_next (rwnd w') = t \<and> reliable e (udp w')"
    and "sends w w' m t FLAG_ACK data"
proof -
  have base: "base_inv w" and empty: "qsize (send_buffer w) = 0" and st: "state w = s"
    and un: "send_unack (swnd w) = m" and nx: "send_next (swnd w) = m" and rn: "recv_next (rwnd w) = t"
    and rel: "reliable e (udp w)"
    using w by (simp_all add: idle_def)
  have nil: "ring_contents (send_buffer w) = []"
    using empty by (simp add: ring_contents_def)
  have qb: "queue_bytes data w = data"
    using base empty data by (simp add: queue_bytes_def base_inv_def base_ok_def)
  have con: "ring_contents (send_buffer (queued data w)) = data"
    using queued_contents [OF base, of data] nil qb by simp
  have "try_send_data (queued data w) = data"
    using data con st un nx w(2) by (simp add: try_send_data_def Let_def queued_def)
  then show "send e data w = Inr (length data, w')"
    using data qb by (simp add: send_eq [OF base] w'_def)
  show "base_inv w' \<and> state w' = s \<and> ring_contents (send_buffer w') = data \<and> send_unack (swnd w') = m
      \<and> send_next (swnd w') = m + of_nat (length data) \<and> recv_next (rwnd w') = t \<and> reliable e (udp w')"
    using base st un nx rn rel con
    by (simp add: w'_def base_inv_payload base_inv_queued) (simp add: queued_def)
  show "sends w w' m t FLAG_ACK data"
    using sends_payload [of e "queued data w" w data FLAG_ACK] data rel nx rn
    by (simp add: w'_def queued_def)
qed

lemma send_all:
  assumes w: "idle e ESTABLISHED m t w" and data: "data \<noteq> []" "length data \<le> 1024"
    "length data \<le> unat (send_window_size (swnd w))"
  defines "w' \<equiv> send_payload_packet e data FLAG_ACK (queued data w)"
  shows "send e data w = Inr (length data, w')" and "sent_all e m t data w'"
    and "sends w w' m t FLAG_ACK data" and "dup_ack_count w' = dup_ack_count w"
    and "send_window_size (swnd w') = send_window_size (swnd w)" and "ssthresh w' = ssthresh w"
proof -
  have "sends_data ESTABLISHED"
    by (simp add: sends_data_def)
  note out = send_out [OF w this data, folded w'_def]
  show "send e data w = Inr (length data, w')" "sent_all e m t data w'" "sends w w' m t FLAG_ACK data"
    using out by (simp_all add: sent_all_def)
  show "dup_ack_count w' = dup_ack_count w" "ssthresh w' = ssthresh w"
    "send_window_size (swnd w') = send_window_size (swnd w)"
    by (simp_all add: w'_def queued_def send_payload_packet_def Let_def)
qed

lemma stale_ack: "ntohl (ack_num (header p)) = send_unack (swnd w) \<Longrightarrow> handle_ack e p w = Inr (False, w)"
  by (simp add: handle_ack_def ack_acceptable_def)

text \<open>Data in order on an idle connection, up to the callback.\<close>

definition data_taken :: "env \<Rightarrow> tcp_packet \<Rightarrow> world \<Rightarrow> world" where
  "data_taken e p w =
     send_pure_ack e (recv_next (rwnd w) + of_nat (length (payload p)))
       (accept_in_order (payload p) (w\<lparr>peer_usable_window_size := ucast (ntohs (window_size (header p)))\<rparr>))"

lemma place_data_taken [simp]: "place (data_taken e p w) = place w"
  by (simp add: data_taken_def)

text \<open>The session may have data of its own in flight, as long as the window lets out no more.\<close>

lemma taking_data:
  assumes w: "base_inv w" "state w = ESTABLISHED" "send_unack (swnd w) = m" "recv_next (rwnd w) = t" "reliable e (udp w)"
    and full: "try_send_data w = []"
    and p: "seg_is p t m FLAG_ACK data" "data \<noteq> []"
    and room: "qsize (recv_buffer w) + length data \<le> 1024"
  defines "v \<equiv> data_taken e p w"
  shows "input e p w = call_if_set (map_option (\<lambda>cb. cb (available v)) (on_data_cb e)) v"
    and "base_inv v" and "recv_next (rwnd v) = t + of_nat (length data)" and "reliable e (udp v)"
    and "ring_contents (recv_buffer v) = ring_contents (recv_buffer w) @ data"
    and "sends w v (send_next (swnd w)) (t + of_nat (length data)) FLAG_ACK []"
    and "state v = ESTABLISHED \<and> swnd v = swnd w \<and> send_buffer v = send_buffer w \<and> ssthresh v = ssthresh w
      \<and> dup_ack_count v = dup_ack_count w \<and> last_ack_received v = last_ack_received w \<and> route v = route w"
proof -
  let ?w = "w\<lparr>peer_usable_window_size := ucast (ntohs (window_size (header p)))\<rparr>"
  let ?u = "accept_in_order data ?w"
  have pf: "ntohl (seq_num (header p)) = t" "ntohl (ack_num (header p)) = m" "verify_checksum p" "payload p = data"
    using p by (simp_all add: seg_is_def)
  have v_eq: "v = send_pure_ack e (t + of_nat (length data)) ?u"
    using w by (simp add: v_def data_taken_def pf)
  have ok: "ring_ok (recv_buffer w)" and cap: "capacity (recv_buffer w) = 1024"
    using w(1) by (simp_all add: base_inv_def base_ok_def)
  have fits: "fst (push_batch data (recv_buffer w))"
    using rq.put_fst [OF ok, of data] cap room by simp
  then show "ring_contents (recv_buffer v) = ring_contents (recv_buffer w) @ data"
    using rq.put_contents [OF ok, of data] by (simp add: accept_in_order_eq v_eq)
  show "base_inv v"
    using w base_inv_accept_in_order [of ?w data] by (simp add: v_eq)
  show "recv_next (rwnd v) = t + of_nat (length data)" "reliable e (udp v)"
    using w fits by (simp_all add: v_eq accept_in_order_eq)
  show "state v = ESTABLISHED \<and> swnd v = swnd w \<and> send_buffer v = send_buffer w \<and> ssthresh v = ssthresh w
      \<and> dup_ack_count v = dup_ack_count w \<and> last_ack_received v = last_ack_received w \<and> route v = route w"
    using w(2) fits by (simp add: v_eq) (simp add: accept_in_order_eq send_pure_ack_def Let_def route_def)
  show "sends w v (send_next (swnd w)) (t + of_nat (length data)) FLAG_ACK []"
    using sends_pure_ack [of e ?u w "t + of_nat (length data)"] w(5) fits
    by (simp add: accept_in_order_eq v_eq)
  have inc: "handle_incoming_packet e p ?w = Inr (True, v)"
    using w pf fits by (simp add: handle_incoming_eq Let_def v_eq) (simp add: accept_in_order_eq)
  have "try_send_data ?w = try_send_data w"
    by (simp add: try_send_data_def Let_def)
  then have "try_send_data ?w = []"
    using full by simp
  then have "handle_try_send e ?w = Inr ?w"
    using w(1) by (simp add: handle_try_send_eq)
  moreover have "bind_res (call_if_set cb v) Inr = call_if_set cb v" for cb
    by (cases "call_if_set cb v") simp_all
  ultimately show "input e p w = call_if_set (map_option (\<lambda>cb. cb (available v)) (on_data_cb e)) v"
    using pf w(2,3) inc p(2)
    by (simp add: input_accepted handle_established_def seg_is_flag [OF p(1)] flag_values stale_ack)
qed

lemma input_data_taken:
  assumes w: "idle e ESTABLISHED m t w"
    and p: "seg_is p t m FLAG_ACK data" "data \<noteq> []"
    and room: "qsize (recv_buffer w) + length data \<le> 1024"
  defines "v \<equiv> data_taken e p w"
  shows "input e p w = call_if_set (map_option (\<lambda>cb. cb (available v)) (on_data_cb e)) v"
    and "idle e ESTABLISHED m (t + of_nat (length data)) v"
    and "ring_contents (recv_buffer v) = ring_contents (recv_buffer w) @ data"
    and "sends w v m (t + of_nat (length data)) FLAG_ACK []"
proof -
  have i: "base_inv w" "state w = ESTABLISHED" "send_unack (swnd w) = m" "recv_next (rwnd w) = t" "reliable e (udp w)"
    "try_send_data w = []" "send_next (swnd w) = m" "qsize (send_buffer w) = 0"
    using w by (simp_all add: idle_def try_send_data_empty)
  note v = taking_data [OF i(1-6) p room, folded v_def]
  show "input e p w = call_if_set (map_option (\<lambda>cb. cb (available v)) (on_data_cb e)) v"
    and "ring_contents (recv_buffer v) = ring_contents (recv_buffer w) @ data"
    by (rule v)+
  show "idle e ESTABLISHED m (t + of_nat (length data)) v" "sends w v m (t + of_nat (length data)) FLAG_ACK []"
    using v i by (simp_all add: idle_def)
qed

lemma input_data:
  assumes q: "quiet_env e" and w: "idle e ESTABLISHED m t w"
    and p: "seg_is p t m FLAG_ACK data" "data \<noteq> []"
    and room: "qsize (recv_buffer w) + length data \<le> 1024"
  shows "\<exists>w'. input e p w = Inr w' \<and> idle e ESTABLISHED m (t + of_nat (length data)) w'
    \<and> ring_contents (recv_buffer w') = ring_contents (recv_buffer w) @ data
    \<and> sends w w' m (t + of_nat (length data)) FLAG_ACK []"
proof -
  let ?v = "data_taken e p w"
  note v = input_data_taken [OF w p room]
  obtain ps b where "call_if_set (map_option (\<lambda>cb. cb (available ?v)) (on_data_cb e)) ?v
      = Inr (?v\<lparr>posts := ps, is_in_ready_queue := b\<rparr>)"
    by (rule quiet_call [of "map_option (\<lambda>cb. cb (available ?v)) (on_data_cb e)"])
      (use q in \<open>auto simp: quiet_env_def\<close>)
  then show ?thesis
    using v by (auto simp: sends_def)
qed

lemma ack_advances:
  assumes "unat m + k < 2 ^ 32" and "0 < k"
  shows "m < m + (of_nat k :: u32)"
proof -
  have "unat (m + of_nat k) = unat m + k"
    using assms by (simp add: unat_word_ariths unat_of_nat)
  then show ?thesis
    using assms by (simp add: word_less_nat_alt)
qed

lemma input_ack:
  assumes q: "quiet_env e" and w: "sent_all e m t data w" and data: "data \<noteq> []" "unat m + length data < 2 ^ 32"
    and p: "seg_is p seq (m + of_nat (length data)) FLAG_ACK []"
    and dups: "dup_ack_count w \<le> 1"
  shows "\<exists>w'. input e p w = Inr w' \<and> idle e ESTABLISHED (m + of_nat (length data)) t w'
    \<and> udp w' = udp w
    \<and> send_window_size (swnd w') = (let c = send_window_size (swnd w) in if c < ssthresh w then c * 2 else c + 1)"
proof -
  let ?a = "m + of_nat (length data)"
  let ?w = "w\<lparr>peer_usable_window_size := ucast (ntohs (window_size (header p)))\<rparr>"
  let ?v = "count_dup_ack ?a (accept_ack ?a ?w)"
  let ?g = "grow_cwnd ?v"
  have base: "base_inv w" and st: "state w = ESTABLISHED" and rel: "reliable e (udp w)"
    and un: "send_unack (swnd w) = m" and nx: "send_next (swnd w) = ?a" and rn: "recv_next (rwnd w) = t"
    and con: "ring_contents (send_buffer w) = data"
    using w by (simp_all add: sent_all_def)
  have pf: "ntohl (ack_num (header p)) = ?a" "verify_checksum p" "payload p = []"
    using p by (simp_all add: seg_is_def)
  have ok: "ring_ok (send_buffer w)"
    using base by (simp add: base_inv_def base_ok_def)
  have acc: "ack_acceptable ?a ?w"
    using ack_advances [OF data(2)] data(1) un nx by (simp add: ack_acceptable_def)
  have "unat (of_nat (length data) :: u32) = length data"
    using data(2) by (simp add: unat_of_nat)
  then have "ring_contents (send_buffer ?g) = []"
    using pop_front_contents [OF ok, of "length data"] con un
    by (simp add: grow_cwnd_def Let_def)
  then have empty: "qsize (send_buffer ?g) = 0"
    by (metis length_ring_contents list.size(3))
  have udp_same: "udp ?g = udp w"
    by (simp add: grow_cwnd_def count_dup_ack_def accept_ack_def Let_def)
  have "base_inv ?g"
    using base by (simp add: base_inv_accept_ack)
  then have g: "idle e ESTABLISHED ?a t ?g"
    using st nx rn rel empty udp_same by (simp add: idle_def) (simp add: grow_cwnd_def Let_def)
  have d: "dup_ack_count ?v \<noteq> 3"
    using dups by (auto simp: count_dup_ack_def)
  have "handle_ack e p ?w = Inr (True, ?g)"
    using acc d pf idle_try_send [OF g, of e] by (simp add: handle_ack_def Let_def react_dup_ack_def)
  then have "input e p w = Inr ?g"
    using pf st idle_try_send [OF g, of e]
    by (simp add: input_accepted handle_established_def seg_is_flag [OF p] flag_values)
  moreover have "send_window_size (swnd ?g) = (let c = send_window_size (swnd w) in if c < ssthresh w then c * 2 else c + 1)"
    by (simp add: grow_cwnd_def Let_def count_dup_ack_def accept_ack_def)
  ultimately show ?thesis
    using g udp_same by blast
qed

lemma data_round:
  assumes qc: "quiet_env ec" and qs: "quiet_env es"
    and c: "idle ec ESTABLISHED x y (client n)" and s: "idle es ESTABLISHED y x (server n)"
    and data: "data \<noteq> []" "length data \<le> 1024" "length data \<le> unat (send_window_size (swnd (client n)))"
    and room: "qsize (recv_buffer (server n)) + length data \<le> 1024"
    and nowrap: "unat x + length data < 2 ^ 32" and dups: "dup_ack_count (client n) \<le> 1"
  shows "\<exists>c' s'. net_run ec es [At_client (Ev_send data), To_server (length (udp_sends (udp (client n)))),
        To_client (length (udp_sends (udp (server n))))] n
        = Inr (n\<lparr>client := c', server := s', client_wrote := client_wrote n @ data\<rparr>)
    \<and> idle ec ESTABLISHED (x + of_nat (length data)) y c' \<and> idle es ESTABLISHED y (x + of_nat (length data)) s'
    \<and> ring_contents (recv_buffer s') = ring_contents (recv_buffer (server n)) @ data"
proof -
  let ?x = "x + of_nat (length data)"
  define c1 where "c1 = send_payload_packet ec data FLAG_ACK (queued data (client n))"
  note out = send_all [OF c data, folded c1_def]
  have acc: "accepted ec (Ev_send data) (client n) = data"
    using out(1) by (simp add: accepted_def)
  obtain p1 where a1: "arrivals (length (udp_sends (udp (client n)))) c1 = Some p1"
    and p1: "seg_is p1 x y FLAG_ACK data"
    by (rule sends_arrives [OF out(3) refl])
  obtain s2 where i1: "input es p1 (server n) = Inr s2" and s2: "idle es ESTABLISHED y ?x s2"
    and r2: "ring_contents (recv_buffer s2) = ring_contents (recv_buffer (server n)) @ data"
    and y2: "sends (server n) s2 y ?x FLAG_ACK []"
    using input_data [OF qs s p1 data(1) room] by blast
  obtain p2 where a2: "arrivals (length (udp_sends (udp (server n)))) s2 = Some p2"
    and p2: "seg_is p2 y ?x FLAG_ACK []"
    by (rule sends_arrives [OF y2 refl])
  obtain c2 where i2: "input ec p2 c1 = Inr c2" and c2: "idle ec ESTABLISHED ?x y c2"
    using input_ack [OF qc out(2) data(1) nowrap p2] out(4) dups by auto
  have st1: "net_step ec es (At_client (Ev_send data)) n
      = Inr (n\<lparr>client := c1, client_wrote := client_wrote n @ data\<rparr>)"
    using out(1) acc by (cases n) (simp add: client_does_def)
  have "net_run ec es [At_client (Ev_send data), To_server (length (udp_sends (udp (client n)))),
        To_client (length (udp_sends (udp (server n))))] n
      = Inr (n\<lparr>client := c2, server := s2, client_wrote := client_wrote n @ data\<rparr>)"
    using st1 deliver_server [of _ "n\<lparr>client := c1, client_wrote := client_wrote n @ data\<rparr>" p1 es s2 ec]
      deliver_client [of _ "n\<lparr>client := c1, client_wrote := client_wrote n @ data, server := s2\<rparr>" p2 ec c2 es]
      a1 i1 a2 i2
    by (cases n) (simp del: net_step.simps)
  then show ?thesis
    using c2 s2 r2 by blast
qed

section \<open>Closing\<close>

definition ends :: "env \<Rightarrow> tcp_state \<Rightarrow> u32 \<Rightarrow> u32 \<Rightarrow> u32 \<Rightarrow> world \<Rightarrow> bool" where
  "ends e s unack nxt theirs w \<longleftrightarrow> base_inv w \<and> state w = s \<and> send_unack (swnd w) = unack
     \<and> send_next (swnd w) = nxt \<and> recv_next (rwnd w) = theirs \<and> reliable e (udp w)"

lemma fin_control_ends:
  assumes "base_inv w" and "reliable e (udp w)" and "fl = FLAG_FIN \<or> fl = FLAG_FIN OR FLAG_ACK"
    and "udp_sends (udp v) = udp_sends (udp w)"
  shows "ends e (state w) (send_unack (swnd w)) (send_next (swnd w) + 1) (recv_next (rwnd w))
      (send_control_packet e fl w)"
    and "sends v (send_control_packet e fl w) (send_next (swnd w)) (recv_next (rwnd w)) fl []"
proof -
  have "fl AND FLAG_FIN \<noteq> 0"
    using assms(3) flag_values by auto
  then show "ends e (state w) (send_unack (swnd w)) (send_next (swnd w) + 1) (recv_next (rwnd w))
      (send_control_packet e fl w)"
    using assms by (simp add: ends_def base_inv_control control_send_next)
  show "sends v (send_control_packet e fl w) (send_next (swnd w)) (recv_next (rwnd w)) fl []"
    by (rule sends_control) (use assms in simp_all)
qed

lemma close_active:
  assumes w: "idle e ESTABLISHED m t w"
  shows "\<exists>w'. close e w = Inr w' \<and> ends e FIN_WAIT_1 m (m + 1) t w' \<and> sends w w' m t FLAG_FIN [] \<and> place w' = place w"
proof -
  let ?v = "transition_to FIN_WAIT_1 (w\<lparr>tmgr := stop_all_timers (tmgr w)\<rparr>)"
  let ?u = "send_control_packet e FLAG_FIN ?v"
  have v: "base_inv ?v" "reliable e (udp ?v)" "udp_sends (udp w) = udp_sends (udp ?v)"
    "send_unack (swnd ?v) = m" "send_next (swnd ?v) = m" "recv_next (rwnd ?v) = t" "state ?v = FIN_WAIT_1"
    using w by (simp_all add: idle_def base_inv_stop_all) (simp_all add: transition_to_def)
  have "close e w = Inr (?u\<lparr>user_want_to_close := True\<rparr>)"
    using w idle_try_send [OF w, of e] by (simp add: close_def Let_def idle_def)
  moreover have "ends e FIN_WAIT_1 m (m + 1) t (?u\<lparr>user_want_to_close := True\<rparr>)"
    using fin_control_ends(1) [OF v(1,2) _ v(3), of FLAG_FIN] v by (simp add: ends_def)
  moreover have "sends w (?u\<lparr>user_want_to_close := True\<rparr>) m t FLAG_FIN []"
    using fin_control_ends(2) [OF v(1,2) _ v(3), of FLAG_FIN] v by (simp add: sends_def)
  moreover have "place (?u\<lparr>user_want_to_close := True\<rparr>) = place w"
    by simp
  ultimately show ?thesis
    by blast
qed

text \<open>A FIN is taken in whatever its sequence number is.\<close>

definition fin_taken :: "env \<Rightarrow> tcp_packet \<Rightarrow> world \<Rightarrow> world" where
  "fin_taken e p w = transition_to CLOSE_WAIT (send_pure_ack e (ntohl (seq_num (header p)) + 1)
     (w\<lparr>peer_usable_window_size := ucast (ntohs (window_size (header p))),
        rwnd := (rwnd w)\<lparr>recv_next := ntohl (seq_num (header p)) + 1\<rparr>\<rparr>))"

lemma input_fin_taken:
  assumes w: "idle e ESTABLISHED m t w" and p: "seg_is p s a FLAG_FIN []"
  defines "v \<equiv> fin_taken e p w"
  shows "input e p w = call_if_set (map_option (\<lambda>cb. cb 0) (on_data_cb e)) v"
    and "idle e CLOSE_WAIT m (s + 1) v" and "sends w v m (s + 1) FLAG_ACK []"
    and "recv_buffer v = recv_buffer w \<and> user_want_to_close v = user_want_to_close w" and "place v = place w"
proof -
  let ?u = "w\<lparr>peer_usable_window_size := ucast (ntohs (window_size (header p))),
      rwnd := (rwnd w)\<lparr>recv_next := s + 1\<rparr>\<rparr>"
  have pf: "ntohl (seq_num (header p)) = s" "verify_checksum p" "payload p = []"
    using p by (simp_all add: seg_is_def)
  have v_eq: "v = transition_to CLOSE_WAIT (send_pure_ack e (s + 1) ?u)"
    by (simp add: v_def fin_taken_def pf)
  show "idle e CLOSE_WAIT m (s + 1) v"
    using w by (simp add: idle_def v_eq) (simp add: transition_to_def base_inv_def)
  have "sends w (send_pure_ack e (s + 1) ?u) m (s + 1) FLAG_ACK []"
    using sends_pure_ack [of e ?u w "s + 1"] w by (simp add: idle_def)
  then show "sends w v m (s + 1) FLAG_ACK []"
    by (simp add: sends_def transition_to_def v_eq)
  show "input e p w = call_if_set (map_option (\<lambda>cb. cb 0) (on_data_cb e)) v"
    using pf w by (simp add: input_accepted handle_established_def Let_def seg_is_flag [OF p] flag_values idle_def v_eq)
  show "recv_buffer v = recv_buffer w \<and> user_want_to_close v = user_want_to_close w"
    by (simp add: transition_to_def send_pure_ack_def Let_def v_eq)
  show "place v = place w"
    by (simp add: v_eq)
qed

lemma input_fin:
  assumes q: "quiet_env e" and w: "idle e ESTABLISHED m t w" and p: "seg_is p s a FLAG_FIN []"
  shows "\<exists>w'. input e p w = Inr w' \<and> idle e CLOSE_WAIT m (s + 1) w' \<and> sends w w' m (s + 1) FLAG_ACK []
    \<and> recv_buffer w' = recv_buffer w \<and> user_want_to_close w' = user_want_to_close w"
proof -
  let ?v = "fin_taken e p w"
  note v = input_fin_taken [OF w p]
  obtain ps b where "call_if_set (map_option (\<lambda>cb. cb 0) (on_data_cb e)) ?v
      = Inr (?v\<lparr>posts := ps, is_in_ready_queue := b\<rparr>)"
    by (rule quiet_call [of "map_option (\<lambda>cb. cb 0) (on_data_cb e)"]) (use q in \<open>auto simp: quiet_env_def\<close>)
  then show ?thesis
    using v by (auto simp: sends_def)
qed

lemma input_fin_acked:
  assumes w: "ends e FIN_WAIT_1 m (m + 1) t w" and p: "seg_is p seq (m + 1) FLAG_ACK []"
  shows "\<exists>w'. input e p w = Inr w' \<and> ends e FIN_WAIT_2 (m + 1) (m + 1) t w'
    \<and> udp_sends (udp w') = udp_sends (udp w) \<and> place w' = place w"
proof -
  let ?w = "w\<lparr>peer_usable_window_size := ucast (ntohs (window_size (header p)))\<rparr>"
  have "verify_checksum p" and ack: "ntohl (ack_num (header p)) = m + 1"
    using p by (simp_all add: seg_is_def)
  then have "input e p w = Inr (handle_fin_wait_1 e p ?w)"
    using w by (simp add: input_accepted seg_is_flag [OF p] flag_values ends_def)
  moreover have "base_inv (handle_fin_wait_1 e p ?w)"
    using w by (simp add: ends_def base_inv_handle_fin_wait_1)
  moreover have "place (handle_fin_wait_1 e p ?w) = place w"
    by (simp add: handle_fin_wait_1_def Let_def)
  ultimately show ?thesis
    using w ack by (simp add: ends_def)
      (simp add: handle_fin_wait_1_def Let_def seg_is_flag [OF p] flag_values transition_to_def)
qed

lemma close_passive:
  assumes w: "idle e CLOSE_WAIT m t w"
  shows "\<exists>w'. close e w = Inr w' \<and> ends e LAST_ACK m (m + 1) t w' \<and> sends w w' m t (FLAG_FIN OR FLAG_ACK) [] \<and> place w' = place w"
proof -
  let ?v = "transition_to LAST_ACK w"
  let ?u = "send_control_packet e (FLAG_FIN OR FLAG_ACK) ?v"
  have v: "base_inv ?v" "reliable e (udp ?v)" "udp_sends (udp w) = udp_sends (udp ?v)"
    "send_unack (swnd ?v) = m" "send_next (swnd ?v) = m" "recv_next (rwnd ?v) = t" "state ?v = LAST_ACK"
    using w by (simp_all add: idle_def) (simp_all add: transition_to_def)
  have "close e w = Inr (?u\<lparr>user_want_to_close := True\<rparr>)"
    using w by (simp add: close_def Let_def idle_def)
  moreover have "ends e LAST_ACK m (m + 1) t (?u\<lparr>user_want_to_close := True\<rparr>)"
    using fin_control_ends(1) [OF v(1,2) _ v(3), of "FLAG_FIN OR FLAG_ACK"] v by (simp add: ends_def)
  moreover have "sends w (?u\<lparr>user_want_to_close := True\<rparr>) m t (FLAG_FIN OR FLAG_ACK) []"
    using fin_control_ends(2) [OF v(1,2) _ v(3), of "FLAG_FIN OR FLAG_ACK"] v by (simp add: sends_def)
  moreover have "place (?u\<lparr>user_want_to_close := True\<rparr>) = place w"
    by simp
  ultimately show ?thesis
    by blast
qed

lemma input_last_fin:
  assumes w: "ends e FIN_WAIT_2 m m t w" and p: "seg_is p t m (FLAG_FIN OR FLAG_ACK) []"
  shows "\<exists>w'. input e p w = Inr w' \<and> ends e TIME_WAIT m m (t + 1) w' \<and> sends w w' m (t + 1) FLAG_ACK []
    \<and> armed (tmgr w') Two_msl = Some (On_2msl, 2 * 60 * 1000) \<and> place w' = place w"
proof -
  let ?w = "w\<lparr>peer_usable_window_size := ucast (ntohs (window_size (header p)))\<rparr>"
  let ?u = "?w\<lparr>rwnd := (rwnd w)\<lparr>recv_next := t + 1\<rparr>\<rparr>"
  have pf: "verify_checksum p" "ntohl (seq_num (header p)) = t"
    using p by (simp_all add: seg_is_def)
  then have "input e p w = Inr (handle_fin_wait_2 e p ?w)"
    using w by (simp add: input_accepted seg_is_flag [OF p] flag_values ends_def)
  moreover have h: "handle_fin_wait_2 e p ?w = start_2msl_timer (transition_to TIME_WAIT (send_pure_ack e (t + 1) ?u))"
    by (simp add: handle_fin_wait_2_def Let_def seg_is_flag [OF p] flag_values pf)
  moreover have "base_inv (handle_fin_wait_2 e p ?w)"
    using w by (simp add: ends_def base_inv_handle_fin_wait_2)
  moreover have "place (handle_fin_wait_2 e p ?w) = place w"
    by (simp add: h)
  moreover have "sends w (send_pure_ack e (t + 1) ?u) m (t + 1) FLAG_ACK []"
    using sends_pure_ack [of e ?u w "t + 1"] w by (simp add: ends_def)
  ultimately show ?thesis
    using w by (simp add: ends_def sends_def) (simp add: start_2msl_timer_def transition_to_def timer_simps)
qed

lemma input_last_ack:
  assumes q: "quiet_env e" and w: "ends e LAST_ACK m (m + 1) t w" and p: "seg_is p seq (m + 1) FLAG_ACK []"
  shows "\<exists>w'. input e p w = Inr w' \<and> state w' = CLOSED"
proof -
  let ?w = "w\<lparr>peer_usable_window_size := ucast (ntohs (window_size (header p)))\<rparr>"
  have "verify_checksum p" and "ntohl (ack_num (header p)) = m + 1"
    using p by (simp_all add: seg_is_def)
  then have "input_state p w = CLOSED"
    using w by (simp add: input_state_def segment_state_def seg_is_flag [OF p] flag_values ends_def acks_next_def)
  then show ?thesis
    using input_state_correct [OF q, of w p] w by (auto simp: returns_def in_state_def ends_def)
qed

text \<open>The same, and the end of the 2MSL wait, up to the callback; and reading at the end of the stream.\<close>

lemma last_ack_taken:
  assumes w: "ends e LAST_ACK m (m + 1) t w" and p: "seg_is p seq (m + 1) FLAG_ACK []"
  shows "\<exists>v. input e p w = call_if_set (on_closed_cb e) v \<and> state v = CLOSED \<and> place v = place w"
proof -
  let ?w = "w\<lparr>peer_usable_window_size := ucast (ntohs (window_size (header p)))\<rparr>"
  let ?v = "transition_to CLOSED (?w\<lparr>swnd := (swnd w)\<lparr>send_unack := m + 1\<rparr>, tmgr := stop_timer m (tmgr w)\<rparr>)"
  have "verify_checksum p" and "ntohl (ack_num (header p)) = m + 1"
    using p by (simp_all add: seg_is_def)
  then have "input e p w = call_if_set (on_closed_cb e) ?v"
    using w by (simp add: input_accepted handle_last_ack_def Let_def seg_is_flag [OF p] flag_values ends_def)
  moreover have "state ?v = CLOSED"
    by (simp add: transition_to_def)
  ultimately show ?thesis
    by (intro exI [of _ ?v]) simp
qed

lemma msl_elapsed:
  assumes "armed (tmgr w) Two_msl = Some (On_2msl, d)"
  shows "\<exists>v. expire e Two_msl w = call_if_set (on_closed_cb e) v \<and> state v = CLOSED \<and> place v = place w"
proof -
  let ?v = "(transition_to CLOSED w)\<lparr>tmgr := uv_request (Uv_timer_stop Two_msl) (tmgr (transition_to CLOSED w))\<rparr>"
  have "expire e Two_msl w = call_if_set (on_closed_cb e) ?v" "place ?v = place w"
    using assms by (simp_all add: expire_def handle_2msl_timeout_def Let_def)
  moreover have "state ?v = CLOSED"
    by (simp add: transition_to_def)
  ultimately show ?thesis
    by blast
qed

lemma read_at_eof:
  assumes w: "idle e CLOSE_WAIT m t w" and empty: "qsize (recv_buffer w) = 0" and auto_close: "auto_close_on_eof w"
  shows "\<exists>v. read_all e w = Inr ([], v) \<and> ends e LAST_ACK m (m + 1) t v \<and> sends w v m t (FLAG_FIN OR FLAG_ACK) []
    \<and> place v = place w"
proof -
  have "read_all e w = bind_res (close e w) (\<lambda>w. Inr ([], w))"
    using w empty auto_close by (simp add: read_all_eq Let_def auto_close_def idle_def ring_empty_def)
  then show ?thesis
    using close_passive [OF w] by auto
qed

lemma does_close_client:
  "close ec (client n) = Inr w \<Longrightarrow> net_step ec es (At_client Ev_close) n = Inr (n\<lparr>client := w\<rparr>)"
  by (cases n) (simp add: client_does_def)

lemma does_close_server:
  "close es (server n) = Inr w \<Longrightarrow> net_step ec es (At_server Ev_close) n = Inr (n\<lparr>server := w\<rparr>)"
  by (cases n) (simp add: server_does_def)

lemma does_timer_client:
  "expire ec h (client n) = Inr w \<Longrightarrow> net_step ec es (At_client (Ev_timer h)) n = Inr (n\<lparr>client := w\<rparr>)"
  by (cases n) (simp add: client_does_def)

lemma close_exchange:
  assumes qc: "quiet_env ec" and qs: "quiet_env es"
    and c: "idle ec ESTABLISHED x y (client n)" and s: "idle es ESTABLISHED y x (server n)"
    and i: "i = length (udp_sends (udp (client n)))" and j: "j = length (udp_sends (udp (server n)))"
  shows "\<exists>c' s'. net_run ec es [At_client Ev_close, To_server i, To_client j, At_server Ev_close,
        To_client (j + 1), To_server (i + 1), At_client (Ev_timer Two_msl)] n
        = Inr (n\<lparr>client := c', server := s'\<rparr>) \<and> state c' = CLOSED \<and> state s' = CLOSED"
proof -
  obtain c1 where k1: "close ec (client n) = Inr c1" and c1: "ends ec FIN_WAIT_1 x (x + 1) y c1"
    and f1: "sends (client n) c1 x y FLAG_FIN []"
    using close_active [OF c] by blast
  obtain p1 where a1: "arrivals i c1 = Some p1" and p1: "seg_is p1 x y FLAG_FIN []"
    by (rule sends_arrives [OF f1 i])
  obtain s1 where i1: "input es p1 (server n) = Inr s1" and s1: "idle es CLOSE_WAIT y (x + 1) s1"
    and f2: "sends (server n) s1 y (x + 1) FLAG_ACK []"
    using input_fin [OF qs s p1] by blast
  obtain p2 where a2: "arrivals j s1 = Some p2" and p2: "seg_is p2 y (x + 1) FLAG_ACK []"
    by (rule sends_arrives [OF f2 j])
  obtain c2 where i2: "input ec p2 c1 = Inr c2" and c2: "ends ec FIN_WAIT_2 (x + 1) (x + 1) y c2"
    and u2: "udp_sends (udp c2) = udp_sends (udp c1)"
    using input_fin_acked [OF c1 p2] by blast
  obtain s2 where k2: "close es s1 = Inr s2" and s2: "ends es LAST_ACK y (y + 1) (x + 1) s2"
    and f3: "sends s1 s2 y (x + 1) (FLAG_FIN OR FLAG_ACK) []"
    using close_passive [OF s1] by blast
  have j1: "j + 1 = length (udp_sends (udp s1))" and i1': "i + 1 = length (udp_sends (udp c2))"
    using sends_length [OF f2] sends_length [OF f1] i j u2 by simp_all
  obtain p3 where a3: "arrivals (j + 1) s2 = Some p3" and p3: "seg_is p3 y (x + 1) (FLAG_FIN OR FLAG_ACK) []"
    by (rule sends_arrives [OF f3 j1])
  obtain c3 where i3: "input ec p3 c2 = Inr c3" and c3: "ends ec TIME_WAIT (x + 1) (x + 1) (y + 1) c3"
    and f4: "sends c2 c3 (x + 1) (y + 1) FLAG_ACK []"
    and t3: "armed (tmgr c3) Two_msl = Some (On_2msl, 2 * 60 * 1000)"
    using input_last_fin [OF c2 p3] by blast
  obtain p4 where a4: "arrivals (i + 1) c3 = Some p4" and p4: "seg_is p4 (x + 1) (y + 1) FLAG_ACK []"
    by (rule sends_arrives [OF f4 i1'])
  obtain s3 where i4: "input es p4 s2 = Inr s3" and s3: "state s3 = CLOSED"
    using input_last_ack [OF qs s2 p4] by blast
  obtain c4 where k4: "expire ec Two_msl c3 = Inr c4" and c4: "state c4 = CLOSED"
    using handle_2msl_state [OF qc, of c3] c3 t3 by (auto simp: expire_def returns_def in_state_def ends_def)
  have "net_run ec es [At_client Ev_close, To_server i, To_client j, At_server Ev_close,
        To_client (j + 1), To_server (i + 1), At_client (Ev_timer Two_msl)] n = Inr (n\<lparr>client := c4, server := s3\<rparr>)"
    using does_close_client [OF k1, of es] deliver_server [of i "n\<lparr>client := c1\<rparr>" p1 es s1 ec] a1 i1
      deliver_client [of j "n\<lparr>client := c1, server := s1\<rparr>" p2 ec c2 es] a2 i2
      does_close_server [of es "n\<lparr>client := c2, server := s1\<rparr>" s2 ec] k2
      deliver_client [of "j + 1" "n\<lparr>client := c2, server := s2\<rparr>" p3 ec c3 es] a3 i3
      deliver_server [of "i + 1" "n\<lparr>client := c3, server := s2\<rparr>" p4 es s3 ec] a4 i4
      does_timer_client [of ec Two_msl "n\<lparr>client := c3, server := s3\<rparr>" c4 es] k4
    by (cases n) (simp del: net_step.simps)
  then show ?thesis
    using c4 s3 by blast
qed

section \<open>Properties\<close>

text \<open>
  Three-way handshake: when no datagram is lost, the client's SYN, the server's answer and
  the client's acknowledgement (as bytes, with their checksums) take both sides to
  ESTABLISHED, with nothing in flight and with each side expecting exactly the sequence
  number the other sends next.
\<close>

theorem handshake_completes:
  assumes "quiet_env ec" and "quiet_env es" and "reliable ec dc" and "udp_sends dc = []"
    and "reliable es ds" and "udp_sends ds = []"
  shows "\<exists>n. net_run ec es [To_server 0, To_client 0, To_server 1]
        (opened ec (new_session pc ic rc lc kc) dc nc (new_session ps is rs ls ks) ds ns) = Inr n
    \<and> state (client n) = ESTABLISHED \<and> state (server n) = ESTABLISHED
    \<and> send_unack (swnd (client n)) = gen_initial_seq ec nc + 1 \<and> send_next (swnd (client n)) = gen_initial_seq ec nc + 1
    \<and> recv_next (rwnd (server n)) = gen_initial_seq ec nc + 1
    \<and> send_unack (swnd (server n)) = gen_initial_seq es ns + 1 \<and> send_next (swnd (server n)) = gen_initial_seq es ns + 1
    \<and> recv_next (rwnd (client n)) = gen_initial_seq es ns + 1"
proof -
  obtain c s where run: "net_run ec es [To_server 0, To_client 0, To_server 1]
        (opened ec (new_session pc ic rc lc kc) dc nc (new_session ps is rs ls ks) ds ns)
      = Inr ((opened ec (new_session pc ic rc lc kc) dc nc (new_session ps is rs ls ks) ds ns)
               \<lparr>client := c, server := s\<rparr>)"
    and "idle ec ESTABLISHED (gen_initial_seq ec nc + 1) (gen_initial_seq es ns + 1) c"
    and "idle es ESTABLISHED (gen_initial_seq es ns + 1) (gen_initial_seq ec nc + 1) s"
    using handshake [OF assms refl] by blast
  then show ?thesis
    by (simp add: idle_def del: net_run.simps)
qed

lemma example_reliable: "reliable example_env new_driver"
  by (simp add: reliable_def new_driver_def example_env_def session_env_def set_on_data_def
      set_on_closed_def set_on_recv_three_dup_ack_def Let_def)

lemma example_quiet: "quiet_env example_env"
  unfolding example_env_def by (rule session_env_quiet)

lemma new_driver_sends: "udp_sends new_driver = []"
  by (simp add: new_driver_def)

text \<open>An idle established pair.\<close>

definition example_established :: "u32 \<Rightarrow> u32 \<Rightarrow> world" where
  "example_established mine theirs = (enter_world (new_session 0 1 2 3 4) new_driver 0)
     \<lparr>state := ESTABLISHED,
      swnd := \<lparr>send_unack = mine, send_next = mine, send_window_size = 8, initial_send_seq = 1\<rparr>,
      rwnd := \<lparr>recv_next = theirs, recv_window_size = 1, initial_recv_seq = 2\<rparr>\<rparr>"

definition example_net :: "u32 \<Rightarrow> u32 \<Rightarrow> net" where
  "example_net x y = \<lparr>client = example_established x y, server = example_established y x,
     client_wrote = [], server_wrote = [], client_read = [], server_read = []\<rparr>"

lemma example_established_idle: "idle example_env ESTABLISHED m t (example_established m t)"
  using base_inv_new [of 0 1 2 3 4 new_driver 0] example_reliable
  by (simp add: idle_def example_established_def base_inv_def)
    (simp add: enter_world_new ring_new_def)

lemma example_net_idle:
  "idle example_env ESTABLISHED x y (client (example_net x y))"
  "idle example_env ESTABLISHED y x (server (example_net x y))"
  by (simp_all add: example_net_def example_established_idle)

theorem handshake_completes_witness:
  "\<exists>n. net_run example_env example_env [To_server 0, To_client 0, To_server 1]
        (opened example_env (new_session 0 1 2 3 4) new_driver 0 (new_session 5 6 7 8 9) new_driver 1) = Inr n
    \<and> state (client n) = ESTABLISHED \<and> state (server n) = ESTABLISHED"
  using handshake_completes [OF example_quiet example_quiet example_reliable new_driver_sends
      example_reliable new_driver_sends] by blast

text \<open>
  Data gets through: on an idle established connection, without loss, data that fits the
  congestion window and the receive buffer (and does not cross the wrap-around of the
  sequence numbers) is in the peer's receive buffer after one exchange, acknowledged, and the
  connection is idle again at the next sequence number.
\<close>

theorem data_round_delivers:
  assumes "quiet_env ec" and "quiet_env es"
    and "idle ec ESTABLISHED x y (client n)" and "idle es ESTABLISHED y x (server n)"
    and "data \<noteq> []" and "length data \<le> 1024" and "length data \<le> unat (send_window_size (swnd (client n)))"
    and "qsize (recv_buffer (server n)) + length data \<le> 1024"
    and "unat x + length data < 2 ^ 32" and "dup_ack_count (client n) \<le> 1"
  shows "\<exists>n'. net_run ec es [At_client (Ev_send data), To_server (length (udp_sends (udp (client n)))),
        To_client (length (udp_sends (udp (server n))))] n = Inr n'
    \<and> client_wrote n' = client_wrote n @ data
    \<and> ring_contents (recv_buffer (server n')) = ring_contents (recv_buffer (server n)) @ data
    \<and> idle ec ESTABLISHED (x + of_nat (length data)) y (client n')
    \<and> idle es ESTABLISHED y (x + of_nat (length data)) (server n')"
  using data_round [OF assms] by fastforce

theorem data_round_delivers_witness:
  "\<exists>n'. net_run example_env example_env [At_client (Ev_send [7, 8, 9]), To_server 0, To_client 0]
        (example_net 1000 2000) = Inr n'
    \<and> ring_contents (recv_buffer (server n')) = [7, 8, 9]"
proof -
  let ?n = "example_net 1000 2000"
  have n: "udp_sends (udp (client ?n)) = []" "udp_sends (udp (server ?n)) = []"
    "send_window_size (swnd (client ?n)) = 8" "dup_ack_count (client ?n) = 0"
    "qsize (recv_buffer (server ?n)) = 0" "ring_contents (recv_buffer (server ?n)) = []"
    by (simp_all add: example_net_def example_established_def enter_world_new new_driver_def ring_simps)
      (simp add: ring_new_def)
  show ?thesis
    using data_round_delivers [OF example_quiet example_quiet example_net_idle, of "[7, 8, 9]" 1000 2000] n
    by (auto simp del: net_run.simps)
qed

text \<open>
  Orderly close. On an idle established connection, without loss, the client's close, the
  server's close and the expiry of the client's 2MSL timer take both sides to CLOSED through
  FIN_WAIT_1, FIN_WAIT_2, TIME_WAIT and CLOSE_WAIT, LAST_ACK.
\<close>

theorem orderly_close:
  assumes "quiet_env ec" and "quiet_env es"
    and "idle ec ESTABLISHED x y (client n)" and "idle es ESTABLISHED y x (server n)"
  shows "\<exists>n'. net_run ec es [At_client Ev_close, To_server (length (udp_sends (udp (client n)))),
        To_client (length (udp_sends (udp (server n)))), At_server Ev_close,
        To_client (length (udp_sends (udp (server n))) + 1), To_server (length (udp_sends (udp (client n))) + 1),
        At_client (Ev_timer Two_msl)] n = Inr n'
    \<and> state (client n') = CLOSED \<and> state (server n') = CLOSED"
  using close_exchange [OF assms refl refl] by fastforce

theorem orderly_close_witness:
  "\<exists>n'. net_run example_env example_env [At_client Ev_close, To_server 0, To_client 0, At_server Ev_close,
        To_client 1, To_server 1, At_client (Ev_timer Two_msl)] (example_net 1000 2000) = Inr n'
    \<and> state (client n') = CLOSED \<and> state (server n') = CLOSED"
proof -
  have n: "udp_sends (udp (client (example_net 1000 2000))) = []" "udp_sends (udp (server (example_net 1000 2000))) = []"
    by (simp_all add: example_net_def example_established_def enter_world_new new_driver_def)
  show ?thesis
    using orderly_close [OF example_quiet example_quiet example_net_idle, of 1000 2000]
    by (simp add: n del: net_run.simps)
qed

end
