(* ===== verification/Loss_Recovery.thy ===== *)
theory Loss_Recovery
  imports Data_Transfer
begin

text \<open>
  What the session does about losses: the retransmission schedule of a segment, what it does
  to the congestion window, what the window allows to be sent, which timers an
  acknowledgement clears, and why duplicate acknowledgements are never counted to three.
\<close>

section \<open>The retransmission schedule\<close>

text \<open>The timer of a sequence number expires; or expires \<open>k\<close> times in a row.\<close>

definition timer_expires :: "env \<Rightarrow> u32 \<Rightarrow> world \<Rightarrow> world result" where
  "timer_expires e seq w =
     (case map_find seq (timers (tmgr w)) of
        None \<Rightarrow> Inr w
      | Some timer \<Rightarrow> expire e (Seq_timer timer) w)"

fun expiries :: "env \<Rightarrow> u32 \<Rightarrow> nat \<Rightarrow> world \<Rightarrow> world result" where
  "expiries e seq 0 w = Inr w"
| "expiries e seq (Suc k) w = bind_res (expiries e seq k w) (timer_expires e seq)"

lemma timer_expires_armed:
  assumes "armed_closure (tmgr w) s = Some (c, t)"
  shows "timer_expires e s w = Inr (run_retransmit_closure e c w)"
  using assms by (auto simp: timer_expires_def armed_closure_def armed_seq_def expire_def
      split: option.splits uv_callback.splits)

text \<open>
  The segment with sequence number \<open>s\<close> of packet \<open>p\<close> after \<open>k\<close> retransmissions, begun in the
  world \<open>w0\<close>: sent again \<open>k\<close> times, unchanged but for acknowledgement and window, and armed
  with the doubled timeout.
\<close>

definition resent :: "tcp_packet \<Rightarrow> u32 \<Rightarrow> tcp_packet \<Rightarrow> bool" where
  "resent p ack q \<longleftrightarrow> seq_num (header q) = seq_num (header p) \<and> flags (header q) = flags (header p)
     \<and> payload q = payload p \<and> ntohl (ack_num (header q)) = ack \<and> verify_checksum q"

definition same_connection :: "world \<Rightarrow> world \<Rightarrow> bool" where
  "same_connection w w' \<longleftrightarrow> state w' = state w \<and> send_buffer w' = send_buffer w \<and> recv_buffer w' = recv_buffer w
     \<and> rwnd w' = rwnd w \<and> send_unack (swnd w') = send_unack (swnd w) \<and> send_next (swnd w') = send_next (swnd w)
     \<and> current_rto w' = current_rto w \<and> posts w' = posts w
     \<and> dup_ack_count w' = dup_ack_count w \<and> last_ack_received w' = last_ack_received w
     \<and> (remote_ip w', remote_port w') = (remote_ip w, remote_port w)"

definition resent_times :: "tcp_packet \<Rightarrow> sock_addr \<Rightarrow> nat \<Rightarrow> world \<Rightarrow> world \<Rightarrow> bool" where
  "resent_times p dest k w0 w \<longleftrightarrow>
     (\<exists>qs. udp_sends (udp w) = udp_sends (udp w0) @ map (\<lambda>q. (raw_data q, dest)) qs \<and> length qs = k
        \<and> (\<forall>q\<in>set qs. resent p (recv_next (rwnd w0)) q))"

definition waiting :: "env \<Rightarrow> tcp_packet \<Rightarrow> sock_addr \<Rightarrow> nat \<Rightarrow> world \<Rightarrow> world \<Rightarrow> bool" where
  "waiting e p dest k w0 w \<longleftrightarrow>
     timers_ok (tmgr w) \<and> reliable e (udp w) \<and> same_connection w0 w \<and> resent_times p dest k w0 w
     \<and> (\<exists>c t. armed_closure (tmgr w) (ntohl (seq_num (header p))) = Some (c, t) \<and> rt_count c = of_nat k
          \<and> (rt_ip c, rt_port c) = dest \<and> seq_num (header (rt_packet c)) = seq_num (header p)
          \<and> flags (header (rt_packet c)) = flags (header p) \<and> payload (rt_packet c) = payload p
          \<and> (0 < k \<longrightarrow> t = get_timeout_ms w0 * 2 ^ k))"

lemma push_bit_two_power: "push_bit k (1 :: u64) = 2 ^ k"
  by (simp add: push_bit_eq_mult)

lemma count_limit:
  assumes "k \<le> 4"
  shows "MAX_RETRANSMIT_COUNT \<le> of_nat k + 1 \<longleftrightarrow> k = 4" and "unat (of_nat k + 1 :: u32) = Suc k"
proof -
  have "unat (of_nat (Suc k) :: u32) = Suc k"
    using assms by (simp add: unat_of_nat del: of_nat_Suc)
  then show u: "unat (of_nat k + 1 :: u32) = Suc k"
    by (simp add: add.commute)
  show "MAX_RETRANSMIT_COUNT \<le> of_nat k + 1 \<longleftrightarrow> k = 4"
    using assms by (simp add: word_le_nat_alt u) (auto simp: MAX_RETRANSMIT_COUNT_def)
qed

lemma waiting_expires:
  assumes w: "waiting e p dest k w0 w" and k: "k < 4" and short: "length (payload p) \<le> 65535"
  shows "\<exists>w'. timer_expires e (ntohl (seq_num (header p))) w = Inr w' \<and> waiting e p dest (Suc k) w0 w'"
proof -
  let ?s = "ntohl (seq_num (header p))"
  obtain c t where c: "armed_closure (tmgr w) ?s = Some (c, t)" "rt_count c = of_nat k"
    "(rt_ip c, rt_port c) = dest" "seq_num (header (rt_packet c)) = seq_num (header p)"
    "flags (header (rt_packet c)) = flags (header p)" "payload (rt_packet c) = payload p"
    and ok: "timers_ok (tmgr w)" and rel: "reliable e (udp w)" and same: "same_connection w0 w"
    using w unfolding waiting_def by blast
  obtain qs where qs: "udp_sends (udp w) = udp_sends (udp w0) @ map (\<lambda>q. (raw_data q, dest)) qs"
    "length qs = k" "\<forall>q\<in>set qs. resent p (recv_next (rwnd w0)) q"
    using w unfolding waiting_def resent_times_def by blast
  let ?p = "(rt_packet c)\<lparr>header := (header (rt_packet c))\<lparr>ack_num := htonl (recv_next (rwnd w)),
      window_size := htons (ucast (get_usable_recv_window_size w))\<rparr>\<rparr>"
  let ?q = "calculate_checksum ?p"
  let ?c = "\<lparr>rt_packet = ?q, rt_count = of_nat k + 1, rt_ip = rt_ip c, rt_port = rt_port c\<rparr>"
  let ?w = "run_retransmit_closure e c w"
  have count: "\<not> MAX_RETRANSMIT_COUNT \<le> of_nat k + 1" "unat (of_nat k + 1 :: u32) = Suc k"
    using k count_limit [of k] by auto
  have ret: "tmgr ?w = start_timer ?s (get_timeout_ms w * 2 ^ Suc k) ?c (stop_timer ?s (tmgr w))"
    "udp ?w = send_packet (draw e) ?q dest (udp w)"
    using count c by (simp_all add: run_retransmit_closure_def handle_retransmit_def Let_def push_bit_two_power
        del: power_Suc)
  have "verify_checksum ?q"
    using short c(6) by (intro checksum_accepts) simp
  then have q: "resent p (recv_next (rwnd w0)) ?q"
    using c same by (simp add: resent_def frame_simps same_connection_def)
  have "resent_times p dest (Suc k) w0 ?w"
    unfolding resent_times_def ret reliable_sends [OF rel]
    by (rule exI [of _ "qs @ [?q]"]) (use qs q in auto)
  moreover have "armed_closure (tmgr ?w) ?s = Some (?c, get_timeout_ms w0 * 2 ^ Suc k)"
    unfolding ret using tm.restart_replaces [OF ok, of ?s "(?c, get_timeout_ms w * 2 ^ Suc k)"] same
    by (simp add: get_timeout_ms_def same_connection_def del: power_Suc)
  moreover have "timers_ok (tmgr ?w)"
    unfolding ret using ok by (intro start_timer_ok stop_timer_ok)
  moreover have "same_connection w0 ?w"
    using same by (simp add: same_connection_def run_retransmit_closure_def handle_retransmit_def Let_def)
  ultimately have "waiting e p dest (Suc k) w0 ?w"
    using rel ret(2) c q unfolding waiting_def by (auto simp: frame_simps)
  then show ?thesis
    using timer_expires_armed [OF c(1), of e] by blast
qed

lemma waiting_gives_up:
  assumes w: "waiting e p dest 4 w0 w"
  shows "\<exists>w'. timer_expires e (ntohl (seq_num (header p))) w = Inr w'
    \<and> armed_seq (tmgr w') (ntohl (seq_num (header p))) = None
    \<and> resent_times p dest 4 w0 w' \<and> same_connection w0 w'"
proof -
  let ?s = "ntohl (seq_num (header p))"
  obtain c t where c: "armed_closure (tmgr w) ?s = Some (c, t)" "rt_count c = 4"
    "seq_num (header (rt_packet c)) = seq_num (header p)"
    and ok: "timers_ok (tmgr w)" and same: "same_connection w0 w" and r: "resent_times p dest 4 w0 w"
    using w unfolding waiting_def by auto
  have "run_retransmit_closure e c w = w\<lparr>tmgr := stop_timer ?s (tmgr w)\<rparr>"
    using c by (simp add: run_retransmit_closure_def handle_retransmit_def Let_def MAX_RETRANSMIT_COUNT_def)
  then show ?thesis
    using timer_expires_armed [OF c(1), of e] stop_timer_armed_seq [OF ok, of ?s] same r
    by (simp add: same_connection_def resent_times_def)
qed

text \<open>A segment just sent is waiting for its first expiry.\<close>

lemma sent_is_waiting:
  assumes "timers_ok (tmgr w)" and "reliable e (udp w)"
    and "armed_closure (tmgr w) (ntohl (seq_num (header p))) = Some (c, t)" and "rt_count c = 0"
    and "rt_packet c = p" and "(rt_ip c, rt_port c) = dest"
  shows "waiting e p dest 0 w w"
  using assms by (simp add: waiting_def same_connection_def resent_times_def)

lemma expiries_waiting:
  assumes "waiting e p dest 0 w w" and "length (payload p) \<le> 65535"
  shows "k \<le> 4 \<Longrightarrow> \<exists>w'. expiries e (ntohl (seq_num (header p))) k w = Inr w' \<and> waiting e p dest k w w'"
proof (induction k)
  case (Suc k)
  then obtain w' where "expiries e (ntohl (seq_num (header p))) k w = Inr w'" "waiting e p dest k w w'"
    by auto
  then show ?case
    using waiting_expires [OF _ _ assms(2), of e dest k w w'] Suc.prems by simp
qed (use assms in simp)

lemma expiries_after_giving_up:
  assumes "waiting e p dest 0 w w" and "length (payload p) \<le> 65535"
  shows "\<exists>w'. expiries e (ntohl (seq_num (header p))) (5 + k) w = Inr w'
    \<and> armed_seq (tmgr w') (ntohl (seq_num (header p))) = None
    \<and> resent_times p dest 4 w w' \<and> same_connection w w'"
proof (induction k)
  case 0
  obtain w4 where "expiries e (ntohl (seq_num (header p))) 4 w = Inr w4" "waiting e p dest 4 w w4"
    using expiries_waiting [OF assms, of 4] by auto
  then show ?case
    using waiting_gives_up [of e p dest w w4] by (simp add: numeral_eq_Suc)
next
  case (Suc k)
  then obtain w' where w': "expiries e (ntohl (seq_num (header p))) (5 + k) w = Inr w'"
    "armed_seq (tmgr w') (ntohl (seq_num (header p))) = None"
    "resent_times p dest 4 w w'" "same_connection w w'"
    by auto
  then have "timer_expires e (ntohl (seq_num (header p))) w' = Inr w'"
    by (auto simp: timer_expires_def armed_seq_def expire_def split: option.splits)
  moreover have "5 + Suc k = Suc (5 + k)"
    by simp
  ultimately show ?case
    unfolding \<open>5 + Suc k = Suc (5 + k)\<close> expiries.simps using w' by simp
qed

section \<open>What the congestion window lets out\<close>

text \<open>The number of bytes in flight, and the window, in bytes.\<close>

definition in_flight :: "world \<Rightarrow> nat" where
  "in_flight w = unat (send_next (swnd w) - send_unack (swnd w))"

definition cwnd :: "world \<Rightarrow> nat" where
  "cwnd w = unat (send_window_size (swnd w))"

lemma unat_underflow: "(b :: u32) < a \<Longrightarrow> unat (b - a) + unat a = 2 ^ 32 + unat b"
  using unsigned_less [of a, where ?'a = nat] by (simp add: unat_sub_if' word_less_nat_alt)

lemma unat_plus_small: "unat (x :: u32) + n < 2 ^ 32 \<Longrightarrow> unat (x + of_nat n) = unat x + n"
  by (simp add: unat_word_ariths unat_of_nat)

text \<open>Within the window, what is sent fills it up; beyond it, everything goes out.\<close>

lemma try_send_within:
  assumes "sends_data (state w)" and "in_flight w \<le> cwnd w"
  shows "try_send_data w = take (cwnd w - in_flight w) (drop (in_flight w) (ring_contents (send_buffer w)))"
proof -
  have "unat (send_window_size (swnd w) - (send_next (swnd w) - send_unack (swnd w))) = cwnd w - in_flight w"
    using assms(2) by (simp add: cwnd_def in_flight_def unat_sub word_le_nat_alt)
  then show ?thesis
    using assms(1) by (simp add: try_send_data_def Let_def in_flight_def)
qed

lemma try_send_beyond:
  assumes base: "base_inv w" and "sends_data (state w)" and beyond: "cwnd w < in_flight w" and few: "in_flight w \<le> 1024"
  shows "try_send_data w = drop (in_flight w) (ring_contents (send_buffer w))"
proof -
  let ?f = "send_next (swnd w) - send_unack (swnd w)"
  have "send_window_size (swnd w) < ?f"
    using beyond by (simp add: cwnd_def in_flight_def word_less_nat_alt)
  from unat_underflow [OF this] have "2 ^ 32 - 1024 \<le> unat (send_window_size (swnd w) - ?f)"
    using few by (simp add: in_flight_def)
  moreover have "qsize (send_buffer w) \<le> 1024"
    using base ring_ok_bound [of "send_buffer w"] by (auto simp: base_inv_def base_ok_def)
  ultimately show ?thesis
    using assms(2) by (simp add: try_send_data_def Let_def in_flight_def)
qed

section \<open>Timers after an acknowledgement\<close>

lemma accept_ack_timers:
  assumes "timers_ok (tmgr w)"
  shows "armed_seq (tmgr (accept_ack a w)) s = (if s < a - 1 then None else armed_seq (tmgr w) s)"
  using drop_timer_up_to_ok_armed [OF assms, of "a - 1"] by (simp add: accept_ack_def Let_def)

section \<open>Duplicate acknowledgements\<close>

text \<open>
  The counter is only touched for acknowledgements of new data, so it can reach one (when the
  first of them equals the initial value of \<open>last_ack_received_\<close>), never three. Callbacks
  notify; the one for three duplicates is arbitrary, or missing.
\<close>

definition notifying :: "env \<Rightarrow> bool" where
  "notifying e \<longleftrightarrow> (\<forall>f. on_established_cb e = Some f \<longrightarrow> quiet f)
     \<and> (\<forall>f n. on_data_cb e = Some f \<longrightarrow> quiet (f n)) \<and> (\<forall>f. on_closed_cb e = Some f \<longrightarrow> quiet f)"

definition dup_ok :: "tcp_state \<Rightarrow> int \<Rightarrow> u32 \<Rightarrow> u32 \<Rightarrow> bool" where
  "dup_ok s dups last_ack unack \<longleftrightarrow>
     (dups = 0 \<or> dups = 1 \<and> past s \<or> dups = 1 \<and> s = ESTABLISHED \<and> last_ack \<le> unack)"

definition dup_inv :: "world \<Rightarrow> bool" where
  "dup_inv w \<longleftrightarrow> base_inv w \<and> dup_ok (state w) (dup_ack_count w) (last_ack_received w) (send_unack (swnd w))"

lemma returns_left: "returns (\<lambda>w. P w \<and> Q w) r \<Longrightarrow> returns P r"
  by (auto simp: returns_def)

lemma transition_fields [simp]:
  "swnd (transition_to s w) = swnd w" "dup_ack_count (transition_to s w) = dup_ack_count w"
  "last_ack_received (transition_to s w) = last_ack_received w"
  by (simp_all add: transition_to_def)

lemma dup_ok_past: "dup_ok s d l u \<Longrightarrow> past s' \<Longrightarrow> dup_ok s' d l' u'"
  by (auto simp: dup_ok_def)

lemma dup_call:
  assumes "\<And>f. cb = Some f \<Longrightarrow> quiet f" and "dup_inv w \<and> state w = s"
  shows "returns (\<lambda>w. dup_inv w \<and> state w = s) (call_if_set cb w)"
proof -
  obtain ps b where "call_if_set cb w = Inr (w\<lparr>posts := ps, is_in_ready_queue := b\<rparr>)"
    by (rule quiet_call [of cb w]) (use assms(1) in auto)
  then show ?thesis
    using assms(2) by (auto simp: dup_inv_def)
qed

lemma dup_try_send:
  assumes "dup_inv w \<and> state w = s"
  shows "returns (\<lambda>w. dup_inv w \<and> state w = s) (handle_try_send e w)"
  using assms handle_try_send_eq [of w e] by (auto simp: dup_inv_def base_inv_payload)

lemma dup_handle_ack:
  assumes w: "dup_inv w \<and> state w = ESTABLISHED"
  shows "returns (\<lambda>(_, w). dup_inv w \<and> state w = ESTABLISHED) (handle_ack e p w)"
proof (cases "ack_acceptable (ntohl (ack_num (header p))) w")
  case True
  let ?a = "ntohl (ack_num (header p))"
  let ?v = "count_dup_ack ?a (accept_ack ?a w)"
  have "dup_ack_count (accept_ack ?a w) = 0
      \<or> dup_ack_count (accept_ack ?a w) = 1 \<and> last_ack_received (accept_ack ?a w) \<le> send_unack (swnd w)"
    using w by (auto simp: dup_inv_def dup_ok_def)
  from count_dup_bound [OF this] True
  have d: "dup_ack_count ?v = 0 \<or> dup_ack_count ?v = 1 \<and> last_ack_received ?v \<le> ?a"
    by (simp add: ack_acceptable_def)
  have "base_inv ?v"
    using w by (simp add: dup_inv_def base_inv_accept_ack)
  then have "dup_inv (grow_cwnd ?v) \<and> state (grow_cwnd ?v) = ESTABLISHED"
    using d w by (simp add: dup_inv_def dup_ok_def) (auto simp: grow_cwnd_def Let_def)
  from dup_try_send [OF this, of e] show ?thesis
    using True d by (auto simp: handle_ack_def Let_def react_dup_ack_def returns_def)
qed (use w in \<open>simp add: handle_ack_def Let_def\<close>)

lemma dup_handle_established:
  assumes n: "notifying e" and w: "dup_inv w \<and> state w = ESTABLISHED"
  shows "returns dup_inv (handle_established e p w)"
  unfolding handle_established_def
proof (intro returns_bind)
  show "returns (\<lambda>w. dup_inv w \<and> state w = ESTABLISHED) (if has_flag p FLAG_ACK
      then bind_res (handle_ack e p w) (\<lambda>(_, w). handle_try_send e w) else Inr w)"
    using w by (auto intro!: returns_bind [OF dup_handle_ack [OF w]] dup_try_send)
next
  fix w1
  assume w1: "dup_inv w1 \<and> state w1 = ESTABLISHED"
  have "returns (\<lambda>(_, w). dup_inv w \<and> state w = ESTABLISHED) (handle_incoming_packet e p w1)"
    using w1 by (auto simp: dup_inv_def handle_incoming_eq Let_def base_inv_accept_in_order)
      (auto simp: accept_in_order_eq)
  then show "returns (\<lambda>w. dup_inv w \<and> state w = ESTABLISHED) (if payload p \<noteq> []
      then bind_res (handle_incoming_packet e p w1) (\<lambda>(is_order, w).
        if is_order then call_if_set (map_option (\<lambda>cb. cb (available w)) (on_data_cb e)) w else Inr w)
      else Inr w1)"
    using w1 n by (auto elim!: returns_bind intro!: dup_call simp: notifying_def)
next
  fix w2
  assume w2: "dup_inv w2 \<and> state w2 = ESTABLISHED"
  have "returns (\<lambda>w. dup_inv w \<and> state w = CLOSE_WAIT) (call_if_set (map_option (\<lambda>cb. cb 0) (on_data_cb e))
      (transition_to CLOSE_WAIT (send_pure_ack e a (w2\<lparr>rwnd := (rwnd w2)\<lparr>recv_next := x\<rparr>\<rparr>))))" for a x
    using w2 n by (intro dup_call) (auto simp: notifying_def dup_inv_def dup_ok_def)
  then show "returns dup_inv (if has_flag p FLAG_FIN
      then let w = w2\<lparr>rwnd := (rwnd w2)\<lparr>recv_next := ntohl (seq_num (header p)) + 1\<rparr>\<rparr>;
               w = send_pure_ack e (recv_next (rwnd w)) w;
               w = transition_to CLOSE_WAIT w
           in call_if_set (map_option (\<lambda>cb. cb 0) (on_data_cb e)) w
      else Inr w2)"
    using w2 returns_left [where P = dup_inv and Q = "\<lambda>w. state w = CLOSE_WAIT"] by (simp add: Let_def)
qed

text \<open>Before a connection is established the counter is zero; afterwards it does not change.\<close>

lemma dup_established_call:
  assumes n: "notifying e" and b: "base_inv w" "state w = ESTABLISHED" "dup_ack_count w = 0"
  shows "returns dup_inv (bind_res (call_if_set (on_established_cb e) w) (handle_try_send e))"
proof (rule returns_bind)
  show "returns (\<lambda>w. dup_inv w \<and> state w = ESTABLISHED) (call_if_set (on_established_cb e) w)"
    using n b by (intro dup_call) (auto simp: notifying_def dup_inv_def dup_ok_def)
qed (auto intro: returns_left dup_try_send [of _ ESTABLISHED e])

lemma dup_young: "dup_inv w \<Longrightarrow> \<not> past (state w) \<Longrightarrow> state w \<noteq> ESTABLISHED \<Longrightarrow> dup_ack_count w = 0"
  by (auto simp: dup_inv_def dup_ok_def)

lemma dup_handle_syn_sent:
  assumes n: "notifying e" and w: "dup_inv w" "state w = SYN_SENT"
  shows "returns dup_inv (handle_syn_sent e p w)"
proof -
  have base: "base_inv w" and d: "dup_ack_count w = 0"
    using w dup_young [of w] by (auto simp: dup_inv_def)
  have est: "returns dup_inv (bind_res (call_if_set (on_established_cb e) v) (handle_try_send e))"
    if "v = transition_to ESTABLISHED (send_pure_ack e a (w\<lparr>rwnd := (rwnd w)\<lparr>recv_next := x\<rparr>,
      swnd := (swnd w)\<lparr>send_unack := y\<rparr>, tmgr := stop_timer z (tmgr w)\<rparr>))" for v a x y z
    unfolding that using base d
    by (intro dup_established_call n) (simp_all, simp add: base_inv_def base_ok_rules)
  show ?thesis
    using base w d unfolding handle_syn_sent_def Let_def
    by (auto intro!: est) (auto simp: dup_inv_def dup_ok_def intro!: base_inv_control)
qed

lemma dup_handle_syn_received:
  assumes n: "notifying e" and w: "dup_inv w" "state w = SYN_RECEIVED"
  shows "returns dup_inv (handle_syn_received e p w)"
proof -
  have base: "base_inv w" and d: "dup_ack_count w = 0"
    using w dup_young [of w] by (auto simp: dup_inv_def)
  have est: "returns dup_inv (bind_res (call_if_set (on_established_cb e) v) (handle_try_send e))"
    if "v = transition_to ESTABLISHED (w\<lparr>swnd := (swnd w)\<lparr>send_unack := y\<rparr>,
      tmgr := stop_timer z (tmgr w)\<rparr>)" for v y z
    unfolding that using base d
    by (intro dup_established_call n) (simp_all, simp add: base_inv_def base_ok_rules)
  show ?thesis
    using w unfolding handle_syn_received_def Let_def by (auto intro!: est)
qed

lemma dup_past_inv:
  "past (state w) \<Longrightarrow> dup_inv w \<longleftrightarrow> base_inv w \<and> (dup_ack_count w = 0 \<or> dup_ack_count w = 1)"
  by (auto simp: dup_inv_def dup_ok_def)

lemma dup_counter: "dup_inv w \<Longrightarrow> dup_ack_count w = 0 \<or> dup_ack_count w = 1"
  by (auto simp: dup_inv_def dup_ok_def)

lemma dup_closed_call:
  assumes n: "notifying e" and b: "base_inv w" "state w = CLOSED" "dup_ack_count w = 0 \<or> dup_ack_count w = 1"
  shows "returns dup_inv (call_if_set (on_closed_cb e) w)"
proof -
  have "returns (\<lambda>w. dup_inv w \<and> state w = CLOSED) (call_if_set (on_closed_cb e) w)"
    using n b by (intro dup_call) (auto simp: notifying_def dup_past_inv)
  then show ?thesis
    by (rule returns_mono) simp
qed

lemma two_msl_base:
  "base_inv w \<Longrightarrow> base_inv (start_2msl_timer w)"
  "base_inv w \<Longrightarrow> base_inv (w\<lparr>tmgr := uv_request (Uv_timer_stop Two_msl) (tmgr w)\<rparr>)"
  by (auto simp: base_inv_def base_ok_rules start_2msl_timer_def)

lemma dup_fields_kept [simp]:
  "dup_ack_count (handle_fin_wait_1 e p w) = dup_ack_count w"
  "dup_ack_count (handle_fin_wait_2 e p w) = dup_ack_count w"
  "dup_ack_count (handle_timed_wait e p w) = dup_ack_count w"
  "dup_ack_count (handle_listen e p w) = dup_ack_count w"
  by (simp_all add: handle_fin_wait_1_def handle_fin_wait_2_def handle_timed_wait_def handle_listen_def
      Let_def start_2msl_timer_def transition_to_def)

lemma dup_handle_close_wait:
  assumes w: "dup_inv w" "state w = CLOSE_WAIT"
  shows "returns dup_inv (handle_close_wait e p w)"
  unfolding handle_close_wait_def Let_def
proof (rule returns_bind)
  show "returns (\<lambda>w. dup_inv w \<and> state w = CLOSE_WAIT)
      (handle_try_send e (send_pure_ack e (recv_next (rwnd w)) w))"
    using w by (intro dup_try_send) (simp add: dup_inv_def)
qed (auto simp: dup_past_inv intro!: base_inv_control base_inv_stop_all)

lemma dup_segment:
  assumes n: "notifying e" and w: "dup_inv w"
  shows "returns dup_inv
     (case state w of
        CLOSED \<Rightarrow> Inr (w\<lparr>user_want_to_close := False\<rparr>)
      | LISTEN \<Rightarrow> Inr (handle_listen e p w)
      | SYN_SENT \<Rightarrow> handle_syn_sent e p w
      | SYN_RECEIVED \<Rightarrow> handle_syn_received e p w
      | ESTABLISHED \<Rightarrow> handle_established e p w
      | FIN_WAIT_1 \<Rightarrow> Inr (handle_fin_wait_1 e p w)
      | FIN_WAIT_2 \<Rightarrow> Inr (handle_fin_wait_2 e p w)
      | CLOSE_WAIT \<Rightarrow> handle_close_wait e p w
      | LAST_ACK \<Rightarrow> handle_last_ack e p w
      | TIME_WAIT \<Rightarrow> Inr (handle_timed_wait e p w))"
proof (cases "state w")
  case LISTEN
  then show ?thesis
    using w dup_young [OF w] by (simp add: dup_inv_def dup_ok_def base_inv_handle_listen)
next
  case FIN_WAIT_1
  then have "past (state (handle_fin_wait_1 e p w))"
    by (simp add: handle_fin_wait_1_state segment_state_def)
  then show ?thesis
    using FIN_WAIT_1 w by (simp add: dup_past_inv base_inv_handle_fin_wait_1)
next
  case FIN_WAIT_2
  then have "past (state (handle_fin_wait_2 e p w))"
    by (simp add: handle_fin_wait_2_state segment_state_def)
  then show ?thesis
    using FIN_WAIT_2 w by (simp add: dup_past_inv base_inv_handle_fin_wait_2)
next
  case TIME_WAIT
  then show ?thesis
    using w by (simp add: dup_past_inv handle_timed_wait_state base_inv_handle_timed_wait)
next
  case LAST_ACK
  have "base_inv (transition_to CLOSED (w\<lparr>swnd := (swnd w)\<lparr>send_unack := a\<rparr>, tmgr := stop_timer s (tmgr w)\<rparr>))" for a s
    using w by (simp add: dup_inv_def base_inv_def base_ok_rules transition_to_def)
  then show ?thesis
    using LAST_ACK w by (auto simp: handle_last_ack_def Let_def dup_past_inv intro!: dup_closed_call n)
next
  case CLOSED
  then show ?thesis
    using w by (simp add: dup_past_inv)
qed (use w n in \<open>simp_all add: dup_handle_syn_sent dup_handle_syn_received dup_handle_established dup_handle_close_wait\<close>)

lemma dup_input:
  assumes n: "notifying e" and w: "dup_inv w"
  shows "returns dup_inv (input e p w)"
proof -
  let ?w = "w\<lparr>peer_usable_window_size := ucast (ntohs (window_size (header p)))\<rparr>"
  have "dup_inv ?w"
    using w by (simp add: dup_inv_def)
  from dup_segment [OF n this, of p] show ?thesis
    using w dup_counter [OF w]
    by (auto simp: input_def handle_reset_def Let_def dup_inv_def intro!: dup_closed_call n base_inv_stop_all)
qed

lemma dup_close:
  assumes w: "dup_inv w"
  shows "returns dup_inv (close e w)"
proof (cases "state w = ESTABLISHED")
  case True
  have "dup_inv ((send_control_packet e FLAG_FIN
      (transition_to FIN_WAIT_1 (v\<lparr>tmgr := stop_all_timers (tmgr v)\<rparr>)))\<lparr>user_want_to_close := True\<rparr>)"
    if "dup_inv v" for v
    using that dup_counter [OF that] by (auto simp: dup_ok_def dup_inv_def base_inv_control base_inv_stop_all)
  then show ?thesis
    using True w unfolding close_def Let_def
    by simp (rule returns_bind [OF dup_try_send [of w ESTABLISHED]], auto)
next
  case False
  then show ?thesis
    using w dup_counter [OF w]
    by (auto simp: close_def Let_def dup_ok_def dup_inv_def base_inv_control base_inv_stop_all)
qed

lemma dup_auto_close: "dup_inv w \<Longrightarrow> returns dup_inv (auto_close e w)"
  by (simp add: auto_close_def dup_close)

lemma dup_reading:
  "dup_inv w \<Longrightarrow> n \<le> qsize (recv_buffer w) \<Longrightarrow>
     dup_inv (w\<lparr>recv_buffer := snd (read_loop front pop_front n (recv_buffer w))\<rparr>)"
  by (simp add: dup_inv_def base_inv_recv_buffer)

lemma dup_expire:
  assumes n: "notifying e" and w: "dup_inv w"
  shows "returns dup_inv (expire e h w)"
proof -
  have "dup_inv (run_retransmit_closure e c w)" for c
    using w by (simp add: dup_inv_def run_retransmit_closure_def base_inv_retransmit)
  moreover have "base_inv ((transition_to CLOSED w)\<lparr>tmgr := uv_request (Uv_timer_stop Two_msl) (tmgr w)\<rparr>)"
    using w by (auto simp: dup_inv_def base_inv_def base_ok_rules transition_to_def)
  ultimately show ?thesis
    using w dup_counter [OF w]
    by (auto simp: expire_def handle_2msl_timeout_def Let_def transition_to_def
        intro!: dup_closed_call n split: option.split uv_callback.split)
qed

lemma dup_step:
  assumes n: "notifying e" and w: "dup_inv w" and ev: "ev \<noteq> Ev_connect" "ev \<noteq> Ev_listen"
  shows "returns (\<lambda>(_, w). dup_inv w) (session_step e ev w)"
proof (cases ev)
  case (Ev_send data)
  then show ?thesis
    using w by (auto simp: dup_inv_def send_eq base_inv_payload base_inv_queued) (simp_all add: queued_def)
next
  case (Ev_recv k)
  show ?thesis
    unfolding Ev_recv session_step.simps recv_eq Let_def
    by (rule returns_bind [OF dup_auto_close]) (auto intro!: dup_reading w)
next
  case Ev_read_all
  show ?thesis
    unfolding Ev_read_all session_step.simps read_all_eq Let_def
    by (rule returns_bind [OF dup_auto_close]) (auto intro!: dup_reading w)
qed (use n w ev in \<open>auto intro!: returns_bind [OF dup_close] returns_bind [OF dup_input] returns_bind [OF dup_expire]\<close>)

lemma dup_run:
  assumes "notifying e" and "dup_inv w" and "Ev_connect \<notin> set evs" and "Ev_listen \<notin> set evs"
  shows "returns (\<lambda>(_, w). dup_inv w) (session_run e evs w)"
proof -
  have "list_all (\<lambda>ev. ev \<noteq> Ev_connect \<and> ev \<noteq> Ev_listen) evs"
    using assms(3,4) by (auto simp: list_all_iff)
  then show ?thesis
    using session.run_returns [where good = dup_inv and e = e and ok = "\<lambda>ev. ev \<noteq> Ev_connect \<and> ev \<noteq> Ev_listen"] dup_step [OF assms(1)] assms(2)
    by (simp add: case_prod_unfold)
qed

lemma dup_opened:
  "dup_inv (connect e (enter_world (new_session ptr i0 r0 lp rp) d k))"
  "dup_inv (listen (enter_world (new_session ptr i0 r0 lp rp) d k))"
  using base_inv_connect [OF base_inv_new [of ptr i0 r0 lp rp d k], of e]
    base_inv_listen [OF base_inv_new [of ptr i0 r0 lp rp d k]]
  by (simp_all add: dup_inv_def dup_ok_def)
    (simp_all add: connect_def listen_def Let_def enter_world_new transition_to_def)

section \<open>Properties\<close>

text \<open>
  C25: The retransmission schedule. A segment whose timer was started by its first sending is
  sent again at the first four expiries of that timer, each time with the same sequence
  number, flags and payload and a good checksum, to the destination the timer holds, with the
  timeout doubled each time; at the fifth expiry the timer is stopped for good and nothing
  more is sent. Nothing else about the connection changes: no error is reported and the state
  stays as it was.
\<close>

theorem retransmission_schedule:
  assumes "timers_ok (tmgr w)" and "reliable e (udp w)" and "length (payload p) \<le> 65535"
    and "armed_closure (tmgr w) (ntohl (seq_num (header p)))
      = Some (\<lparr>rt_packet = p, rt_count = 0, rt_ip = ip, rt_port = port\<rparr>, t)"
  shows "if k \<le> 4
    then \<exists>w' c. expiries e (ntohl (seq_num (header p))) k w = Inr w' \<and> same_connection w w'
           \<and> resent_times p (ip, port) k w w'
           \<and> armed_closure (tmgr w') (ntohl (seq_num (header p))) = Some (c, if k = 0 then t else get_timeout_ms w * 2 ^ k)
    else \<exists>w'. expiries e (ntohl (seq_num (header p))) k w = Inr w' \<and> same_connection w w'
           \<and> resent_times p (ip, port) 4 w w' \<and> armed_seq (tmgr w') (ntohl (seq_num (header p))) = None"
proof -
  have w0: "waiting e p (ip, port) 0 w w"
    by (rule sent_is_waiting [OF assms(1,2,4)]) simp_all
  show ?thesis
  proof (cases "k \<le> 4")
    case True
    then obtain w' where run: "expiries e (ntohl (seq_num (header p))) k w = Inr w'"
      and wt: "waiting e p (ip, port) k w w'"
      using expiries_waiting [OF w0 assms(3)] by blast
    show ?thesis
      using True run wt assms(4) by (cases "k = 0") (auto simp: waiting_def)
  next
    case False
    then have "5 + (k - 5) = k"
      by simp
    then show ?thesis
      using False expiries_after_giving_up [OF w0 assms(3), of "k - 5"] by auto
  qed
qed

definition example_data :: tcp_packet where
  "example_data =
     \<lparr>header = \<lparr>s_port = 0, d_port = 0, seq_num = htonl 1000, ack_num = 0, data_offset_and_reserved = 80,
                 flags = FLAG_ACK, window_size = 0, checksum = 0, urgent_ptr = 0\<rparr>,
      options = [], payload = [7, 8, 9]\<rparr>"

definition example_waiting :: world where
  "example_waiting = (example_established 1000 2000)
     \<lparr>tmgr := start_timer 1000 1000 \<lparr>rt_packet = example_data, rt_count = 0, rt_ip = ''10.0.0.2'', rt_port = 80\<rparr>
               new_timer_manager\<rparr>"

theorem retransmission_schedule_witness:
  "\<exists>w'. expiries example_env 1000 5 example_waiting = Inr w' \<and> armed_seq (tmgr w') 1000 = None
     \<and> resent_times example_data (''10.0.0.2'', 80) 4 example_waiting w'"
proof -
  have seq: "ntohl (seq_num (header example_data)) = 1000" and short: "length (payload example_data) \<le> 65535"
    by (simp_all add: example_data_def)
  have ok: "timers_ok (tmgr example_waiting)"
    unfolding example_waiting_def by (simp add: start_timer_ok new_timer_manager_ok)
  have rel: "reliable example_env (udp example_waiting)"
    using example_established_idle [of 1000 2000] by (simp add: example_waiting_def idle_def)
  have arm: "armed_closure (tmgr example_waiting) (ntohl (seq_num (header example_data)))
      = Some (\<lparr>rt_packet = example_data, rt_count = 0, rt_ip = ''10.0.0.2'', rt_port = 80\<rparr>, 1000)"
    using tm.law_start [OF new_timer_manager_ok, of 1000
        "(\<lparr>rt_packet = example_data, rt_count = 0, rt_ip = ''10.0.0.2'', rt_port = 80\<rparr>, 1000)"]
    by (simp add: example_waiting_def seq)
  show ?thesis
    using retransmission_schedule [OF ok rel short arm, of 5] by (auto simp: seq)
qed

text \<open>What a transmission attempt does with the bytes the window lets out.\<close>

lemma payload_sent:
  assumes "data \<noteq> []" and "length data \<le> 65535"
  shows "\<exists>p. seg_is p (send_next (swnd w)) (recv_next (rwnd w)) fl data
    \<and> udp (send_payload_packet e data fl w) = send_packet (draw e) p (remote_ip w, remote_port w) (udp w)
    \<and> send_next (swnd (send_payload_packet e data fl w)) = send_next (swnd w) + of_nat (length data)"
  using assms segment_is [of data e "recv_next (rwnd w)" fl w]
  by (intro exI [of _ "segment e (recv_next (rwnd w)) fl data w"]) (simp add: send_payload_packet_def segment_def Let_def)

lemma payload_armed:
  assumes "timers_ok (tmgr w)" and "data \<noteq> []"
  shows "armed_seq (tmgr (send_payload_packet e data fl w)) (send_next (swnd w)) \<noteq> None"
  using assms by (simp add: send_payload_packet_def Let_def start_timer_armed_seq)

text \<open>
  C26: Congestion window. When no more than the window is in flight, a transmission attempt
  takes the next bytes of the send buffer that the window still allows. If there are any, it
  sends them to the peer, all in one segment with the next sequence number and the current
  acknowledgement, which the driver hands to the socket if it does not lose it, and arms a
  retransmission timer for it; if there are none, it does nothing. No more than the window is
  in flight afterwards, and the bytes stay in the buffer until they are acknowledged.
\<close>

theorem window_respected:
  assumes "base_inv w" and "sends_data (state w)" and "in_flight w \<le> cwnd w"
  defines "data \<equiv> take (cwnd w - in_flight w) (drop (in_flight w) (ring_contents (send_buffer w)))"
  shows "\<exists>w'. handle_try_send e w = Inr w'
    \<and> in_flight w' = in_flight w + length data \<and> in_flight w' \<le> cwnd w' \<and> cwnd w' = cwnd w
    \<and> send_buffer w' = send_buffer w
    \<and> (data = [] \<longrightarrow> w' = w)
    \<and> (data \<noteq> [] \<longrightarrow> (\<exists>p. seg_is p (send_next (swnd w)) (recv_next (rwnd w)) FLAG_ACK data
          \<and> udp w' = send_packet (draw e) p (remote_ip w, remote_port w) (udp w)
          \<and> (reliable e (udp w) \<longrightarrow> udp_sends (udp w') = udp_sends (udp w) @ [(raw_data p, (remote_ip w, remote_port w))])
          \<and> send_next (swnd w') = send_next (swnd w) + of_nat (length data)
          \<and> armed_seq (tmgr w') (send_next (swnd w)) \<noteq> None))"
proof -
  let ?w = "send_payload_packet e data FLAG_ACK w"
  have d: "try_send_data w = data"
    unfolding data_def by (rule try_send_within [OF assms(2,3)])
  have len: "length data \<le> cwnd w - in_flight w" "length data \<le> 1024"
    using assms(1) length_ring_contents [of "send_buffer w"] by (auto simp: data_def base_inv_def base_ok_def ring_ok_def)
  then have "in_flight w + length data < 2 ^ 32"
    using assms(3) unsigned_less [of "send_window_size (swnd w)", where ?'a = nat]
    by (simp add: cwnd_def)
  then have "unat ((send_next (swnd w) - send_unack (swnd w)) + of_nat (length data)) = in_flight w + length data"
    using unat_plus_small [of "send_next (swnd w) - send_unack (swnd w)" "length data"]
    by (simp only: in_flight_def)
  then have "in_flight ?w = in_flight w + length data"
    by (simp add: in_flight_def diff_add_eq)
  moreover have "cwnd ?w = cwnd w"
    by (simp add: cwnd_def send_payload_packet_def Let_def)
  moreover have "handle_try_send e w = Inr ?w"
    using handle_try_send_eq [OF assms(1), of e] d by simp
  moreover have "\<exists>p. seg_is p (send_next (swnd w)) (recv_next (rwnd w)) FLAG_ACK data
      \<and> udp ?w = send_packet (draw e) p (remote_ip w, remote_port w) (udp w)
      \<and> (reliable e (udp w) \<longrightarrow> udp_sends (udp ?w) = udp_sends (udp w) @ [(raw_data p, (remote_ip w, remote_port w))])
      \<and> send_next (swnd ?w) = send_next (swnd w) + of_nat (length data)
      \<and> armed_seq (tmgr ?w) (send_next (swnd w)) \<noteq> None" if "data \<noteq> []"
  proof -
    have "timers_ok (tmgr w)" "length data \<le> 65535"
      using assms(1) len(2) by (simp_all add: base_inv_def base_ok_def)
    with payload_sent [OF that this(2), of w FLAG_ACK e] payload_armed [OF this(1) that, of e FLAG_ACK] show ?thesis
      by (auto simp only: reliable_sends)
  qed
  ultimately show ?thesis
    using len(1) assms(3) by (intro exI [of _ ?w]) simp
qed

theorem window_respected_witness:
  "\<exists>w' p. handle_try_send example_env (queued [7, 8, 9] (example_established 1000 2000)) = Inr w'
     \<and> in_flight w' = 3 \<and> seg_is p 1000 2000 FLAG_ACK [7, 8, 9] \<and> map fst (udp_sends (udp w')) = [raw_data p]"
proof -
  let ?u = "example_established 1000 2000" and ?w = "queued [7, 8, 9] (example_established 1000 2000)"
  have base: "base_inv ?u" and nil: "ring_contents (send_buffer ?u) = []" and rel: "reliable example_env (udp ?u)"
    using example_established_idle [of 1000 2000] by (simp_all add: idle_def ring_contents_def)
  have cap: "capacity (send_buffer ?u) - qsize (send_buffer ?u) = 1024"
    using base nil by (simp add: base_inv_def base_ok_def qsize_length)
  then have con: "ring_contents (send_buffer ?w) = [7, 8, 9]"
    using queued_contents [OF base, of "[7, 8, 9]"] nil by (simp add: queue_bytes_def)
  have w: "sends_data (state ?w)" "in_flight ?w = 0" "cwnd ?w = 8" "udp ?w = udp ?u" "udp_sends (udp ?u) = []"
    "send_next (swnd ?w) = 1000" "recv_next (rwnd ?w) = 2000"
    by (simp_all add: queued_def example_established_def sends_data_def in_flight_def cwnd_def enter_world_new new_driver_def)
  show ?thesis
    using window_respected [OF base_inv_queued [OF base] w(1), of example_env] w rel con by auto
qed

text \<open>
  C35: After a timeout with two or more bytes in flight, the congestion window is one byte,
  less than what is in flight; the unsigned difference wraps around, and the next
  transmission attempt sends every unsent byte of the buffer in one segment, so the
  window limits nothing exactly when it was reduced.
\<close>

theorem timeout_opens_window:
  assumes "base_inv w" and "sends_data (state w)" and "2 \<le> in_flight w" and "in_flight w \<le> 1024"
    and "retransmit_count + 1 < MAX_RETRANSMIT_COUNT"
  shows "\<exists>w'. handle_retransmit e p retransmit_count seq timeout ip port w = (True, w') \<and> cwnd w' = 1
    \<and> handle_try_send e w' = Inr (send_payload_packet e (drop (in_flight w) (ring_contents (send_buffer w))) FLAG_ACK w')"
proof -
  let ?w = "snd (handle_retransmit e p retransmit_count seq timeout ip port w)"
  have "fst (handle_retransmit e p retransmit_count seq timeout ip port w)" and "cwnd ?w = 1"
    using assms(5) [unfolded not_le [symmetric]] by (simp_all add: handle_retransmit_def Let_def cwnd_def)
  moreover have "in_flight ?w = in_flight w"
    by (simp add: in_flight_def)
  moreover have "base_inv ?w"
    using assms(1) by (rule base_inv_retransmit)
  ultimately show ?thesis
    using try_send_beyond [of ?w] handle_try_send_eq [of ?w e] assms(2-4)
    by (intro exI [of _ ?w]) (simp add: prod_eq_iff)
qed

theorem timeout_opens_window_witness:
  "\<exists>w'. handle_retransmit example_env example_data 0 1000 1000 ''10.0.0.2'' 80
        ((example_established 1000 2000)\<lparr>swnd := \<lparr>send_unack = 1000, send_next = 1003, send_window_size = 8,
           initial_send_seq = 1\<rparr>\<rparr>) = (True, w') \<and> cwnd w' = 1"
proof -
  let ?w = "(example_established 1000 2000)\<lparr>swnd := \<lparr>send_unack = 1000, send_next = 1003, send_window_size = 8,
      initial_send_seq = 1\<rparr>\<rparr>"
  have base: "base_inv ?w"
    using example_established_idle [of 1000 2000] by (simp add: idle_def)
  have w: "sends_data (state ?w)" "in_flight ?w = 3"
    by (simp_all add: example_established_def sends_data_def in_flight_def)
  have "0 + 1 < MAX_RETRANSMIT_COUNT"
    by (simp add: MAX_RETRANSMIT_COUNT_def)
  from timeout_opens_window [OF base w(1) _ _ this, of example_env example_data 1000 1000 "''10.0.0.2''" 80] w(2)
  show ?thesis
    by auto
qed

text \<open>
  Timers at an acknowledgement. An acceptable acknowledgement of everything before
  \<open>ack\<close> disarms the retransmission timers of the segments that start before \<open>ack - 1\<close> and no
  others; in particular the timer of a one-byte segment with sequence number \<open>ack - 1\<close>, which
  is acknowledged, stays armed.
\<close>

theorem ack_disarms_timers:
  assumes "timers_ok (tmgr w)"
  shows "armed_seq (tmgr (accept_ack ack w)) seq = (if seq < ack - 1 then None else armed_seq (tmgr w) seq)"
  using assms by (rule accept_ack_timers)

theorem ack_disarms_timers_witness:
  "armed_seq (tmgr (accept_ack 1001 example_waiting)) 1000 \<noteq> None
   \<and> armed_seq (tmgr (accept_ack 1003 example_waiting)) 1000 = None"
proof -
  have ok: "timers_ok (tmgr example_waiting)"
    unfolding example_waiting_def by (simp add: start_timer_ok new_timer_manager_ok)
  have "armed_seq (tmgr example_waiting) 1000 \<noteq> None"
    by (simp add: example_waiting_def start_timer_armed_seq new_timer_manager_ok)
  then show ?thesis
    using ack_disarms_timers [OF ok, of 1001 1000] ack_disarms_timers [OF ok, of 1003 1000] by simp
qed

text \<open>
  Sequence numbers are compared without regard to wrap-around: once the next sequence
  number to send has wrapped past zero while older bytes are unacknowledged, no
  acknowledgement number at all is accepted.
\<close>

theorem wrapped_window_accepts_no_ack:
  assumes "send_next (swnd w) < send_unack (swnd w)"
  shows "handle_ack e p w = Inr (False, w)"
proof -
  have "\<not> ack_acceptable a w" for a
    using assms by (auto simp: ack_acceptable_def)
  then show ?thesis
    by (simp add: handle_ack_def)
qed

theorem wrapped_window_accepts_no_ack_witness:
  "handle_ack example_env example_data
     (example_waiting\<lparr>swnd := \<lparr>send_unack = 4294967290, send_next = 4, send_window_size = 10, initial_send_seq = 1\<rparr>\<rparr>)
   = Inr (False, example_waiting\<lparr>swnd := \<lparr>send_unack = 4294967290, send_next = 4, send_window_size = 10,
       initial_send_seq = 1\<rparr>\<rparr>)"
  by (rule wrapped_window_accepts_no_ack) simp

text \<open>
  C36: Fast retransmit is unreachable. From an opening on, whatever packets arrive (duplicate
  acknowledgements included) and whatever the application does short of opening again, the
  duplicate counter is 0 or 1 after every call, and the callback for three duplicates is never
  invoked: the run succeeds even if none is installed, when invoking it would throw.
\<close>

theorem fast_retransmit_unreachable:
  assumes "notifying e" and "Ev_connect \<notin> set evs" and "Ev_listen \<notin> set evs"
    and "w0 = connect e (enter_world (new_session ptr i0 r0 lp rp) d k)
       \<or> w0 = listen (enter_world (new_session ptr i0 r0 lp rp) d k)"
  shows "\<exists>bytes w'. session_run e evs w0 = Inr (bytes, w') \<and> (dup_ack_count w' = 0 \<or> dup_ack_count w' = 1)"
proof -
  have "dup_inv w0"
    using assms(4) dup_opened by auto
  from dup_run [OF assms(1) this assms(2,3)] show ?thesis
    using dup_counter by (auto simp: returns_def)
qed

theorem fast_retransmit_unreachable_witness:
  "\<exists>bytes w'. session_run (example_env\<lparr>on_recv_three_dup_ack := None\<rparr>)
        [Ev_input example_data, Ev_input example_data, Ev_send [1], Ev_input example_data, Ev_close]
        (listen (enter_world (new_session 0 1 2 3 4) new_driver 0)) = Inr (bytes, w')
      \<and> (dup_ack_count w' = 0 \<or> dup_ack_count w' = 1)"
proof -
  have "notifying (example_env\<lparr>on_recv_three_dup_ack := None\<rparr>)"
    using example_quiet by (simp add: notifying_def quiet_env_def)
  then show ?thesis
    by (rule fast_retransmit_unreachable) auto
qed

end
