(* ===== verification/Corner_Cases.thy ===== *)
theory Corner_Cases
  imports Loss_Recovery
begin

text \<open>
  Three situations in which the code as written does not do what TCP promises, each as a
  theorem about the model: where data is retransmitted to, closing with data in flight, and
  two sides opening at the same time.
\<close>

section \<open>Where data is retransmitted to\<close>

lemma send_arms:
  assumes "base_inv w" and "data \<noteq> []"
  shows "armed_closure (tmgr (send_payload_packet e data fl w)) (send_next (swnd w))
     = Some (\<lparr>rt_packet = segment e (recv_next (rwnd w)) fl data w, rt_count = 0,
              rt_ip = ''127.0.0.1'', rt_port = 9999\<rparr>, get_timeout_ms w)"
proof -
  have "timers_ok (tmgr w)"
    using assms(1) by (simp add: base_inv_def base_ok_def)
  from tm.law_start [OF this, of "send_next (swnd w)" "(\<lparr>rt_packet = segment e (recv_next (rwnd w)) fl data w,
      rt_count = 0, rt_ip = ''127.0.0.1'', rt_port = 9999\<rparr>, get_timeout_ms w)"] assms(2)
  show ?thesis
    by (simp add: send_payload_packet_def Let_def segment_def)
qed

lemma retransmissions:
  assumes w: "idle e ESTABLISHED m t w" and data: "data \<noteq> []" "length data \<le> 1024"
    "length data \<le> unat (send_window_size (swnd w))"
  defines "v \<equiv> queued data w"
  shows "\<exists>w'. expiries e m k (send_payload_packet e data FLAG_ACK v) = Inr w'
    \<and> resent_times (segment e t FLAG_ACK data v) (''127.0.0.1'', 9999) (min k 4) (send_payload_packet e data FLAG_ACK v) w'"
proof -
  let ?w = "send_payload_packet e data FLAG_ACK v" and ?p = "segment e t FLAG_ACK data v"
  have v: "base_inv v" "send_next (swnd v) = m" "recv_next (rwnd v) = t" "reliable e (udp v)"
    using w base_inv_queued [of w data] by (simp_all add: idle_def v_def) (simp_all add: queued_def)
  have ok: "timers_ok (tmgr ?w)" "reliable e (udp ?w)" and seq: "ntohl (seq_num (header ?p)) = m"
    using v base_inv_payload [OF v(1), of e data FLAG_ACK] by (simp_all add: base_inv_def base_ok_def)
  have wt: "waiting e ?p (''127.0.0.1'', 9999) 0 ?w ?w"
    using sent_is_waiting [OF ok, of ?p] send_arms [OF v(1) data(1), of e FLAG_ACK] v(2,3) by (simp add: seq)
  have short: "length (payload ?p) \<le> 65535"
    using data(2) by simp
  show ?thesis
  proof (cases "k \<le> 4")
    case True
    then have "min k 4 = k"
      by simp
    then show ?thesis
      using expiries_waiting [OF wt short True, unfolded seq] unfolding waiting_def by metis
  next
    case False
    then have "5 + (k - 5) = k" "min k 4 = 4"
      by simp_all
    then show ?thesis
      using expiries_after_giving_up [OF wt short, of "k - 5", unfolded seq] by metis
  qed
qed

section \<open>Closing with data in flight\<close>

lemma close_in_flight:
  assumes base: "base_inv w" and st: "state w = ESTABLISHED" and f: "1 \<le> in_flight w" "in_flight w \<le> 1024"
  obtains w' where "close e w = Inr w'" and "base_inv w'" and "state w' = FIN_WAIT_1"
    and "\<forall>s. s \<noteq> send_next (swnd w') - 1 \<longrightarrow> armed_seq (tmgr w') s = None"
    and "send_next (swnd w') \<noteq> send_unack (swnd w') + 1"
proof -
  let ?d = "try_send_data w"
  let ?v = "send_payload_packet e ?d FLAG_ACK w"
  let ?u = "transition_to FIN_WAIT_1 (?v\<lparr>tmgr := stop_all_timers (tmgr ?v)\<rparr>)"
  let ?z = "(send_control_packet e FLAG_FIN ?u)\<lparr>user_want_to_close := True\<rparr>"
  have c: "close e w = Inr ?z"
    using st handle_try_send_eq [OF base, of e] by (simp add: close_def Let_def)
  have u: "base_inv ?u"
    using base by (simp add: base_inv_stop_all base_inv_payload)
  then have z: "base_inv ?z"
    by (simp add: base_inv_control)
  have ok: "timers_ok (tmgr ?v)"
    using base_inv_payload [OF base, of e ?d FLAG_ACK] by (simp add: base_inv_def base_ok_def)
  have nx: "send_next (swnd ?z) = send_next (swnd w) + of_nat (length ?d) + 1"
    using flag_values by (simp add: control_send_next)
  have "length ?d \<le> qsize (send_buffer w)"
    by (auto simp: try_send_data_def Let_def)
  moreover have "qsize (send_buffer w) \<le> 1024"
    using base ring_ok_bound [of "send_buffer w"] by (auto simp: base_inv_def base_ok_def)
  ultimately have "in_flight w + length ?d < 2 ^ 32"
    using f(2) by simp
  then have "unat ((send_next (swnd w) - send_unack (swnd w)) + of_nat (length ?d)) = in_flight w + length ?d"
    unfolding in_flight_def by (rule unat_plus_small)
  then have "(send_next (swnd w) - send_unack (swnd w)) + of_nat (length ?d) \<noteq> 0"
    using f by (metis add_is_0 not_one_le_zero unsigned_0)
  then have ne: "send_next (swnd ?z) \<noteq> send_unack (swnd ?z) + 1"
    unfolding nx by (auto simp: algebra_simps)
  have tm: "armed_seq (tmgr ?z) = [send_next (swnd ?z) - 1 \<mapsto> (On_timer_uv_tick
      \<lparr>rt_packet = segment e (recv_next (rwnd ?u)) FLAG_FIN [] ?u, rt_count = 0,
       rt_ip = remote_ip ?u, rt_port = remote_port ?u\<rparr>, get_timeout_ms ?u)]"
    using start_timer_armed_seq [OF stop_all_timers_ok [OF ok]] stop_all_timers_armed [OF ok] flag_values
    by (simp add: nx) (simp add: send_control_packet_def Let_def has_flag_def make_header_def segment_def transition_to_def)
  have arm: "\<forall>s. s \<noteq> send_next (swnd ?z) - 1 \<longrightarrow> armed_seq (tmgr ?z) s = None"
    unfolding tm by simp
  show ?thesis
    by (rule that [OF c z _ arm ne]) simp
qed

section \<open>Opening from both sides\<close>

lemma simultaneous_syn:
  assumes w: "syn_out e SYN_SENT isn w" and p: "seg_is p seq a FLAG_SYN []"
  shows "\<exists>w'. input e p w = Inr w' \<and> base_inv w' \<and> state w' = SYN_RECEIVED \<and> qsize (send_buffer w') = 0
    \<and> send_unack (swnd w') = isn \<and> send_next (swnd w') = isn + 2 \<and> recv_next (rwnd w') = seq + 1
    \<and> send_window_size (swnd w') = send_window_size (swnd w)
    \<and> reliable e (udp w') \<and> sends w w' (isn + 1) (seq + 1) (FLAG_SYN OR FLAG_ACK) []"
proof -
  let ?w = "w\<lparr>peer_usable_window_size := ucast (ntohs (window_size (header p)))\<rparr>"
  let ?u = "transition_to SYN_RECEIVED (?w\<lparr>rwnd := (rwnd w)\<lparr>recv_next := seq + 1\<rparr>\<rparr>)"
  let ?v = "send_control_packet e (FLAG_SYN OR FLAG_ACK) ?u"
  have pf: "ntohl (seq_num (header p)) = seq" "verify_checksum p"
    using p by (simp_all add: seg_is_def)
  have st: "state w = SYN_SENT"
    using w by (simp add: syn_out_def)
  have "input e p w = Inr ?v"
    using pf st by (simp add: input_accepted handle_syn_sent_def Let_def seg_is_flag [OF p] flag_values)
  moreover have u: "base_inv ?u" "reliable e (udp ?u)" "udp_sends (udp w) = udp_sends (udp ?u)"
    "qsize (send_buffer ?u) = 0" "send_unack (swnd ?u) = isn" "send_next (swnd ?u) = isn + 1"
    using w by (simp_all add: syn_out_def) (simp_all add: transition_to_def base_inv_def)
  moreover have "sends w ?v (isn + 1) (seq + 1) (FLAG_SYN OR FLAG_ACK) []"
    using sends_control [OF u(2,3), of "FLAG_SYN OR FLAG_ACK"] u(6) by (simp add: transition_to_def)
  moreover have "send_window_size (swnd ?v) = send_window_size (swnd w)"
    by (simp add: send_control_packet_def Let_def transition_to_def)
  moreover have "recv_next (rwnd ?v) = seq + 1"
    by (simp add: transition_to_def)
  ultimately show ?thesis
    using flag_values by (simp add: base_inv_control control_send_next)
qed

lemma phantom_established:
  assumes q: "quiet_env e" and w: "base_inv w" "state w = SYN_RECEIVED" "qsize (send_buffer w) = 0"
    "send_unack (swnd w) = isn" "send_next (swnd w) = isn + 2"
    and p: "seg_is p seq (isn + 1) (FLAG_SYN OR FLAG_ACK) []"
  shows "\<exists>w'. input e p w = Inr w' \<and> base_inv w' \<and> state w' = ESTABLISHED \<and> qsize (send_buffer w') = 0
    \<and> in_flight w' = 1 \<and> send_window_size (swnd w') = send_window_size (swnd w) \<and> udp w' = udp w"
proof -
  let ?w = "w\<lparr>peer_usable_window_size := ucast (ntohs (window_size (header p)))\<rparr>"
  let ?v = "transition_to ESTABLISHED (?w\<lparr>swnd := (swnd w)\<lparr>send_unack := isn + 1\<rparr>, tmgr := stop_timer isn (tmgr w)\<rparr>)"
  have pf: "ntohl (ack_num (header p)) = isn + 1" "verify_checksum p"
    using p by (simp_all add: seg_is_def)
  have inp: "input e p w = bind_res (call_if_set (on_established_cb e) ?v) (handle_try_send e)"
    using pf w by (simp add: input_accepted handle_syn_received_def Let_def seg_is_flag [OF p] flag_values)
  obtain ps b where c: "call_if_set (on_established_cb e) ?v = Inr (?v\<lparr>posts := ps, is_in_ready_queue := b\<rparr>)"
    by (rule quiet_call [of "on_established_cb e"]) (use q in \<open>auto simp: quiet_env_def\<close>)
  let ?z = "?v\<lparr>posts := ps, is_in_ready_queue := b\<rparr>"
  have "base_inv (w\<lparr>tmgr := stop_timer isn (tmgr w)\<rparr>)"
    using w(1) by (rule base_inv_stop)
  then have z: "base_inv ?z" "qsize (send_buffer ?z) = 0"
    using w by (simp_all add: base_inv_def transition_to_def)
  have "handle_try_send e ?z = Inr ?z"
    using try_send_data_empty [OF z] by (simp add: handle_try_send_eq [OF z(1)])
  moreover have "in_flight ?z = 1"
    using w by (simp add: in_flight_def)
  moreover have "udp ?z = udp w" "state ?z = ESTABLISHED"
    by (simp_all add: transition_to_def)
  ultimately show ?thesis
    using z c unfolding inp by (intro exI [of _ ?z]) simp
qed

section \<open>Properties\<close>

text \<open>
  C37: Retransmitted data goes to a fixed address. Data written on an idle connection is sent
  to the peer's address; whenever its timer expires, the same payload with the same sequence
  number is sent to 127.0.0.1, port 9999, whatever the peer's address is, and nothing to the
  peer. So a peer elsewhere never gets what was lost.
\<close>

theorem data_retransmitted_to_default_address:
  assumes "idle e ESTABLISHED m t w" and "data \<noteq> []" and "length data \<le> 1024"
    and "length data \<le> unat (send_window_size (swnd w))"
  shows "\<exists>w1 w2 p qs. send e data w = Inr (length data, w1) \<and> expiries e m k w1 = Inr w2
    \<and> udp_sends (udp w2) = udp_sends (udp w) @ (raw_data p, remote_ip w, remote_port w)
        # map (\<lambda>q. (raw_data q, ''127.0.0.1'', 9999)) qs
    \<and> length qs = min k 4 \<and> payload p = data
    \<and> (\<forall>q\<in>set qs. payload q = data \<and> seq_num (header q) = seq_num (header p))"
proof -
  let ?v = "queued data w"
  let ?w = "send_payload_packet e data FLAG_ACK ?v" and ?p = "segment e t FLAG_ACK data ?v"
  obtain w2 qs where w2: "expiries e m k ?w = Inr w2" and qs: "length qs = min k 4" "\<forall>q\<in>set qs. resent ?p (recv_next (rwnd ?w)) q"
    "udp_sends (udp w2) = udp_sends (udp ?w) @ map (\<lambda>q. (raw_data q, ''127.0.0.1'', 9999)) qs"
    using retransmissions [OF assms, of k] unfolding resent_times_def by blast
  have v: "reliable e (udp ?v)" "recv_next (rwnd ?v) = t" "udp ?v = udp w" "remote_ip ?v = remote_ip w" "remote_port ?v = remote_port w"
    using assms(1) by (simp_all add: idle_def queued_def)
  have "udp_sends (udp ?w) = udp_sends (udp w) @ [(raw_data ?p, remote_ip w, remote_port w)]"
    using payload_sends [OF v(1) assms(2), of FLAG_ACK] v by simp
  then show ?thesis
    using w2 qs send_all(1) [OF assms]
    by (intro exI [of _ ?w] exI [of _ w2] exI [of _ ?p] exI [of _ qs]) (auto simp: resent_def)
qed

theorem data_retransmitted_to_default_address_witness:
  "\<exists>w1 w2 p qs. send example_env [7, 8, 9] ((example_established 1000 2000)\<lparr>remote_ip := ''10.0.0.2'', remote_port := 80\<rparr>)
      = Inr (3, w1) \<and> expiries example_env 1000 7 w1 = Inr w2
    \<and> udp_sends (udp w2) = (raw_data p, ''10.0.0.2'', 80) # map (\<lambda>q. (raw_data q, ''127.0.0.1'', 9999)) qs
    \<and> length qs = 4 \<and> (\<forall>q\<in>set qs. payload q = [7, 8, 9])"
proof -
  let ?w = "(example_established 1000 2000)\<lparr>remote_ip := ''10.0.0.2'', remote_port := 80\<rparr>"
  have w: "idle example_env ESTABLISHED 1000 2000 ?w"
    using example_established_idle [of 1000 2000] by (simp add: idle_def base_inv_def)
  have "udp_sends (udp ?w) = []" "send_window_size (swnd ?w) = 8"
    by (simp_all add: example_established_def enter_world_new new_driver_def)
  then show ?thesis
    using data_retransmitted_to_default_address [OF w, of "[7, 8, 9]" 7] by fastforce
qed

text \<open>
  C38: Closing abandons data in flight. When the application closes an established session
  with unacknowledged bytes in flight, every retransmission timer but the FIN's is
  disarmed, so lost bytes are never sent again; and the acknowledgement of everything,
  FIN included, leaves the session in FIN_WAIT_1.
\<close>

theorem close_abandons_data:
  assumes "base_inv w" and "state w = ESTABLISHED" and "1 \<le> in_flight w" and "in_flight w \<le> 1024"
  shows "\<exists>w'. close e w = Inr w' \<and> state w' = FIN_WAIT_1
    \<and> (\<forall>s. s \<noteq> send_next (swnd w') - 1 \<longrightarrow> armed_seq (tmgr w') s = None)
    \<and> (\<forall>p seq. seg_is p seq (send_next (swnd w')) FLAG_ACK [] \<longrightarrow>
         (\<exists>w''. input e p w' = Inr w'' \<and> state w'' = FIN_WAIT_1 \<and> send_unack (swnd w'') = send_unack (swnd w')))"
proof -
  obtain w' where c: "close e w = Inr w'" "base_inv w'" "state w' = FIN_WAIT_1"
    "\<forall>s. s \<noteq> send_next (swnd w') - 1 \<longrightarrow> armed_seq (tmgr w') s = None"
    "send_next (swnd w') \<noteq> send_unack (swnd w') + 1"
    by (rule close_in_flight [OF assms])
  have "\<exists>w''. input e p w' = Inr w'' \<and> state w'' = FIN_WAIT_1 \<and> send_unack (swnd w'') = send_unack (swnd w')"
    if p: "seg_is p seq (send_next (swnd w')) FLAG_ACK []" for p seq
  proof -
    have "verify_checksum p" "ntohl (ack_num (header p)) = send_next (swnd w')"
      using p by (simp_all add: seg_is_def)
    then show ?thesis
      using c by (simp add: input_accepted seg_is_flag [OF p] flag_values handle_fin_wait_1_def Let_def)
  qed
  then show ?thesis
    using c by blast
qed

theorem close_abandons_data_witness:
  "\<exists>w'. close example_env ((example_established 1000 2000)
        \<lparr>swnd := \<lparr>send_unack = 1000, send_next = 1003, send_window_size = 8, initial_send_seq = 1\<rparr>\<rparr>) = Inr w'
     \<and> state w' = FIN_WAIT_1 \<and> (\<forall>s. s \<noteq> send_next (swnd w') - 1 \<longrightarrow> armed_seq (tmgr w') s = None)"
proof -
  let ?w = "(example_established 1000 2000)
      \<lparr>swnd := \<lparr>send_unack = 1000, send_next = 1003, send_window_size = 8, initial_send_seq = 1\<rparr>\<rparr>"
  have base: "base_inv ?w"
    using example_established_idle [of 1000 2000] by (simp add: idle_def)
  have w: "state ?w = ESTABLISHED" "in_flight ?w = 3"
    by (simp_all add: example_established_def in_flight_def)
  show ?thesis
    using close_abandons_data [OF base w(1), of example_env] w(2) by auto
qed

text \<open>
  Simultaneous opening leaves a phantom byte. When two sides open at the same time, each
  answers the other's SYN with a SYN+ACK under a second sequence number; the answers take both
  to ESTABLISHED with an empty send buffer and one byte in flight that does not exist. With
  the initial congestion window of one byte, data the application then writes is accepted and
  nothing of it is sent.
\<close>

theorem simultaneous_open_blocks_data:
  assumes "quiet_env e" and "syn_out e SYN_SENT isn w" and "send_window_size (swnd w) = 1"
    and "seg_is p1 seq ack FLAG_SYN []" and "seg_is p2 seq2 (isn + 1) (FLAG_SYN OR FLAG_ACK) []"
    and "data \<noteq> []" and "length data \<le> 1024"
  shows "\<exists>w1 w2 w3. input e p1 w = Inr w1 \<and> sends w w1 (isn + 1) (seq + 1) (FLAG_SYN OR FLAG_ACK) []
    \<and> input e p2 w1 = Inr w2 \<and> state w2 = ESTABLISHED \<and> qsize (send_buffer w2) = 0 \<and> in_flight w2 = 1
    \<and> send e data w2 = Inr (length data, w3) \<and> udp_sends (udp w3) = udp_sends (udp w2)"
proof -
  obtain w1 where w1: "input e p1 w = Inr w1" "base_inv w1" "state w1 = SYN_RECEIVED" "qsize (send_buffer w1) = 0"
    "send_unack (swnd w1) = isn" "send_next (swnd w1) = isn + 2" "send_window_size (swnd w1) = 1"
    "sends w w1 (isn + 1) (seq + 1) (FLAG_SYN OR FLAG_ACK) []"
    using simultaneous_syn [OF assms(2,4)] assms(3) by auto
  obtain w2 where w2: "input e p2 w1 = Inr w2" "base_inv w2" "state w2 = ESTABLISHED" "qsize (send_buffer w2) = 0"
    "in_flight w2 = 1" "send_window_size (swnd w2) = 1"
    using phantom_established [OF assms(1) w1(2-6) assms(5)] w1(7) by auto
  have "queue_bytes data w2 = data"
    using w2 assms(7) by (simp add: queue_bytes_def base_inv_def base_ok_def)
  moreover have "try_send_data (queued data w2) = []"
    using try_send_within [of "queued data w2"] w2
    by (simp add: queued_def in_flight_def cwnd_def sends_data_iff)
  ultimately have "send e data w2 = Inr (length data, queued data w2)"
    using assms(6) by (simp add: send_eq [OF w2(2)])
  moreover have "udp_sends (udp (queued data w2)) = udp_sends (udp w2)"
    by (simp add: queued_def)
  ultimately show ?thesis
    using w1 w2 by blast
qed

theorem simultaneous_open_blocks_data_witness:
  "\<exists>w1 w2 w3. input example_env (segment example_env 0 FLAG_SYN [] (example_established 2000 0))
        (connect example_env (enter_world (new_session 0 1 2 3 4) new_driver 0)) = Inr w1
    \<and> input example_env (segment example_env 101 (FLAG_SYN OR FLAG_ACK) [] (example_established 2001 0)) w1 = Inr w2
    \<and> state w2 = ESTABLISHED \<and> send example_env [7, 8, 9] w2 = Inr (3, w3)
    \<and> udp_sends (udp w3) = udp_sends (udp w2)"
proof -
  let ?w = "connect example_env (enter_world (new_session 0 1 2 3 4) new_driver 0)"
  have isn: "gen_initial_seq example_env 0 = 100"
    by (simp add: example_env_def session_env_def set_on_data_def set_on_closed_def
        set_on_recv_three_dup_ack_def Let_def)
  have w: "syn_out example_env SYN_SENT 100 ?w"
    using connect_opens(1) [OF example_reliable new_driver_sends, of 0] by (simp add: isn)
  have cwnd: "send_window_size (swnd ?w) = 1"
    by (simp add: connect_def Let_def send_control_packet_def transition_to_def enter_world_new)
  have p1: "seg_is (segment example_env 0 FLAG_SYN [] (example_established 2000 0)) 2000 0 FLAG_SYN []"
    using segment_is [of "[]" example_env 0 FLAG_SYN "example_established 2000 0"]
    by (simp add: example_established_def)
  have p2: "seg_is (segment example_env 101 (FLAG_SYN OR FLAG_ACK) [] (example_established 2001 0)) 2001 (100 + 1)
      (FLAG_SYN OR FLAG_ACK) []"
    using segment_is [of "[]" example_env 101 "FLAG_SYN OR FLAG_ACK" "example_established 2001 0"]
    by (simp add: example_established_def)
  show ?thesis
    using simultaneous_open_blocks_data [OF example_quiet w cwnd p1 p2, of "[7, 8, 9]"] by auto
qed

end
