(* ===== verification/Tcp_Stack.thy ===== *)
theory Tcp_Stack
  imports Corner_Cases "HOL-Library.Char_ord" "HOL-Library.List_Lexorder" "HOL-Library.Product_Lexorder"
begin

text \<open>
  \<open>TcpStack\<close> (\<open>include/myutcp/core/stack.h\<close>): the map of sessions by remote address, the queue
  of sessions that are ready for the application, the demultiplexing of packets, and the idle
  callback that runs the application logic.
\<close>

section \<open>State\<close>

text \<open>The key of a session: the remote address as text and the port; ordered as \<open>std::pair\<close> is.\<close>

type_synonym session_key = "string \<times> u16"

text \<open>
  The stack owns the sessions; the ready queue holds raw pointers. Objects are named by
  numbers, handed out in order of construction (\<open>next_object\<close>). \<open>iss_drawn\<close> counts the calls
  of the sequence number generator, which all sessions share.
\<close>

record stack =
  tcp_sessions :: "(session_key, tcp_session) omap"
  ready_queue :: "nat list"
  idle_active :: bool
  driver :: udp_driver
  next_object :: nat
  iss_drawn :: nat

text \<open>
  The environment of the stack: that of its sessions (whose callbacks \<open>create_session\<close>
  replaces), what the constructor of the \<open>n\<close>-th session draws and finds in its uninitialised
  ports, and the application logic, which works on the session it is handed.
\<close>

record stack_env =
  base_env :: env
  ctor_iss :: "nat \<Rightarrow> u32"
  ctor_irs :: "nat \<Rightarrow> u32"
  ctor_ports :: "nat \<Rightarrow> u16 \<times> u16"
  app_logic_cb :: "(env \<Rightarrow> world \<Rightarrow> world result) option"

definition new_stack :: "string \<Rightarrow> u16 \<Rightarrow> stack" where
  "new_stack listen_ip listen_port =
     \<lparr>tcp_sessions = [], ready_queue = [], idle_active = False,
      driver = driver_init listen_ip listen_port new_driver, next_object = 0, iss_drawn = 0\<rparr>"

definition enqueue_ready_session :: "nat \<Rightarrow> stack \<Rightarrow> stack" where
  "enqueue_ready_session s st = st\<lparr>ready_queue := ready_queue st @ [s], idle_active := True\<rparr>"

section \<open>Running a session's member functions\<close>

text \<open>What the stack's callbacks do with a session's requests.\<close>

fun serve_post :: "post \<Rightarrow> stack \<Rightarrow> stack" where
  "serve_post (Post_ready s) st = enqueue_ready_session s st"
| "serve_post (Post_erase key) st = st\<lparr>tcp_sessions := map_erase key (tcp_sessions st)\<rparr>"

definition store_session :: "session_key \<Rightarrow> world \<Rightarrow> stack \<Rightarrow> stack" where
  "store_session key w st =
     st\<lparr>tcp_sessions := map_assign key (tcp_session.truncate w) (tcp_sessions st),
        driver := udp w, iss_drawn := iss_calls w\<rparr>"

text \<open>
  A call through a pointer: the session is looked up by its address; a pointer to a session
  that is not in the map is dangling. The requests are served in order when the member
  function returns. (In the code the callbacks run within the call, the erasing one as the
  last action of the handlers that make it, and no handler reads the stack's state.)
\<close>

definition at_pointer :: "nat \<Rightarrow> stack \<Rightarrow> (session_key \<times> tcp_session) option" where
  "at_pointer p st = find (\<lambda>(key, s). self_ptr s = p) (tcp_sessions st)"

definition call_session ::
  "stack_env \<Rightarrow> nat \<Rightarrow> (env \<Rightarrow> world \<Rightarrow> world result) \<Rightarrow> stack \<Rightarrow> stack result" where
  "call_session se p f st =
     (case at_pointer p st of
        None \<Rightarrow> Inl Use_after_free
      | Some (key, s) \<Rightarrow>
          bind_res (f (session_env key (base_env se)) (enter_world s (driver st) (iss_drawn st)))
            (\<lambda>w. Inr (fold serve_post (posts w) (store_session key w st))))"

section \<open>Operations\<close>

definition create_session :: "stack_env \<Rightarrow> session_key \<Rightarrow> stack \<Rightarrow> nat option \<times> stack" where
  "create_session se key st =
     (let n = next_object st;
          s = new_session n (ctor_iss se n) (ctor_irs se n) (fst (ctor_ports se n)) (snd (ctor_ports se n));
          s = set_remote_addr (fst key) (snd key) s;
          st = st\<lparr>next_object := n + 1, tcp_sessions := map_try_emplace key s (tcp_sessions st)\<rparr>
      in (map_option self_ptr (map_find key (tcp_sessions st)), st))"

definition get_session :: "session_key \<Rightarrow> stack \<Rightarrow> nat option" where
  "get_session key st = map_option self_ptr (map_find key (tcp_sessions st))"

definition stack_listen :: "stack \<Rightarrow> stack" where
  "stack_listen st = st\<lparr>driver := set_on_receive Stack_listen (driver st)\<rparr>"

text \<open>The reset that answers a stray packet: a value-initialised packet with one flag set.\<close>

definition stray_reset :: tcp_packet where
  "stray_reset =
     \<lparr>header = \<lparr>s_port = 0, d_port = 0, seq_num = 0, ack_num = 0, data_offset_and_reserved = 0,
                 flags = FLAG_RST, window_size = 0, checksum = 0, urgent_ptr = 0\<rparr>,
      options = [], payload = []\<rparr>"

text \<open>The lambda of \<open>listen\<close>.\<close>

definition stack_receive :: "stack_env \<Rightarrow> tcp_packet \<Rightarrow> session_key \<Rightarrow> stack \<Rightarrow> stack result" where
  "stack_receive se packet key st =
     (case map_find key (tcp_sessions st) of
        Some s \<Rightarrow> call_session se (self_ptr s) (\<lambda>e. input e packet) st
      | None \<Rightarrow>
          if flags (header packet) = FLAG_SYN
          then (case create_session se key st of
                  (None, st) \<Rightarrow> Inl Use_after_free
                | (Some p, st) \<Rightarrow>
                    call_session se p (\<lambda>e w. input e packet
                      (listen (w\<lparr>remote_ip := fst key, remote_port := snd key\<rparr>))) st)
          else Inr (st\<lparr>driver := send_packet (draw (base_env se)) stray_reset key (driver st)\<rparr>))"

text \<open>
  The sender of a datagram, as \<open>listen\<close> reads it from the socket address (both fields in
  network order). \<open>inet_ntop\<close> is a parameter: the dotted text of an address, or nothing.
\<close>

definition get_ip_str :: "(u32 \<Rightarrow> string option) \<Rightarrow> u32 \<Rightarrow> string" where
  "get_ip_str inet_ntop sin_addr =
     (case inet_ntop sin_addr of Some ip_buffer \<Rightarrow> ip_buffer | None \<Rightarrow> ''Unknown'')"

definition sender_key :: "(u32 \<Rightarrow> string option) \<Rightarrow> u32 \<Rightarrow> u16 \<Rightarrow> session_key" where
  "sender_key inet_ntop sin_addr sin_port = (get_ip_str inet_ntop sin_addr, ntohs sin_port)"

lemma sender_key_inject:
  assumes "\<And>a b. inet_ntop a \<noteq> None \<Longrightarrow> inet_ntop a = inet_ntop b \<Longrightarrow> a = b" and "\<And>a. inet_ntop a \<noteq> None"
  shows "sender_key inet_ntop a x = sender_key inet_ntop b y \<longleftrightarrow> a = b \<and> x = y"
proof
  assume "sender_key inet_ntop a x = sender_key inet_ntop b y"
  moreover obtain s t where st: "inet_ntop a = Some s" "inet_ntop b = Some t"
    using assms(2) by (meson option.exhaust)
  ultimately have "s = t" and "ntohs x = ntohs y"
    by (simp_all add: sender_key_def get_ip_str_def)
  then show "a = b \<and> x = y"
    using st assms(1) [of a b] by (metis htons_ntohs option.discI)
qed simp

text \<open>A datagram arrives: the driver parses it and calls whoever set the callback last.\<close>

definition stack_datagram :: "stack_env \<Rightarrow> u8 list \<Rightarrow> sock_addr option \<Rightarrow> stack \<Rightarrow> stack result" where
  "stack_datagram se buf addr st =
     (case on_uv_recv buf addr (driver st) of
        None \<Rightarrow> Inr st
      | Some (No_callback, packet, a) \<Rightarrow> Inl Bad_function_call
      | Some (Stack_listen, packet, a) \<Rightarrow> stack_receive se packet a st
      | Some (Session_input p, packet, a) \<Rightarrow> call_session se p (\<lambda>e. input e packet) st)"

text \<open>\<open>_on_idle_dispatch\<close>: the batch is processed in order; each pointer is dereferenced.\<close>

definition run_ready :: "stack_env \<Rightarrow> env \<Rightarrow> world \<Rightarrow> world result" where
  "run_ready se e w =
     (let w = w\<lparr>is_in_ready_queue := False\<rparr>
      in (case app_logic_cb se of None \<Rightarrow> Inr w | Some app \<Rightarrow> app e w))"

fun process_batch :: "stack_env \<Rightarrow> nat list \<Rightarrow> stack \<Rightarrow> stack result" where
  "process_batch se [] st = Inr st"
| "process_batch se (s # processing_batch) st =
     bind_res (call_session se s (run_ready se) st) (process_batch se processing_batch)"

definition on_idle_dispatch :: "stack_env \<Rightarrow> stack \<Rightarrow> stack result" where
  "on_idle_dispatch se st =
     (let st = st\<lparr>idle_active := False\<rparr>
      in if ready_queue st = [] then Inr st
         else let processing_batch = ready_queue st
              in process_batch se processing_batch (st\<lparr>ready_queue := []\<rparr>))"

text \<open>The closing loop of \<open>stop_and_destory\<close>.\<close>

fun close_all :: "stack_env \<Rightarrow> nat list \<Rightarrow> stack \<Rightarrow> stack result" where
  "close_all se [] st = Inr st"
| "close_all se (s # rest) st = bind_res (call_session se s close st) (close_all se rest)"

text \<open>
  \<open>stop_and_destory\<close>: every session is closed, the driver stopped, the map emptied, and the loop
  run until nothing is alive. \<open>uv_loop_alive\<close> and one turn of \<open>uv_run\<close> are parameters; a loop
  that never dies is \<open>None\<close>, so the call does not return. (The status of \<open>uv_loop_close\<close>, with
  which it ends, only decides what is logged.)
\<close>

partial_function (option) run_out :: "(stack \<Rightarrow> bool) \<Rightarrow> (stack \<Rightarrow> stack result) \<Rightarrow> stack \<Rightarrow> stack result option" where
  "run_out loop_alive run_once st =
     (if loop_alive st
      then (case run_once st of Inl err \<Rightarrow> Some (Inl err) | Inr st \<Rightarrow> run_out loop_alive run_once st)
      else Some (Inr st))"

definition stop_and_destory ::
  "uv_api \<Rightarrow> (stack \<Rightarrow> bool) \<Rightarrow> (stack \<Rightarrow> stack result) \<Rightarrow> stack_env \<Rightarrow> stack \<Rightarrow> stack result" where
  "stop_and_destory uv loop_alive run_once se st =
     bind_res (close_all se (map (self_ptr \<circ> snd) (tcp_sessions st)) st) (\<lambda>st.
     bind_res (driver_stop uv (driver st)) (\<lambda>d.
       case run_out loop_alive run_once (st\<lparr>driver := d, tcp_sessions := []\<rparr>) of
         None \<Rightarrow> Inl No_return | Some r \<Rightarrow> r))"

text \<open>
  The destructor deletes the loop, the driver and the idle handle; the members follow, among
  them the map, whose sessions destroy their timer managers. Those stop and close the handles
  of the loop that is gone, if they have any.
\<close>

fun destroy_sessions :: "tcp_session list \<Rightarrow> unit result" where
  "destroy_sessions [] = Inr ()"
| "destroy_sessions (s # rest) =
     (if uv_calls (destroy_timers (tmgr s)) \<noteq> uv_calls (tmgr s) then Inl Use_after_free
      else destroy_sessions rest)"

definition destroy_stack :: "stack \<Rightarrow> unit result" where
  "destroy_stack st = destroy_sessions (map snd (tcp_sessions st))"

section \<open>Events of a stack\<close>

text \<open>
  A datagram, an expiring timer of a session, the idle callback, and calls of the
  application on a session it holds a pointer to or on the stack.
\<close>

datatype stack_event =
    Se_datagram "u8 list" "sock_addr option"
  | Se_timer nat uv_handle
  | Se_idle
  | Se_call nat event
  | Se_create session_key
  | Se_listen

fun stack_step :: "stack_env \<Rightarrow> stack_event \<Rightarrow> stack \<Rightarrow> stack result" where
  "stack_step se (Se_datagram buf addr) st = stack_datagram se buf addr st"
| "stack_step se (Se_timer p h) st =
     call_session se p (\<lambda>e w. bind_res (session_step e (Ev_timer h) w) (\<lambda>(_, w). Inr w)) st"
| "stack_step se Se_idle st = (if idle_active st then on_idle_dispatch se st else Inr st)"
| "stack_step se (Se_call p ev) st =
     call_session se p (\<lambda>e w. bind_res (session_step e ev w) (\<lambda>(_, w). Inr w)) st"
| "stack_step se (Se_create key) st = Inr (snd (create_session se key st))"
| "stack_step se Se_listen st = Inr (stack_listen st)"

end
