(* ===== verification/Side_Conditions.thy ===== *)
theory Side_Conditions
  imports Session_Invariants
begin

text \<open>
  Conditions that ride along. Many facts about a session concern a part of it that the
  handlers touch in a few ways only: its place in the stack, its addresses, its timers. The
  interface of this theory names those few ways; whoever shows that they keep a condition
  gets it kept by every event, together with the representation invariant.
\<close>

section \<open>The part of a session that is looked at\<close>

definition side_view ::
  "world \<Rightarrow> nat \<times> bool \<times> post list \<times> string \<times> u16 \<times> u16 \<times> u32 \<times> retransmit_closure timer_manager" where
  "side_view w = (self_ptr w, is_in_ready_queue w, posts w, remote_ip w, remote_port w, listener_port w,
     current_rto w, tmgr w)"

lemma side_view_blocks [simp]:
  "side_view (send_pure_ack e a w) = side_view w"
  "side_view (transition_to s' w) = side_view w"
  "side_view (count_dup_ack a w) = side_view w"
  "side_view (grow_cwnd w) = side_view w"
  "side_view (accept_in_order d w) = side_view w"
  "side_view (queued d w) = side_view w"
  "side_view (listen w) = side_view w"
  by (simp_all add: side_view_def send_pure_ack_def transition_to_def count_dup_ack_def grow_cwnd_def
      accept_in_order_eq queued_def listen_def Let_def)

lemma side_view_updates [simp]:
  "side_view (w\<lparr>swnd := s\<rparr>) = side_view w" "side_view (w\<lparr>rwnd := r\<rparr>) = side_view w"
  "side_view (w\<lparr>send_buffer := b\<rparr>) = side_view w" "side_view (w\<lparr>recv_buffer := b\<rparr>) = side_view w"
  "side_view (w\<lparr>user_want_to_close := u\<rparr>) = side_view w" "side_view (w\<lparr>ssthresh := x\<rparr>) = side_view w"
  "side_view (w\<lparr>peer_usable_window_size := p\<rparr>) = side_view w" "side_view (w\<lparr>dup_ack_count := d\<rparr>) = side_view w"
  "side_view (w\<lparr>state := st\<rparr>) = side_view w" "side_view (w\<lparr>inflight_packets := i\<rparr>) = side_view w"
  "side_view (w\<lparr>udp := n\<rparr>) = side_view w" "side_view (w\<lparr>iss_calls := c\<rparr>) = side_view w"
  by (simp_all add: side_view_def)

lemma side_view_tmgr: "side_view w' = side_view w \<Longrightarrow> side_view (w'\<lparr>tmgr := t\<rparr>) = side_view (w\<lparr>tmgr := t\<rparr>)"
  by (simp add: side_view_def)

definition kept :: "(world \<Rightarrow> bool) \<Rightarrow> world \<Rightarrow> bool" where
  "kept Q w \<longleftrightarrow> base_inv w \<and> Q w"

lemma kept_base: "kept Q w \<Longrightarrow> base_inv w"
  by (simp add: kept_def)

text \<open>What the wire sees of a session, too: the datagrams it has sent and those it keeps as in flight.\<close>

definition wire_view where
  "wire_view w = (side_view w, inflight_packets w, udp_sends (udp w))"

lemma wire_view_blocks [simp]:
  "wire_view (transition_to s' w) = wire_view w"
  "wire_view (count_dup_ack a w) = wire_view w"
  "wire_view (grow_cwnd w) = wire_view w"
  "wire_view (accept_in_order d w) = wire_view w"
  "wire_view (queued d w) = wire_view w"
  "wire_view (listen w) = wire_view w"
  by (simp_all add: wire_view_def)
    (simp_all add: transition_to_def count_dup_ack_def grow_cwnd_def accept_in_order_eq queued_def listen_def Let_def)

lemma wire_view_updates [simp]:
  "wire_view (w\<lparr>swnd := s\<rparr>) = wire_view w" "wire_view (w\<lparr>rwnd := r\<rparr>) = wire_view w"
  "wire_view (w\<lparr>send_buffer := b\<rparr>) = wire_view w" "wire_view (w\<lparr>recv_buffer := b\<rparr>) = wire_view w"
  "wire_view (w\<lparr>user_want_to_close := u\<rparr>) = wire_view w" "wire_view (w\<lparr>ssthresh := x\<rparr>) = wire_view w"
  "wire_view (w\<lparr>peer_usable_window_size := p\<rparr>) = wire_view w" "wire_view (w\<lparr>dup_ack_count := d\<rparr>) = wire_view w"
  "wire_view (w\<lparr>state := st\<rparr>) = wire_view w" "wire_view (w\<lparr>iss_calls := c\<rparr>) = wire_view w"
  "wire_view (w\<lparr>udp := set_on_receive cb (udp w)\<rparr>) = wire_view w"
  by (simp_all add: wire_view_def set_on_receive_def)

lemma try_send_data_bound: "base_inv w \<Longrightarrow> length (try_send_data w) \<le> 1024"
  using ring_ok_bound [of "send_buffer w"]
  by (auto simp: base_inv_def base_ok_def try_send_data_def Let_def)

text \<open>The flags of the segments without data that take part in opening, closing and giving up.\<close>

definition control_flags :: "u8 set" where
  "control_flags = {FLAG_SYN, FLAG_SYN OR FLAG_ACK, FLAG_FIN, FLAG_FIN OR FLAG_ACK, FLAG_RST}"

lemma control_flags_intros [simp, intro]:
  "FLAG_SYN \<in> control_flags" "FLAG_SYN OR FLAG_ACK \<in> control_flags" "FLAG_FIN \<in> control_flags"
  "FLAG_FIN OR FLAG_ACK \<in> control_flags" "FLAG_RST \<in> control_flags"
  by (simp_all add: control_flags_def)

section \<open>The interface\<close>

text \<open>
  Every way in which a handler touches what is looked at: timers stopped, an acknowledgement
  taken in, a segment sent (of one of three kinds), a timer expired, and the 2MSL timer.
\<close>

locale session_condition =
  fixes Q :: "world \<Rightarrow> bool"
  assumes law_view: "wire_view w' = wire_view w \<Longrightarrow> Q w' = Q w"
    and law_stop: "Q w \<Longrightarrow> Q (w\<lparr>tmgr := stop_timer s (tmgr w)\<rparr>)"
    and law_stop_all: "Q w \<Longrightarrow> Q (w\<lparr>tmgr := stop_all_timers (tmgr w)\<rparr>)"
    and law_wait: "Q w \<Longrightarrow> Q (w\<lparr>tmgr := uv_request (Uv_timer_start Two_msl On_2msl (2 * 60 * 1000)) (tmgr w)\<rparr>)"
    and law_waited: "Q w \<Longrightarrow> Q (w\<lparr>tmgr := uv_request (Uv_timer_stop Two_msl) (tmgr w)\<rparr>)"
    and law_accept: "kept Q w \<Longrightarrow> Q (accept_ack a w)"
    and law_ack: "kept Q w \<Longrightarrow> Q (send_pure_ack e a w)"
    and law_control: "kept Q w \<Longrightarrow> fl \<in> control_flags \<Longrightarrow> Q (send_control_packet e fl w)"
    and law_data: "kept Q w \<Longrightarrow> length data \<le> 1024 \<Longrightarrow> Q (send_payload_packet e data FLAG_ACK w)"
    and law_expire: "kept Q w \<Longrightarrow> armed (tmgr w) h = Some (On_timer_uv_tick c, t) \<Longrightarrow> Q (run_retransmit_closure e c w)"
begin

lemma keptI_wire: "base_inv w' \<Longrightarrow> wire_view w' = wire_view w \<Longrightarrow> kept Q w \<Longrightarrow> kept Q w'"
  using law_view [of w' w] by (simp add: kept_def)

lemma Q_wire_blocks [simp]:
  "Q (transition_to s' w) = Q w" "Q (count_dup_ack a w) = Q w" "Q (grow_cwnd w) = Q w"
  "Q (accept_in_order d w) = Q w" "Q (queued d w) = Q w" "Q (listen w) = Q w"
  "Q (w\<lparr>swnd := x\<rparr>) = Q w" "Q (w\<lparr>rwnd := y\<rparr>) = Q w" "Q (w\<lparr>recv_buffer := b\<rparr>) = Q w"
  "Q (w\<lparr>user_want_to_close := u\<rparr>) = Q w" "Q (w\<lparr>peer_usable_window_size := p\<rparr>) = Q w"
  "Q (w\<lparr>state := st\<rparr>) = Q w" "Q (w\<lparr>iss_calls := c\<rparr>) = Q w"
  "Q (w\<lparr>udp := set_on_receive cb (udp w)\<rparr>) = Q w"
  "Q (w\<lparr>ssthresh := z, swnd := x, dup_ack_count := d'\<rparr>) = Q w"
  by (rule law_view, simp)+

text \<open>The handlers.\<close>

lemma kept_data: "kept Q w \<Longrightarrow> length data \<le> 1024 \<Longrightarrow> kept Q (send_payload_packet e data FLAG_ACK w)"
  using law_data [of w data e] by (simp add: kept_def base_inv_payload)

lemma kept_control: "kept Q w \<Longrightarrow> fl \<in> control_flags \<Longrightarrow> kept Q (send_control_packet e fl w)"
  using law_control [of w fl e] by (simp add: kept_def base_inv_control)

lemma kept_pure_ack [simp]: "kept Q w \<Longrightarrow> kept Q (send_pure_ack e a w)"
  using law_ack [of w e a] by (simp add: kept_def)

lemma kept_stop: "kept Q w \<Longrightarrow> kept Q (w\<lparr>tmgr := stop_timer s (tmgr w)\<rparr>)"
  by (simp add: kept_def base_inv_stop law_stop)

lemma kept_stop_all: "kept Q w \<Longrightarrow> kept Q (w\<lparr>tmgr := stop_all_timers (tmgr w)\<rparr>)"
  by (simp add: kept_def base_inv_stop_all law_stop_all)

lemma kept_blocks [simp]:
  "kept Q (w\<lparr>swnd := x\<rparr>) = kept Q w" "recv_window_size y = recv_window_size (rwnd w) \<Longrightarrow> kept Q (w\<lparr>rwnd := y\<rparr>) = kept Q w"
  "kept Q (transition_to s' w) = kept Q w" "kept Q (w\<lparr>iss_calls := c\<rparr>) = kept Q w"
  "kept Q (w\<lparr>udp := set_on_receive cb (udp w)\<rparr>) = kept Q w" "kept Q (queued d w) = (base_inv (queued d w) \<and> Q w)"
  "kept Q (w\<lparr>user_want_to_close := u\<rparr>) = kept Q w" "kept Q (w\<lparr>peer_usable_window_size := p\<rparr>) = kept Q w"
  by (simp_all add: kept_def) (simp_all add: base_inv_def)

lemma kept_try_send: "kept Q w \<Longrightarrow> returns (kept Q) (handle_try_send e w)"
  by (simp add: handle_try_send_eq kept_base kept_data try_send_data_bound)

lemma kept_handle_ack:
  assumes env: "env_keeps (kept Q) e" and w: "kept Q w"
  shows "returns (\<lambda>(_, w). kept Q w) (handle_ack e p w)"
proof (cases "ack_acceptable (ntohl (ack_num (header p))) w")
  case True
  have "kept Q (count_dup_ack a (accept_ack a w))" for a
    using w law_accept [OF w, of a] by (simp add: kept_def base_inv_accept_ack)
  then have react: "returns (kept Q) (react_dup_ack e a (count_dup_ack a (accept_ack a w)))" for a
    by (rule react_dup_ack_keeps [OF env]) (simp add: kept_def base_inv_cwnd)
  have grow: "kept Q (grow_cwnd w') = kept Q w'" for w'
    by (simp add: kept_def)
  show ?thesis
    using True unfolding handle_ack_def Let_def
    by simp (rule returns_bind [OF react], rule returns_bind [OF kept_try_send], simp_all add: grow)
qed (use w in \<open>simp add: handle_ack_def Let_def\<close>)

lemma kept_in_order: "kept Q w \<Longrightarrow> kept Q (accept_in_order d w)"
  by (simp add: kept_def base_inv_accept_in_order)

lemma kept_incoming: "kept Q w \<Longrightarrow> returns (\<lambda>(_, w). kept Q w) (handle_incoming_packet e p w)"
  by (simp add: handle_incoming_eq [OF kept_base] Let_def kept_in_order)

lemma kept_established:
  assumes env: "env_keeps (kept Q) e" and "kept Q w"
  shows "returns (kept Q) (handle_established e p w)"
  unfolding handle_established_def
proof (intro returns_bind)
  show "returns (kept Q) (if has_flag p FLAG_ACK
      then bind_res (handle_ack e p w) (\<lambda>(_, w). handle_try_send e w) else Inr w)"
    using assms by (auto intro!: returns_bind [OF kept_handle_ack [OF env]] kept_try_send)
next
  fix w1
  assume "kept Q w1"
  then show "returns (kept Q) (if payload p \<noteq> []
      then bind_res (handle_incoming_packet e p w1) (\<lambda>(is_order, w).
        if is_order then call_if_set (map_option (\<lambda>cb. cb (available w)) (on_data_cb e)) w else Inr w)
      else Inr w1)"
    by (auto intro!: returns_bind [OF kept_incoming] env_keeps_data [OF env])
next
  fix w2
  assume "kept Q w2"
  then show "returns (kept Q) (if has_flag p FLAG_FIN
      then let w = w2\<lparr>rwnd := (rwnd w2)\<lparr>recv_next := ntohl (seq_num (header p)) + 1\<rparr>\<rparr>;
               w = send_pure_ack e (recv_next (rwnd w)) w;
               w = transition_to CLOSE_WAIT w
           in call_if_set (map_option (\<lambda>cb. cb 0) (on_data_cb e)) w
      else Inr w2)"
    by (simp add: Let_def env_keeps_data [OF env])
qed

lemma kept_established_call:
  assumes "env_keeps (kept Q) e" and "kept Q w"
  shows "returns (kept Q) (bind_res (call_if_set (on_established_cb e) w) (handle_try_send e))"
  using assms by (intro returns_bind [OF env_keeps_established] kept_try_send)

lemma kept_syn_sent:
  assumes env: "env_keeps (kept Q) e" and w: "kept Q w"
  shows "returns (kept Q) (handle_syn_sent e p w)"
proof -
  have "kept Q (w\<lparr>rwnd := (rwnd w)\<lparr>recv_next := x\<rparr>, swnd := y, tmgr := stop_timer z (tmgr w)\<rparr>)" for x y z
    using kept_stop [of "w\<lparr>rwnd := (rwnd w)\<lparr>recv_next := x\<rparr>, swnd := y\<rparr>" z] w by simp
  then show ?thesis
    using w unfolding handle_syn_sent_def Let_def
    by (auto intro!: kept_established_call [OF env] kept_control)
qed

lemma kept_acked: "kept Q w \<Longrightarrow> kept Q (w\<lparr>swnd := y, tmgr := stop_timer z (tmgr w)\<rparr>)"
  using kept_stop [of "w\<lparr>swnd := y\<rparr>" z] by simp

lemma kept_syn_received:
  "env_keeps (kept Q) e \<Longrightarrow> kept Q w \<Longrightarrow> returns (kept Q) (handle_syn_received e p w)"
  unfolding handle_syn_received_def Let_def by (auto intro!: kept_established_call simp: kept_acked)

lemma kept_close_wait: "kept Q w \<Longrightarrow> returns (kept Q) (handle_close_wait e p w)"
  unfolding handle_close_wait_def Let_def
  by (rule returns_bind [OF kept_try_send]) (auto intro!: kept_control kept_stop_all)

lemma kept_last_ack:
  "env_keeps (kept Q) e \<Longrightarrow> kept Q w \<Longrightarrow> returns (kept Q) (handle_last_ack e p w)"
  unfolding handle_last_ack_def Let_def by (auto intro!: env_keeps_closed simp: kept_acked)

lemma kept_reset: "env_keeps (kept Q) e \<Longrightarrow> kept Q w \<Longrightarrow> returns (kept Q) (handle_reset e w)"
  unfolding handle_reset_def Let_def by (rule env_keeps_closed) (simp_all add: kept_stop_all)

lemma kept_two_msl:
  "kept Q w \<Longrightarrow> kept Q (start_2msl_timer w)"
  "kept Q w \<Longrightarrow> kept Q (w\<lparr>tmgr := uv_request (Uv_timer_stop Two_msl) (tmgr w)\<rparr>)"
  using law_wait [of w] law_waited [of w]
  by (simp_all add: kept_def start_2msl_timer_def) (simp_all add: base_inv_def base_ok_rules)

lemma kept_2msl: "env_keeps (kept Q) e \<Longrightarrow> kept Q w \<Longrightarrow> returns (kept Q) (handle_2msl_timeout e w)"
  using kept_two_msl(2) [of "transition_to CLOSED w"] unfolding handle_2msl_timeout_def Let_def
  by (intro env_keeps_closed) simp_all

lemma kept_listen: "kept Q w \<Longrightarrow> kept Q (handle_listen e p w)"
  by (auto simp: handle_listen_def Let_def intro!: kept_control)

lemma kept_fin_wait:
  "kept Q w \<Longrightarrow> kept Q (handle_fin_wait_1 e p w)"
  "kept Q w \<Longrightarrow> kept Q (handle_fin_wait_2 e p w)"
  "kept Q w \<Longrightarrow> kept Q (handle_timed_wait e p w)"
  using kept_acked [of "transition_to FIN_WAIT_2 w"]
  by (simp_all add: handle_fin_wait_1_def handle_fin_wait_2_def handle_timed_wait_def Let_def kept_two_msl)

lemma kept_input:
  assumes "env_keeps (kept Q) e" and w: "kept Q w"
  shows "returns (kept Q) (input e p w)"
proof -
  have "kept Q (w\<lparr>peer_usable_window_size := ucast (ntohs (window_size (header p)))\<rparr>)"
    using w by simp
  then show ?thesis
    using assms by (cases "state w")
      (auto simp: input_def Let_def kept_reset kept_syn_sent kept_syn_received kept_established
        kept_close_wait kept_last_ack kept_listen kept_fin_wait)
qed

lemma kept_close:
  assumes w: "kept Q w"
  shows "returns (kept Q) (close e w)"
proof (cases "state w = ESTABLISHED")
  case True
  then show ?thesis
    unfolding close_def Let_def
    by simp (rule returns_bind [OF kept_try_send [OF w]], simp add: kept_control kept_stop_all)
next
  case False
  then show ?thesis
    using w by (simp add: close_def Let_def kept_control kept_stop_all)
qed

lemma kept_reading:
  "kept Q w \<Longrightarrow> n \<le> qsize (recv_buffer w) \<Longrightarrow>
     kept Q (w\<lparr>recv_buffer := snd (read_loop front pop_front n (recv_buffer w))\<rparr>)"
  by (simp add: kept_def base_inv_recv_buffer)

lemma kept_auto_close: "kept Q w \<Longrightarrow> returns (kept Q) (auto_close e w)"
  by (simp add: auto_close_def kept_close)

lemma kept_expire:
  assumes "env_keeps (kept Q) e" and w: "kept Q w"
  shows "returns (kept Q) (expire e h w)"
proof (cases "armed (tmgr w) h")
  case (Some a)
  then show ?thesis
    using assms kept_2msl [OF assms] law_expire [of w h _ _ e] base_inv_retransmit [of w]
    by (cases a; cases "fst a") (auto simp: expire_def kept_def run_retransmit_closure_def)
qed (use w in \<open>simp add: expire_def\<close>)

lemma kept_connect: "kept Q w \<Longrightarrow> kept Q (connect e w)"
  by (auto simp: connect_def Let_def intro!: kept_control)

text \<open>What the application calls invokes no callback; packets and timers may.\<close>

lemma kept_call:
  assumes w: "kept Q w" and ev: "\<And>p. ev \<noteq> Ev_input p" "\<And>h. ev \<noteq> Ev_timer h"
  shows "returns (\<lambda>(_, w). kept Q w) (session_step e ev w)"
proof (cases ev)
  case (Ev_send data)
  then show ?thesis
    using w base_inv_queued [of w data] kept_data [of "queued data w"] try_send_data_bound [of "queued data w"]
    by (simp add: send_eq kept_base) (simp add: kept_def)
next
  case (Ev_recv k)
  show ?thesis
    unfolding Ev_recv session_step.simps recv_eq Let_def
    by (rule returns_bind [OF kept_auto_close]) (auto intro!: kept_reading w)
next
  case Ev_read_all
  show ?thesis
    unfolding Ev_read_all session_step.simps read_all_eq Let_def
    by (rule returns_bind [OF kept_auto_close]) (auto intro!: kept_reading w)
next
  case Ev_listen
  then show ?thesis
    using w base_inv_listen [of w] by (simp add: kept_def)
qed (use ev w kept_connect [OF w] in \<open>auto intro!: returns_bind [OF kept_close]\<close>)

lemma kept_step:
  assumes env: "env_keeps (kept Q) e" and w: "kept Q w"
  shows "returns (\<lambda>(_, w). kept Q w) (session_step e ev w)"
proof (cases "(\<exists>p. ev = Ev_input p) \<or> (\<exists>h. ev = Ev_timer h)")
  case True
  then show ?thesis
    using w by (auto intro!: returns_bind [OF kept_input [OF env]] returns_bind [OF kept_expire [OF env]])
next
  case False
  then show ?thesis
    by (intro kept_call [OF w]) auto
qed

lemma kept_run:
  assumes "env_keeps (kept Q) e" and "kept Q w"
  shows "returns (\<lambda>(_, w). kept Q w) (session_run e evs w)"
  using session.run_returns [where ok = "\<lambda>_. True" and good = "kept Q" and e = e and evs = evs] kept_step [OF assms(1)] assms(2)
  by (simp add: case_prod_unfold list_all_iff)

end

section \<open>Conditions that do not look at what is sent\<close>

text \<open>
  A timer is started for a new segment with the current timeout and the count zero; when it
  expires it is stopped, or started again with the count increased and the timeout shifted
  by the count. The other laws are the ways timers are stopped.
\<close>

locale side_condition =
  fixes Q :: "world \<Rightarrow> bool"
  assumes same_view: "side_view w' = side_view w \<Longrightarrow> Q w' = Q w"
    and stopped: "Q w \<Longrightarrow> Q (w\<lparr>tmgr := stop_timer s (tmgr w)\<rparr>)"
    and stopped_all: "Q w \<Longrightarrow> Q (w\<lparr>tmgr := stop_all_timers (tmgr w)\<rparr>)"
    and dropped: "Q w \<Longrightarrow> Q (w\<lparr>tmgr := drop_timer_up_to a (tmgr w)\<rparr>)"
    and waits: "Q w \<Longrightarrow> Q (w\<lparr>tmgr := uv_request (Uv_timer_start Two_msl On_2msl (2 * 60 * 1000)) (tmgr w)\<rparr>)"
    and waited: "Q w \<Longrightarrow> Q (w\<lparr>tmgr := uv_request (Uv_timer_stop Two_msl) (tmgr w)\<rparr>)"
    and started: "Q w \<Longrightarrow> rt_count c = 0 \<Longrightarrow> Q (w\<lparr>tmgr := start_timer s (get_timeout_ms w) c (tmgr w)\<rparr>)"
    and restarted: "Q w \<Longrightarrow> armed (tmgr w) h = Some (On_timer_uv_tick c, t) \<Longrightarrow>
      rt_count c + 1 < MAX_RETRANSMIT_COUNT \<Longrightarrow> rt_count c' = rt_count c + 1 \<Longrightarrow>
      Q (w\<lparr>tmgr := start_timer s (get_timeout_ms w * push_bit (unat (rt_count c + 1)) 1) c' (stop_timer s (tmgr w))\<rparr>)"
begin

lemma by_view: "side_view w' = side_view w \<Longrightarrow> Q w \<Longrightarrow> Q w'"
  using same_view [of w' w] by simp

lemma keptI: "base_inv w' \<Longrightarrow> side_view w' = side_view w \<Longrightarrow> kept Q w \<Longrightarrow> kept Q w'"
  using same_view [of w' w] by (simp add: kept_def)

lemma Q_blocks [simp]:
  "Q (send_pure_ack e a w) = Q w" "Q (transition_to s' w) = Q w" "Q (count_dup_ack a w) = Q w"
  "Q (grow_cwnd w) = Q w" "Q (accept_in_order d w) = Q w" "Q (queued d w) = Q w" "Q (listen w) = Q w"
  "Q (w\<lparr>swnd := x\<rparr>) = Q w" "Q (w\<lparr>rwnd := y\<rparr>) = Q w" "Q (w\<lparr>recv_buffer := b\<rparr>) = Q w"
  "Q (w\<lparr>user_want_to_close := u\<rparr>) = Q w" "Q (w\<lparr>peer_usable_window_size := p\<rparr>) = Q w"
  "Q (w\<lparr>state := st\<rparr>) = Q w" "Q (w\<lparr>iss_calls := c\<rparr>) = Q w" "Q (w\<lparr>udp := n\<rparr>) = Q w"
  "Q (w\<lparr>ssthresh := z, swnd := x, dup_ack_count := d'\<rparr>) = Q w"
  by (rule same_view, simp)+

lemma Q_control: "Q w \<Longrightarrow> Q (send_control_packet e fl w)"
proof -
  assume w: "Q w"
  define c where "c = \<lparr>rt_packet = calculate_checksum \<lparr>header = make_header e (recv_next (rwnd w)) fl w, options = [], payload = []\<rparr>,
    rt_count = 0, rt_ip = remote_ip w, rt_port = remote_port w\<rparr>"
  have "side_view (send_control_packet e fl w) = side_view w
      \<or> side_view (send_control_packet e fl w)
        = side_view (w\<lparr>tmgr := start_timer (send_next (swnd w)) (get_timeout_ms w) c (tmgr w)\<rparr>)"
    by (simp add: send_control_packet_def Let_def c_def side_view_def)
  then show ?thesis
    by (elim disjE) (erule by_view, rule w, erule by_view, rule started [OF w], simp add: c_def)
qed

lemma Q_payload: "Q w \<Longrightarrow> Q (send_payload_packet e data fl w)"
proof -
  assume w: "Q w"
  define c where "c = \<lparr>rt_packet = calculate_checksum \<lparr>header = make_header e (recv_next (rwnd w)) fl w, options = [], payload = data\<rparr>,
    rt_count = 0, rt_ip = ''127.0.0.1'', rt_port = 9999\<rparr>"
  have "side_view (send_payload_packet e data fl w) = side_view w
      \<or> side_view (send_payload_packet e data fl w)
        = side_view (w\<lparr>tmgr := start_timer (send_next (swnd w)) (get_timeout_ms w) c (tmgr w)\<rparr>)"
    by (simp add: send_payload_packet_def Let_def c_def side_view_def)
  then show ?thesis
    by (elim disjE) (erule by_view, rule w, erule by_view, rule started [OF w], simp add: c_def)
qed

lemma kept_payload: "kept Q w \<Longrightarrow> kept Q (send_payload_packet e data fl w)"
  by (simp add: kept_def base_inv_payload Q_payload)

lemma Q_accept_ack: "Q w \<Longrightarrow> Q (accept_ack a w)"
  using dropped [of w "a - 1"] same_view [of "accept_ack a w" "w\<lparr>tmgr := drop_timer_up_to (a - 1) (tmgr w)\<rparr>"]
  by (simp add: accept_ack_def Let_def side_view_def)

lemma Q_expiry:
  assumes w: "Q w" and c: "armed (tmgr w) h = Some (On_timer_uv_tick c, t)"
  shows "Q (run_retransmit_closure e c w)"
proof -
  let ?s = "ntohl (seq_num (header (rt_packet c)))"
  define w' where "w' = run_retransmit_closure e c w"
  show ?thesis
  proof (cases "MAX_RETRANSMIT_COUNT \<le> rt_count c + 1")
    case True
    then have "side_view w' = side_view (w\<lparr>tmgr := stop_timer ?s (tmgr w)\<rparr>)"
      by (simp add: w'_def run_retransmit_closure_def handle_retransmit_def Let_def)
    from by_view [OF this stopped [OF w]] show ?thesis
      by (simp only: w'_def)
  next
    case False
    obtain c' where c': "rt_count c' = rt_count c + 1" and v: "side_view w'
        = side_view (w\<lparr>tmgr := start_timer ?s (get_timeout_ms w * push_bit (unat (rt_count c + 1)) 1) c'
            (stop_timer ?s (tmgr w))\<rparr>)"
      using False by (simp add: w'_def run_retransmit_closure_def handle_retransmit_def Let_def side_view_def)
        (metis retransmit_closure.select_convs(2))
    have "rt_count c + 1 < MAX_RETRANSMIT_COUNT"
      using False by (simp only: not_le)
    from by_view [OF v restarted [OF w c this c']] show ?thesis
      by (simp only: w'_def)
  qed
qed

end

text \<open>Such a condition is one of the general kind.\<close>

sublocale side_condition \<subseteq> session_condition Q
proof unfold_locales
  fix w w' :: world
  show "wire_view w' = wire_view w \<Longrightarrow> Q w' = Q w"
    by (rule same_view) (simp add: wire_view_def)
next
  fix w :: world
  show "Q w \<Longrightarrow> Q (w\<lparr>tmgr := uv_request (Uv_timer_start Two_msl On_2msl (2 * 60 * 1000)) (tmgr w)\<rparr>)"
    by (rule waits)
qed (simp_all add: kept_def stopped stopped_all waits waited Q_accept_ack Q_control Q_payload Q_expiry)

end
