(* ===== verification/Session_Frame.thy ===== *)
theory Session_Frame
  imports Tcp_Stack Side_Conditions
begin

text \<open>
  A session touches the stack through three members only: its address, its flag for the ready
  queue and its requests. No operation changes them except by way of the callbacks; so any
  condition on the three that the callbacks keep is kept by every event.
\<close>

definition stack_view :: "world \<Rightarrow> nat \<times> bool \<times> post list" where
  "stack_view w = (self_ptr w, is_in_ready_queue w, posts w)"

definition framed :: "(nat \<times> bool \<times> post list \<Rightarrow> bool) \<Rightarrow> world \<Rightarrow> bool" where
  "framed P w \<longleftrightarrow> base_inv w \<and> P (stack_view w)"

lemma view_blocks [simp]:
  "stack_view (send_pure_ack e a w) = stack_view w"
  "stack_view (send_control_packet e fl w) = stack_view w"
  "stack_view (send_payload_packet e d fl w) = stack_view w"
  "stack_view (snd (handle_retransmit e p c s t ip port w)) = stack_view w"
  "stack_view (transition_to s' w) = stack_view w"
  "stack_view (accept_ack a w) = stack_view w"
  "stack_view (count_dup_ack a w) = stack_view w"
  "stack_view (grow_cwnd w) = stack_view w"
  "stack_view (accept_in_order d w) = stack_view w"
  "stack_view (queued d w) = stack_view w"
  "stack_view (connect e w) = stack_view w"
  "stack_view (listen w) = stack_view w"
  "stack_view (handle_listen e p w) = stack_view w"
  "stack_view (handle_fin_wait_1 e p w) = stack_view w"
  "stack_view (handle_fin_wait_2 e p w) = stack_view w"
  "stack_view (handle_timed_wait e p w) = stack_view w"
  by (simp_all add: stack_view_def send_pure_ack_def send_control_packet_def send_payload_packet_def
      handle_retransmit_def transition_to_def accept_ack_def count_dup_ack_def grow_cwnd_def
      accept_in_order_eq queued_def connect_def listen_def handle_listen_def handle_fin_wait_1_def
      handle_fin_wait_2_def handle_timed_wait_def start_2msl_timer_def Let_def)

lemma view_updates [simp]:
  "stack_view (w\<lparr>tmgr := t\<rparr>) = stack_view w" "stack_view (w\<lparr>swnd := s\<rparr>) = stack_view w"
  "stack_view (w\<lparr>rwnd := r\<rparr>) = stack_view w" "stack_view (w\<lparr>recv_buffer := b\<rparr>) = stack_view w"
  "stack_view (w\<lparr>user_want_to_close := u\<rparr>) = stack_view w" "stack_view (w\<lparr>ssthresh := x\<rparr>) = stack_view w"
  "stack_view (w\<lparr>peer_usable_window_size := p\<rparr>) = stack_view w" "stack_view (w\<lparr>dup_ack_count := d\<rparr>) = stack_view w"
  "stack_view (w\<lparr>state := st\<rparr>) = stack_view w"
  "stack_view (w\<lparr>remote_ip := i\<rparr>) = stack_view w" "stack_view (w\<lparr>remote_port := q\<rparr>) = stack_view w"
  by (simp_all add: stack_view_def)

lemma framed_base: "framed P w \<Longrightarrow> base_inv w"
  by (simp add: framed_def)

lemma framedI: "base_inv w' \<Longrightarrow> stack_view w' = stack_view w \<Longrightarrow> framed P w \<Longrightarrow> framed P w'"
  by (simp add: framed_def)

text \<open>Such a condition rides along with every operation.\<close>

interpretation frame: side_condition "\<lambda>w. P (stack_view w)" for P
  by unfold_locales (auto simp: side_view_def stack_view_def)

lemma framed_kept: "framed P = kept (\<lambda>w. P (stack_view w))"
  by (rule ext) (simp add: framed_def kept_def)

lemma framed_input:
  "env_keeps (framed P) e \<Longrightarrow> framed P w \<Longrightarrow> returns (framed P) (input e p w)"
  unfolding framed_kept by (rule frame.kept_input)

lemma framed_close: "framed P w \<Longrightarrow> returns (framed P) (close e w)"
  unfolding framed_kept by (rule frame.kept_close)

lemma framed_call:
  assumes "framed P w" and "\<And>p. ev \<noteq> Ev_input p" and "\<And>h. ev \<noteq> Ev_timer h"
  shows "returns (framed P) (bind_res (session_step e ev w) (\<lambda>(_, w). Inr w))"
  by (rule returns_bind [OF frame.kept_call [of P w ev e]]) (use assms in \<open>auto simp: framed_kept\<close>)

text \<open>The event's effect without the bytes it returns.\<close>

lemma framed_event:
  assumes "env_keeps (framed P) e" and "framed P w"
  shows "returns (framed P) (bind_res (session_step e ev w) (\<lambda>(_, w). Inr w))"
  by (rule returns_bind [OF frame.kept_step [of P e w ev]]) (use assms in \<open>auto simp: framed_kept\<close>)

end
