(* ===== verification/Stack_Invariants.thy ===== *)
theory Stack_Invariants
  imports Session_Frame
begin

text \<open>
  The stack's invariant: the map is well formed, its sessions are, the flags of the sessions
  agree with the ready queue, and a pending queue has the idle handle running. Every event of
  the stack keeps it, or stops at a dangling pointer of the queue.
\<close>

section \<open>What a session may ask of the stack\<close>

text \<open>
  A session at address \<open>p\<close> under key \<open>key\<close> that entered a call with the given flag: it asks
  for its own erasure only, and for one place in the queue exactly when its flag went up.
\<close>

definition honest :: "nat \<Rightarrow> session_key \<Rightarrow> bool \<Rightarrow> nat \<times> bool \<times> post list \<Rightarrow> bool" where
  "honest p key flag0 v =
     (case v of (ptr, flag, ps) \<Rightarrow>
        ptr = p \<and> set ps \<subseteq> {Post_ready p, Post_erase key} \<and> (flag0 \<longrightarrow> flag)
        \<and> count_list ps (Post_ready p) = (if flag \<and> \<not> flag0 then 1 else 0))"

lemma honest_env: "env_keeps (framed (honest p key flag0)) (session_env key e)"
proof -
  have post: "cb_keeps (framed (honest p key flag0)) (\<lambda>w. Inr (w\<lparr>posts := posts w @ [Post_erase key]\<rparr>))"
    by (auto simp: cb_keeps_def framed_def stack_view_def honest_def)
  have trigger: "cb_keeps (framed (honest p key flag0)) (trigger_event e')"
    if "notify_stack_cb e' = Some (\<lambda>w. Inr (w\<lparr>posts := posts w @ [Post_ready (self_ptr w)]\<rparr>))" for e'
    using that by (auto simp: cb_keeps_def framed_def stack_view_def honest_def trigger_event_def)
  have dup: "cb_keeps (framed (honest p key flag0)) (default_three_dup_ack e' a)" for e' a
    by (auto simp: cb_keeps_def framed_def default_three_dup_ack_def Let_def base_inv_stop base_inv_payload
        split: option.splits)
  show ?thesis
    using post trigger dup
    by (auto simp: env_keeps_def session_env_def set_on_data_def set_on_closed_def
        set_on_recv_three_dup_ack_def Let_def)
qed

section \<open>The map and the queue\<close>

definition session_ok :: "tcp_session \<Rightarrow> bool" where
  "session_ok s \<longleftrightarrow> base_ok (send_buffer s) (recv_buffer s) (ooo_map s) (tmgr s) (recv_window_size (rwnd s))"

lemma session_ok_enter [simp]: "base_inv (enter_world s d n) = session_ok s"
  by (simp add: base_inv_def session_ok_def enter_world_def tcp_session.extend_def)

lemma session_ok_truncate [simp]: "session_ok (tcp_session.truncate w) = base_inv w"
  by (simp add: base_inv_def session_ok_def tcp_session.truncate_def)

lemma truncate_fields [simp]:
  "self_ptr (tcp_session.truncate w) = self_ptr w"
  "is_in_ready_queue (tcp_session.truncate w) = is_in_ready_queue w"
  by (simp_all add: tcp_session.truncate_def)

lemma enter_fields [simp]:
  "stack_view (enter_world s d n) = (self_ptr s, is_in_ready_queue s, [])"
  "udp (enter_world s d n) = d" "iss_calls (enter_world s d n) = n" "state (enter_world s d n) = state s"
  by (simp_all add: stack_view_def enter_world_def tcp_session.extend_def)

definition sessions_ok :: "(session_key, tcp_session) omap \<Rightarrow> nat \<Rightarrow> bool" where
  "sessions_ok ss n \<longleftrightarrow> map_sorted ss
     \<and> (\<forall>key s. map_find key ss = Some s \<longrightarrow> session_ok s \<and> self_ptr s < n)
     \<and> (\<forall>key key' s s'. map_find key ss = Some s \<longrightarrow> map_find key' ss = Some s' \<longrightarrow>
          self_ptr s = self_ptr s' \<longrightarrow> key = key')"

text \<open>With the batch that is being processed, and with a session that is exempt, if any.\<close>

definition queue_ok :: "(session_key, tcp_session) omap \<Rightarrow> nat set \<Rightarrow> nat list \<Rightarrow> bool" where
  "queue_ok ss exempt q \<longleftrightarrow> distinct q
     \<and> (\<forall>key s. map_find key ss = Some s \<longrightarrow> self_ptr s \<notin> exempt \<longrightarrow>
          (is_in_ready_queue s \<longleftrightarrow> self_ptr s \<in> set q))"

definition stack_ok :: "nat set \<Rightarrow> nat list \<Rightarrow> stack \<Rightarrow> bool" where
  "stack_ok exempt batch st \<longleftrightarrow> sessions_ok (tcp_sessions st) (next_object st)
     \<and> queue_ok (tcp_sessions st) exempt (batch @ ready_queue st)
     \<and> (\<forall>p\<in>set (batch @ ready_queue st). p < next_object st)
     \<and> (ready_queue st \<noteq> [] \<longrightarrow> idle_active st)"

definition stack_inv :: "stack \<Rightarrow> bool" where
  "stack_inv st \<longleftrightarrow> stack_ok {} [] st"

lemma stack_inv_eq: "stack_inv = stack_ok {} []"
  by (rule ext) (simp add: stack_inv_def)

lemma at_pointer_find:
  assumes "map_sorted (tcp_sessions st)" and "at_pointer p st = Some (key, s)"
  shows "map_find key (tcp_sessions st) = Some s \<and> self_ptr s = p"
proof -
  have "(key, s) \<in> set (tcp_sessions st)" and "self_ptr s = p"
    using assms(2) by (auto simp: at_pointer_def find_Some_iff nth_mem dest!: sym [of "(key, s)"])
      (metis nth_mem)
  then show ?thesis
    using assms(1) by (simp add: map_find_mem)
qed

lemma find_at_pointer:
  assumes ok: "sessions_ok (tcp_sessions st) n" and f: "map_find key (tcp_sessions st) = Some s"
  shows "at_pointer (self_ptr s) st = Some (key, s)"
proof (cases "at_pointer (self_ptr s) st")
  case None
  have mem: "(key, s) \<in> set (tcp_sessions st)"
    using ok f by (simp add: sessions_ok_def map_find_mem)
  have "find (\<lambda>(key, s'). self_ptr s' = self_ptr s) (tcp_sessions st) = None"
    using None by (simp add: at_pointer_def)
  then have "\<not> (case (key, s) of (key, s') \<Rightarrow> self_ptr s' = self_ptr s)"
    unfolding find_None_iff using mem by blast
  then show ?thesis
    by simp
next
  case (Some e)
  obtain key' s' where e: "e = (key', s')"
    by (cases e)
  have "map_find key' (tcp_sessions st) = Some s' \<and> self_ptr s' = self_ptr s"
    using at_pointer_find [of st "self_ptr s" key' s'] ok Some e by (simp add: sessions_ok_def)
  then have "key' = key \<and> s' = s"
    using ok f unfolding sessions_ok_def by (metis option.inject)
  then show ?thesis
    using Some e by simp
qed

section \<open>Serving a session's requests\<close>

lemma serve_fold:
  assumes "set ps \<subseteq> {Post_ready p, Post_erase key}" and "map_sorted (tcp_sessions st)"
  shows "ready_queue (fold serve_post ps st) = ready_queue st @ replicate (count_list ps (Post_ready p)) p
    \<and> idle_active (fold serve_post ps st) = (idle_active st \<or> count_list ps (Post_ready p) \<noteq> 0)
    \<and> next_object (fold serve_post ps st) = next_object st
    \<and> driver (fold serve_post ps st) = driver st \<and> iss_drawn (fold serve_post ps st) = iss_drawn st
    \<and> map_sorted (tcp_sessions (fold serve_post ps st))
    \<and> map_find x (tcp_sessions (fold serve_post ps st))
        = (if x = key \<and> Post_erase key \<in> set ps then None else map_find x (tcp_sessions st))"
  using assms
proof (induction ps arbitrary: st)
  case (Cons c ps)
  then have c: "c = Post_ready p \<or> c = Post_erase key" and ps: "set ps \<subseteq> {Post_ready p, Post_erase key}"
    and "map_sorted (tcp_sessions (serve_post c st))"
    by (auto simp: enqueue_ready_session_def map_erase_sorted)
  from Cons.IH [OF ps this(3)] show ?case
    using c Cons.prems(2)
    by (auto simp: enqueue_ready_session_def map_find_erase map_erase_sorted replicate_append_same)
qed simp

text \<open>
  One member of the map replaced, and perhaps removed: the new one keeps its address, and the
  ready queue agrees with its flag.
\<close>

lemma sessions_ok_replaced:
  assumes ss: "sessions_ok ss n" and s: "map_find key ss = Some s" and u: "session_ok u" "self_ptr u = self_ptr s"
    and srt: "map_sorted ss'"
    and found: "\<And>x t. map_find x ss' = Some t \<Longrightarrow> x = key \<and> t = u \<or> x \<noteq> key \<and> map_find x ss = Some t"
  shows "sessions_ok ss' n"
proof -
  have all: "session_ok t \<and> self_ptr t < n" if "map_find k ss = Some t" for k t
    using ss that unfolding sessions_ok_def by blast
  have uniq: "k = k'" if "map_find k ss = Some t" "map_find k' ss = Some t'" "self_ptr t = self_ptr t'" for k k' t t'
    using ss that unfolding sessions_ok_def by blast
  show ?thesis
    unfolding sessions_ok_def
  proof (intro conjI allI impI)
    fix x t
    assume "map_find x ss' = Some t"
    from found [OF this] show "session_ok t" "self_ptr t < n"
      using all [of x t] all [OF s] u by auto
  next
    fix x x' t t'
    assume "map_find x ss' = Some t" "map_find x' ss' = Some t'" "self_ptr t = self_ptr t'"
    then show "x = x'"
      using found [of x t] found [of x' t'] uniq [of x t x' t'] uniq [of x t key s] uniq [of x' t' key s] s u(2) by auto
  qed fact
qed

lemma queue_ok_replaced:
  assumes ss: "sessions_ok ss n" "queue_ok ss exempt q" and s: "map_find key ss = Some s" and ex: "exempt \<subseteq> {self_ptr s}"
    and u: "self_ptr u = self_ptr s" "is_in_ready_queue u \<longleftrightarrow> self_ptr s \<in> set q'"
    and q': "distinct q'" "set q' - {self_ptr s} = set q - {self_ptr s}"
    and found: "\<And>x t. map_find x ss' = Some t \<Longrightarrow> x = key \<and> t = u \<or> x \<noteq> key \<and> map_find x ss = Some t"
  shows "queue_ok ss' {} q'"
  unfolding queue_ok_def
proof (intro conjI allI impI)
  fix x t
  assume "map_find x ss' = Some t"
  from found [OF this] show "is_in_ready_queue t \<longleftrightarrow> self_ptr t \<in> set q'"
  proof
    assume x: "x \<noteq> key \<and> map_find x ss = Some t"
    then have "self_ptr t \<noteq> self_ptr s"
      using ss(1) s unfolding sessions_ok_def by blast
    moreover from this have "is_in_ready_queue t \<longleftrightarrow> self_ptr t \<in> set q"
      using ss(2) x ex unfolding queue_ok_def by blast
    ultimately show ?thesis
      using q'(2) by blast
  qed (use u in simp)
qed fact

text \<open>
  One call on a live session. Before the call the session may be exempt from the agreement;
  \<open>flag0\<close> is its flag, counted against the queue the call works with.
\<close>

lemma call_session_ok:
  assumes st: "stack_ok exempt batch st" and at: "at_pointer p st = Some (key, s)" and ex: "exempt \<subseteq> {p}"
    and flag0: "flag0 \<longleftrightarrow> p \<in> set (batch @ ready_queue st)"
    and f: "returns (framed (honest p key flag0)) (f (session_env key (base_env se)) (enter_world s (driver st) (iss_drawn st)))"
  shows "returns (stack_ok {} batch) (call_session se p f st)"
proof -
  obtain w where w: "f (session_env key (base_env se)) (enter_world s (driver st) (iss_drawn st)) = Inr w"
    and fr: "framed (honest p key flag0) w"
    using f by (auto simp: returns_def)
  have base: "session_ok (tcp_session.truncate w)" and ptr: "self_ptr w = p" and ps: "set (posts w) \<subseteq> {Post_ready p, Post_erase key}"
    and up: "flag0 \<longrightarrow> is_in_ready_queue w"
    and cnt: "count_list (posts w) (Post_ready p) = (if is_in_ready_queue w \<and> \<not> flag0 then 1 else 0)"
    using fr by (auto simp: framed_def stack_view_def honest_def)
  have ok: "sessions_ok (tcp_sessions st) (next_object st)" "queue_ok (tcp_sessions st) exempt (batch @ ready_queue st)"
    and bnd: "\<forall>q\<in>set (batch @ ready_queue st). q < next_object st" and idl: "ready_queue st \<noteq> [] \<longrightarrow> idle_active st"
    using st by (simp_all add: stack_ok_def)
  then have srt: "map_sorted (tcp_sessions st)" and dist: "distinct (batch @ ready_queue st)"
    unfolding sessions_ok_def queue_ok_def by blast+
  have s: "map_find key (tcp_sessions st) = Some s" "self_ptr s = p"
    using at_pointer_find [OF srt at] by simp_all
  define v where "v = store_session key w st"
  have vs: "map_sorted (tcp_sessions v)" "ready_queue v = ready_queue st" "idle_active v = idle_active st" "next_object v = next_object st"
    "map_find x (tcp_sessions v) = (if x = key then Some (tcp_session.truncate w) else map_find x (tcp_sessions st))" for x
    using srt by (simp_all add: v_def store_session_def map_assign_sorted map_find_assign)
  define z where "z = fold serve_post (posts w) v"
  note z = serve_fold [OF ps vs(1), folded z_def]
  have found: "x = key \<and> t = tcp_session.truncate w \<or> x \<noteq> key \<and> map_find x (tcp_sessions st) = Some t"
    if "map_find x (tcp_sessions z) = Some t" for x t
    using that z vs(5) by (auto split: if_splits)
  have q: "distinct (batch @ ready_queue z)" and mem: "set (batch @ ready_queue z)
      = set (batch @ ready_queue st) \<union> (if is_in_ready_queue w \<and> \<not> flag0 then {p} else {})"
    using z vs(2) dist cnt flag0 by auto
  have same: "self_ptr (tcp_session.truncate w) = self_ptr s" and "next_object z = next_object st" "map_sorted (tcp_sessions z)"
    using z vs(4) ptr s(2) by simp_all
  then have "sessions_ok (tcp_sessions z) (next_object z)"
    using sessions_ok_replaced [OF ok(1) s(1) base same _ found] by simp
  moreover have "queue_ok (tcp_sessions z) {} (batch @ ready_queue z)"
    using ex s(2) ptr up flag0 mem by (intro queue_ok_replaced [OF ok s(1) _ same _ q _ found]) auto
  moreover have "p < next_object st"
    using ok(1) s unfolding sessions_ok_def by blast
  then have "\<forall>q\<in>set (batch @ ready_queue z). q < next_object z"
    using bnd z vs(4) unfolding mem by auto
  moreover have "ready_queue z \<noteq> [] \<longrightarrow> idle_active z"
    using idl z vs(2,3) cnt by (auto split: if_splits)
  ultimately have "stack_ok {} batch z"
    unfolding stack_ok_def by blast
  then show ?thesis
    by (simp add: call_session_def at w z_def v_def)
qed

section \<open>Every event of the stack\<close>

text \<open>The event keeps the property, or it followed a dangling pointer.\<close>

abbreviation safe :: "(stack \<Rightarrow> bool) \<Rightarrow> stack result \<Rightarrow> bool" where
  "safe \<equiv> outcome (\<lambda>err. err = Use_after_free)"

lemma returns_safe: "returns P r \<Longrightarrow> safe P r"
  by (auto simp: returns_def)

text \<open>The application logic uses the session it is given through the session's operations.\<close>

definition app_ok :: "stack_env \<Rightarrow> bool" where
  "app_ok se \<longleftrightarrow> (\<forall>app e P. app_logic_cb se = Some app \<longrightarrow> env_keeps (framed P) e \<longrightarrow> cb_keeps (framed P) (app e))"

lemma enter_honest:
  assumes "stack_ok exempt batch st" and "at_pointer p st = Some (key, s)"
  shows "framed (honest p key (is_in_ready_queue s)) (enter_world s d n)"
    and "framed (honest p key False) ((enter_world s d n)\<lparr>is_in_ready_queue := False\<rparr>)"
proof -
  have "sessions_ok (tcp_sessions st) (next_object st)"
    using assms(1) by (simp add: stack_ok_def)
  then have "session_ok s" "self_ptr s = p"
    using at_pointer_find [OF _ assms(2)] unfolding sessions_ok_def by blast+
  then show "framed (honest p key (is_in_ready_queue s)) (enter_world s d n)"
    by (simp add: framed_def honest_def)
  have "base_inv ((enter_world s d n)\<lparr>is_in_ready_queue := False\<rparr>)"
    using \<open>session_ok s\<close> by simp
  moreover have "stack_view ((enter_world s d n)\<lparr>is_in_ready_queue := False\<rparr>) = (p, False, [])"
    using \<open>self_ptr s = p\<close> by (simp add: stack_view_def enter_world_def tcp_session.extend_def)
  ultimately show "framed (honest p key False) ((enter_world s d n)\<lparr>is_in_ready_queue := False\<rparr>)"
    by (simp add: framed_def honest_def)
qed

lemma call_keeps:
  assumes st: "stack_ok {} batch st"
    and f: "\<And>P e w. env_keeps (framed P) e \<Longrightarrow> framed P w \<Longrightarrow> returns (framed P) (f e w)"
  shows "safe (stack_ok {} batch) (call_session se p f st)"
proof (cases "at_pointer p st")
  case None
  then show ?thesis
    by (simp add: call_session_def)
next
  case (Some ks)
  obtain key s where ks: "ks = (key, s)"
    by (cases ks)
  have at: "at_pointer p st = Some (key, s)"
    using Some ks by simp
  have "map_sorted (tcp_sessions st)"
    using st by (simp add: stack_ok_def sessions_ok_def)
  from at_pointer_find [OF this at]
  have flag: "is_in_ready_queue s \<longleftrightarrow> p \<in> set (batch @ ready_queue st)"
    using st unfolding stack_ok_def queue_ok_def by blast
  show ?thesis
    by (rule returns_safe [OF call_session_ok [OF st at _ flag]])
      (auto intro: f honest_env enter_honest(1) [OF st at])
qed

lemma dispatch_keeps:
  assumes app: "app_ok se" and st: "stack_ok {} (p # rest) st"
  shows "safe (stack_ok {} rest) (call_session se p (run_ready se) st)"
proof (cases "at_pointer p st")
  case None
  then show ?thesis
    by (simp add: call_session_def)
next
  case (Some ks)
  obtain key s where ks: "ks = (key, s)"
    by (cases ks)
  have at: "at_pointer p st = Some (key, s)"
    using Some ks by simp
  have st': "stack_ok {p} rest st"
    using st by (auto simp: stack_ok_def queue_ok_def)
  have flag: "False \<longleftrightarrow> p \<in> set (rest @ ready_queue st)"
    using st by (simp add: stack_ok_def queue_ok_def)
  have "returns (framed (honest p key False)) (run_ready se (session_env key (base_env se))
      (enter_world s (driver st) (iss_drawn st)))"
    using app enter_honest(2) [OF st at, of "driver st" "iss_drawn st"] honest_env [of p key False "base_env se"]
    unfolding run_ready_def Let_def app_ok_def cb_keeps_def returns_def
    by (cases "app_logic_cb se") auto
  from call_session_ok [where f = "run_ready se", OF st' at _ flag this] show ?thesis
    by (auto intro: returns_safe)
qed

lemma process_batch_keeps:
  "app_ok se \<Longrightarrow> stack_ok {} ps st \<Longrightarrow> safe (stack_ok {} []) (process_batch se ps st)"
  by (induction ps arbitrary: st) (auto intro: outcome_bind [OF dispatch_keeps])

lemma idle_keeps:
  assumes "app_ok se" and "stack_inv st"
  shows "safe stack_inv (on_idle_dispatch se st)"
proof -
  have "stack_ok {} (ready_queue st) (st\<lparr>idle_active := False, ready_queue := []\<rparr>)"
    using assms(2) by (simp add: stack_inv_def stack_ok_def)
  from process_batch_keeps [OF assms(1) this] show ?thesis
    using assms(2) by (simp add: on_idle_dispatch_def Let_def stack_inv_eq) (auto simp: stack_ok_def)
qed

lemma create_keeps:
  assumes st: "stack_ok {} batch st"
  shows "stack_ok {} batch (snd (create_session se key st))"
    and "\<exists>s. map_find key (tcp_sessions (snd (create_session se key st))) = Some s
           \<and> fst (create_session se key st) = Some (self_ptr s)"
proof -
  let ?n = "next_object st"
  let ?s = "set_remote_addr (fst key) (snd key) (new_session ?n (ctor_iss se ?n) (ctor_irs se ?n)
      (fst (ctor_ports se ?n)) (snd (ctor_ports se ?n)))"
  let ?st = "snd (create_session se key st)"
  have new: "session_ok ?s" "self_ptr ?s = ?n" "\<not> is_in_ready_queue ?s"
    using base_inv_new [of ?n "ctor_iss se ?n" "ctor_irs se ?n" "fst (ctor_ports se ?n)" "snd (ctor_ports se ?n)" "driver st" 0]
    by (simp_all add: session_ok_def set_remote_addr_def) (simp_all add: new_session_def)
  have eq: "tcp_sessions ?st = (if map_find key (tcp_sessions st) = None
      then map_assign key ?s (tcp_sessions st) else tcp_sessions st)"
    "ready_queue ?st = ready_queue st" "idle_active ?st = idle_active st" "next_object ?st = Suc ?n"
    "fst (create_session se key st) = map_option self_ptr (map_find key (tcp_sessions ?st))"
    by (auto simp: create_session_def Let_def map_try_emplace_def split: option.split)
  have ok: "sessions_ok (tcp_sessions st) ?n" and q: "queue_ok (tcp_sessions st) {} (batch @ ready_queue st)"
    and bnd: "\<forall>p\<in>set (batch @ ready_queue st). p < ?n"
    using st by (simp_all add: stack_ok_def)
  have "sessions_ok (tcp_sessions ?st) (Suc ?n) \<and> queue_ok (tcp_sessions ?st) {} (batch @ ready_queue st)"
  proof (cases "map_find key (tcp_sessions st) = None")
    case True
    have lt: "self_ptr t < ?n" if "map_find k (tcp_sessions st) = Some t" for k t
      using ok that unfolding sessions_ok_def by blast
    have "sessions_ok (map_assign key ?s (tcp_sessions st)) (Suc ?n)"
      using ok new lt unfolding sessions_ok_def
      by (auto simp: map_assign_sorted map_find_assign less_Suc_eq simp del: split_paired_All) (metis less_irrefl)+
    moreover have "queue_ok (map_assign key ?s (tcp_sessions st)) {} (batch @ ready_queue st)"
      using q new bnd by (auto simp: queue_ok_def map_find_assign simp del: split_paired_All)
    ultimately show ?thesis
      using True eq(1) by simp
  next
    case False
    then show ?thesis
      using ok q eq(1) by (auto simp: sessions_ok_def less_Suc_eq simp del: split_paired_All)
  qed
  moreover have "\<forall>p\<in>set (batch @ ready_queue st). p < Suc ?n"
    using bnd less_SucI by blast
  moreover have "ready_queue st \<noteq> [] \<longrightarrow> idle_active st"
    using st by (simp add: stack_ok_def)
  ultimately show "stack_ok {} batch ?st"
    unfolding stack_ok_def eq(2-4) by blast
  show "\<exists>s. map_find key (tcp_sessions ?st) = Some s \<and> fst (create_session se key st) = Some (self_ptr s)"
    unfolding eq(5) by (cases "map_find key (tcp_sessions st)") (simp_all add: eq(1) map_find_assign)
qed

lemma stack_receive_new:
  assumes "map_find key (tcp_sessions st) = None" and "flags (header p) = FLAG_SYN"
    and "fst (create_session se key st) = Some q"
  shows "stack_receive se p key st = call_session se q (\<lambda>e w. input e p
    (listen (w\<lparr>remote_ip := fst key, remote_port := snd key\<rparr>))) (snd (create_session se key st))"
  using assms by (simp add: stack_receive_def prod.case_eq_if)

lemma receive_keeps:
  assumes st: "stack_inv st"
  shows "safe stack_inv (stack_receive se p key st)"
proof (cases "map_find key (tcp_sessions st)")
  case (Some s)
  then show ?thesis
    using call_keeps [of "[]" st "\<lambda>e. input e p" se "self_ptr s"] st framed_input
    by (simp add: stack_receive_def stack_inv_eq)
next
  case None
  show ?thesis
  proof (cases "flags (header p) = FLAG_SYN")
    case True
    obtain q st1 where c: "create_session se key st = (Some q, st1)" and "stack_ok {} [] st1"
      using create_keeps [where se = se and key = key and st = st and batch = "[]"] st unfolding stack_inv_eq by (metis prod.collapse)
    have listening: "framed P (listen (w\<lparr>remote_ip := fst key, remote_port := snd key\<rparr>))"
      if "framed P w" for P w
      using that base_inv_listen [of "w\<lparr>remote_ip := fst key, remote_port := snd key\<rparr>"]
      by (simp add: framed_def base_inv_def)
    have "safe (stack_ok {} []) (call_session se q (\<lambda>e w. input e p
        (listen (w\<lparr>remote_ip := fst key, remote_port := snd key\<rparr>))) st1)"
      by (rule call_keeps [OF \<open>stack_ok {} [] st1\<close>]) (intro framed_input listening)
    then show ?thesis
      using None True c by (simp add: stack_receive_def stack_inv_eq)
  qed (use None st in \<open>simp add: stack_receive_def stack_inv_def stack_ok_def\<close>)
qed

lemma datagram_keeps:
  assumes st: "stack_inv st"
  shows "safe stack_inv (stack_datagram se buf addr st)"
proof -
  have "cb \<noteq> No_callback" if "on_uv_recv buf addr (driver st) = Some (cb, p, a)" for cb p a
    using that by (auto simp: on_uv_recv_def split: option.splits if_splits)
  moreover have "safe stack_inv (call_session se p (\<lambda>e. input e q) st)" for p q
    using call_keeps [of "[]" st "\<lambda>e. input e q" se p] st framed_input by (simp add: stack_inv_eq)
  ultimately show ?thesis
    using st receive_keeps [OF st] by (auto simp: stack_datagram_def split: option.split receiver.split)
qed

lemma stack_step_keeps:
  assumes app: "app_ok se" and st: "stack_inv st"
  shows "safe stack_inv (stack_step se ev st)"
proof (cases ev)
  case (Se_timer p h)
  show ?thesis
    unfolding Se_timer stack_step.simps stack_inv_eq
    by (rule call_keeps [OF st [unfolded stack_inv_eq]]) (rule framed_event)
next
  case (Se_call p e)
  show ?thesis
    unfolding Se_call stack_step.simps stack_inv_eq
    by (rule call_keeps [OF st [unfolded stack_inv_eq]]) (rule framed_event)
next
  case (Se_create key)
  then show ?thesis
    using create_keeps(1) [where se = se and key = key and st = st and batch = "[]"] st by (simp add: stack_inv_eq)
next
  case Se_listen
  then show ?thesis
    using st by (simp add: stack_inv_def stack_ok_def stack_listen_def)
qed (use st app idle_keeps datagram_keeps in simp_all)

section \<open>What a call does to the map\<close>

lemma call_session_map:
  assumes srt: "map_sorted (tcp_sessions st)" and at: "at_pointer p st = Some (key, s)"
    and w: "f (session_env key (base_env se)) (enter_world s (driver st) (iss_drawn st)) = Inr w"
    and fr: "framed (honest p key flag0) w"
  shows "\<exists>st'. call_session se p f st = Inr st' \<and> driver st' = udp w \<and> iss_drawn st' = iss_calls w
    \<and> ready_queue st' = ready_queue st @ replicate (count_list (posts w) (Post_ready p)) p
    \<and> (\<forall>x. map_find x (tcp_sessions st') =
          (if x = key then if Post_erase key \<in> set (posts w) then None else Some (tcp_session.truncate w)
           else map_find x (tcp_sessions st)))"
proof -
  define v where "v = store_session key w st"
  have ps: "set (posts w) \<subseteq> {Post_ready p, Post_erase key}"
    using fr by (auto simp: framed_def stack_view_def honest_def)
  have "map_sorted (tcp_sessions v)" "driver v = udp w" "iss_drawn v = iss_calls w" "ready_queue v = ready_queue st"
    "map_find x (tcp_sessions v) = (if x = key then Some (tcp_session.truncate w) else map_find x (tcp_sessions st))" for x
    using srt by (simp_all add: v_def store_session_def map_assign_sorted map_find_assign)
  then show ?thesis
    using serve_fold [OF ps, of v]
    by (intro exI [of _ "fold serve_post (posts w) v"]) (simp add: call_session_def at w v_def [symmetric])
qed

text \<open>A call on a live session: what its member function leaves is what the map then holds.\<close>

lemma call_reaches:
  assumes st: "stack_inv st" and at: "at_pointer p st = Some (key, s)"
    and f: "\<And>P e w. env_keeps (framed P) e \<Longrightarrow> framed P w \<Longrightarrow> returns (framed P) (f e w)"
  shows "\<exists>w st'. f (session_env key (base_env se)) (enter_world s (driver st) (iss_drawn st)) = Inr w
    \<and> call_session se p f st = Inr st' \<and> driver st' = udp w
    \<and> (\<forall>x. map_find x (tcp_sessions st') = (if x = key then if Post_erase key \<in> set (posts w) then None
          else Some (tcp_session.truncate w) else map_find x (tcp_sessions st)))"
proof -
  have ok: "stack_ok {} [] st" and srt: "map_sorted (tcp_sessions st)"
    using st by (simp_all add: stack_inv_def stack_ok_def sessions_ok_def)
  obtain w where w: "f (session_env key (base_env se)) (enter_world s (driver st) (iss_drawn st)) = Inr w"
    "framed (honest p key (is_in_ready_queue s)) w"
    using f [OF honest_env enter_honest(1) [OF ok at]] unfolding returns_def by blast
  from call_session_map [of st p key s f se, OF srt at this] show ?thesis
    using w(1) by blast
qed

lemma call_isolated:
  assumes st: "stack_inv st" and at: "at_pointer p st = Some (key, s)"
    and f: "\<And>P e w. env_keeps (framed P) e \<Longrightarrow> framed P w \<Longrightarrow> returns (framed P) (f e w)"
  shows "returns (\<lambda>st'. \<forall>x. x \<noteq> key \<longrightarrow> map_find x (tcp_sessions st') = map_find x (tcp_sessions st)) (call_session se p f st)"
  using call_reaches [where f = f and se = se, OF st at f] by (auto simp: returns_def)

section \<open>Runs of a stack\<close>

fun stack_run :: "stack_env \<Rightarrow> stack_event list \<Rightarrow> stack \<Rightarrow> stack result" where
  "stack_run se [] st = Inr st"
| "stack_run se (ev # evs) st = bind_res (stack_step se ev st) (stack_run se evs)"

interpretation stack: machine "stack_step se" "stack_run se" id for se
  by unfold_locales auto

lemma stack_run_keeps:
  assumes "app_ok se" and "stack_inv st"
  shows "safe stack_inv (stack_run se evs st)"
  using stack.run_outcome [where ok = "\<lambda>_. True" and good = stack_inv and E = "\<lambda>err. err = Use_after_free"]
    stack_step_keeps [OF assms(1)] assms(2)
  by (simp add: list_all_iff)

lemma new_stack_inv: "stack_inv (new_stack ip port)"
  by (simp add: stack_inv_def stack_ok_def sessions_ok_def queue_ok_def new_stack_def)

section \<open>Properties\<close>

text \<open>An application that drains what the session has received; a stack with one session, and one with it in the queue.\<close>

definition example_stack_env :: stack_env where
  "example_stack_env = \<lparr>base_env = example_env, ctor_iss = \<lambda>_. 1, ctor_irs = \<lambda>_. 2, ctor_ports = \<lambda>_. (3, 4),
     app_logic_cb = Some (\<lambda>e w. bind_res (session_step e Ev_read_all w) (\<lambda>(_, w). Inr w))\<rparr>"

definition example_stack :: "bool \<Rightarrow> stack" where
  "example_stack in_line =
     \<lparr>tcp_sessions = [((''10.0.0.2'', 80), (new_session 0 1 2 3 4)\<lparr>is_in_ready_queue := in_line\<rparr>)],
      ready_queue = (if in_line then [0] else []), idle_active = in_line, driver = new_driver,
      next_object = 1, iss_drawn = 0\<rparr>"

lemma example_app_ok: "app_ok example_stack_env"
  using framed_event [where ev = Ev_read_all]
  by (auto simp: app_ok_def cb_keeps_def example_stack_env_def returns_def simp del: session_step.simps)

lemma example_stack_inv: "stack_inv (example_stack in_line)"
proof -
  have "session_ok ((new_session 0 1 2 3 4)\<lparr>is_in_ready_queue := in_line\<rparr>)"
    using base_inv_new [of 0 1 2 3 4 new_driver 0] by (simp add: session_ok_def)
  then show ?thesis
    unfolding stack_inv_def stack_ok_def sessions_ok_def queue_ok_def example_stack_def
    by (auto simp: map_sorted_Cons map_find_Cons new_session_def simp del: split_paired_All split: if_splits)
qed

text \<open>
  C12: The stack's invariant holds throughout every run: the map is ordered, every session in
  it satisfies the session invariant, no object is under two keys, a live session is in the
  ready queue at most once and exactly when its flag says so, and a non-empty queue has the
  idle handle running. The only way a run can fail is by following a dangling pointer: no
  other exception occurs and no call fails to return.
\<close>

theorem stack_stays_consistent:
  assumes "app_ok se"
  shows "(\<exists>st. stack_run se evs (new_stack ip port) = Inr st \<and> stack_inv st)
    \<or> stack_run se evs (new_stack ip port) = Inl Use_after_free"
proof (cases "stack_run se evs (new_stack ip port)")
  case (Inl err)
  then show ?thesis
    using stack_run_keeps [OF assms new_stack_inv, of evs ip port] by simp
next
  case (Inr st)
  then show ?thesis
    using stack_run_keeps [OF assms new_stack_inv, of evs ip port] by simp
qed

theorem stack_stays_consistent_witness:
  "(\<exists>st. stack_run example_stack_env [Se_create (''10.0.0.2'', 80), Se_call 0 Ev_connect, Se_idle] (new_stack ''0.0.0.0'' 1) = Inr st
      \<and> stack_inv st)
    \<or> stack_run example_stack_env [Se_create (''10.0.0.2'', 80), Se_call 0 Ev_connect, Se_idle] (new_stack ''0.0.0.0'' 1)
      = Inl Use_after_free"
  using stack_stays_consistent [OF example_app_ok] by blast

text \<open>The lambda of \<open>listen\<close> touches nothing but what is under the sender's address.\<close>

lemma receive_isolated:
  assumes "stack_inv st" and "key' \<noteq> key"
  shows "\<exists>st'. stack_receive se p key st = Inr st'
    \<and> map_find key' (tcp_sessions st') = map_find key' (tcp_sessions st)"
proof (cases "map_find key (tcp_sessions st)")
  case (Some s)
  have "sessions_ok (tcp_sessions st) (next_object st)"
    using assms(1) by (simp add: stack_inv_def stack_ok_def)
  then have "returns (\<lambda>st'. \<forall>x. x \<noteq> key \<longrightarrow> map_find x (tcp_sessions st') = map_find x (tcp_sessions st))
      (call_session se (self_ptr s) (\<lambda>e. input e p) st)"
    by (intro call_isolated [OF assms(1) find_at_pointer [OF _ Some]]) (auto intro: framed_input)
  then obtain st' where "call_session se (self_ptr s) (\<lambda>e. input e p) st = Inr st'"
    and "map_find key' (tcp_sessions st') = map_find key' (tcp_sessions st)"
    using assms(2) unfolding returns_def by blast
  then show ?thesis
    using Some by (simp add: stack_receive_def)
next
  case None
  show ?thesis
  proof (cases "flags (header p) = FLAG_SYN")
    case True
    let ?st = "snd (create_session se key st)"
    obtain s where s: "map_find key (tcp_sessions ?st) = Some s" "fst (create_session se key st) = Some (self_ptr s)"
      and ok: "stack_ok {} [] ?st"
      using create_keeps [where se = se and key = key and st = st and batch = "[]"] assms(1)
      unfolding stack_inv_eq by blast
    have same: "map_find key' (tcp_sessions ?st) = map_find key' (tcp_sessions st)"
      using assms(2) by (simp add: create_session_def Let_def map_try_emplace_def map_find_assign split: option.split)
    have listening: "framed P (listen (w\<lparr>remote_ip := fst key, remote_port := snd key\<rparr>))"
      if "framed P w" for P w
      using that base_inv_listen [of "w\<lparr>remote_ip := fst key, remote_port := snd key\<rparr>"]
      by (simp add: framed_def base_inv_def)
    have "sessions_ok (tcp_sessions ?st) (next_object ?st)"
      using ok by (simp add: stack_ok_def)
    note at = find_at_pointer [OF this s(1)]
    have "returns (\<lambda>st'. \<forall>x. x \<noteq> key \<longrightarrow> map_find x (tcp_sessions st') = map_find x (tcp_sessions ?st))
        (call_session se (self_ptr s) (\<lambda>e w. input e p (listen (w\<lparr>remote_ip := fst key, remote_port := snd key\<rparr>))) ?st)"
      by (rule call_isolated [OF _ at]) (use ok in \<open>auto simp: stack_inv_eq intro!: framed_input listening\<close>)
    then obtain st' where "call_session se (self_ptr s)
        (\<lambda>e w. input e p (listen (w\<lparr>remote_ip := fst key, remote_port := snd key\<rparr>))) ?st = Inr st'"
      and "map_find key' (tcp_sessions st') = map_find key' (tcp_sessions ?st)"
      using assms(2) unfolding returns_def by blast
    then show ?thesis
      using stack_receive_new [OF None True s(2)] same by auto
  qed (use None in \<open>simp add: stack_receive_def\<close>)
qed

text \<open>
  The address under which the session is that the driver's callback has in mind when a
  datagram comes from \<open>sender\<close>: the sender's while the stack listens, and the connected session's
  own, whoever sent the datagram, once a session has connected.
\<close>

definition addressee :: "stack \<Rightarrow> sock_addr \<Rightarrow> session_key option" where
  "addressee st sender =
     (case on_receive_callback (driver st) of
        No_callback \<Rightarrow> None
      | Stack_listen \<Rightarrow> Some sender
      | Session_input p \<Rightarrow> map_option fst (at_pointer p st))"



text \<open>The session that a SYN creates: as the constructor left it, listening, and what it sends.\<close>

definition fresh_session :: "stack_env \<Rightarrow> session_key \<Rightarrow> stack \<Rightarrow> tcp_session" where
  "fresh_session se key st = set_remote_addr (fst key) (snd key) (new_session (next_object st) (ctor_iss se (next_object st))
     (ctor_irs se (next_object st)) (fst (ctor_ports se (next_object st))) (snd (ctor_ports se (next_object st))))"

lemma create_fresh:
  fixes se :: stack_env
  assumes st: "stack_inv st" and none: "map_find key (tcp_sessions st) = None"
  defines "u \<equiv> snd (create_session se key st)" and "s \<equiv> fresh_session se key st"
  shows "create_session se key st = (Some (next_object st), u)" and "map_find key (tcp_sessions u) = Some s"
    and "driver u = driver st" and "iss_drawn u = iss_drawn st" and "ready_queue u = ready_queue st"
    and "\<forall>x. x \<noteq> key \<longrightarrow> map_find x (tcp_sessions u) = map_find x (tcp_sessions st)"
    and "map_sorted (tcp_sessions u)" and "session_ok s" and "at_pointer (next_object st) u = Some (key, s)"
proof -
  show "create_session se key st = (Some (next_object st), u)" "driver u = driver st" "iss_drawn u = iss_drawn st"
    "ready_queue u = ready_queue st" "\<forall>x. x \<noteq> key \<longrightarrow> map_find x (tcp_sessions u) = map_find x (tcp_sessions st)"
    and s: "map_find key (tcp_sessions u) = Some s"
    using none by (simp_all add: u_def s_def fresh_session_def create_session_def Let_def map_try_emplace_def map_find_assign
        del: split_paired_All) (simp_all add: set_remote_addr_def new_session_def)
  have "stack_ok {} [] u"
    using create_keeps(1) [where se = se and key = key and st = st and batch = "[]"] st by (simp add: stack_inv_eq u_def)
  then have ok: "sessions_ok (tcp_sessions u) (next_object u)"
    by (simp add: stack_ok_def)
  then show "map_sorted (tcp_sessions u)" "session_ok s"
    using s unfolding sessions_ok_def by blast+
  have "self_ptr s = next_object st"
    by (simp add: s_def fresh_session_def set_remote_addr_def new_session_def)
  with find_at_pointer [OF ok s] show "at_pointer (next_object st) u = Some (key, s)"
    by simp
qed

lemma fresh_listens:
  fixes d :: udp_driver and n :: nat
  assumes "session_ok (fresh_session se key st)"
  defines "w \<equiv> listen ((enter_world (fresh_session se key st) d n)\<lparr>remote_ip := fst key, remote_port := snd key\<rparr>)"
  shows "base_inv w" and "state w = LISTEN" and "qsize (send_buffer w) = 0" and "udp w = d" and "iss_calls w = n"
    and "place w = ((key, on_receive_callback d), next_object st, False, [], True)" and "meters w = (1, 8, 0, ring_new 1024 0)"
proof -
  show "state w = LISTEN" "qsize (send_buffer w) = 0" "udp w = d" "iss_calls w = n" "meters w = (1, 8, 0, ring_new 1024 0)"
    "place w = ((key, on_receive_callback d), next_object st, False, [], True)"
    unfolding w_def by (simp_all add: listen_def enter_world_def tcp_session.extend_def fresh_session_def set_remote_addr_def
        new_session_def transition_to_def ring_new_def meters_def place_def route_def)
  show "base_inv w"
    unfolding w_def using assms(1)
    by (intro base_inv_listen) (simp add: base_inv_def, simp add: session_ok_def enter_world_def tcp_session.extend_def)
qed

lemma syn_creates:
  assumes "stack_inv st" and "map_find key (tcp_sessions st) = None" and "reliable (base_env se) (driver st)"
    and "seg_is p seq a FLAG_SYN []"
  shows "\<exists>st' v q. stack_receive se p key st = Inr st' \<and> map_find key (tcp_sessions st') = Some (tcp_session.truncate v)
    \<and> driver st' = udp v \<and> iss_drawn st' = iss_calls v
    \<and> place v = ((key, on_receive_callback (driver st)), next_object st, False, [], True)
    \<and> meters v = (1, 8, 0, ring_new 1024 0) \<and> ready_queue st' = ready_queue st
    \<and> (\<forall>x. x \<noteq> key \<longrightarrow> map_find x (tcp_sessions st') = map_find x (tcp_sessions st))
    \<and> syn_out (session_env key (base_env se)) SYN_RECEIVED (gen_initial_seq (base_env se) (iss_drawn st)) v
    \<and> recv_next (rwnd v) = seq + 1
    \<and> udp_sends (driver st') = udp_sends (driver st) @ [(raw_data q, key)]
    \<and> seg_is q (gen_initial_seq (base_env se) (iss_drawn st)) (seq + 1) (FLAG_SYN OR FLAG_ACK) []"
proof -
  let ?n = "next_object st" and ?e = "session_env key (base_env se)" and ?y = "gen_initial_seq (base_env se) (iss_drawn st)"
  let ?st = "snd (create_session se key st)"
  let ?f = "\<lambda>e w. input e p (listen (w\<lparr>remote_ip := fst key, remote_port := snd key\<rparr>))"
  note c = create_fresh [OF assms(1,2), of se]
  define w where "w = listen ((enter_world (fresh_session se key st) (driver st) (iss_drawn st))\<lparr>remote_ip := fst key, remote_port := snd key\<rparr>)"
  note w = fresh_listens [OF c(8), of "driver st" "iss_drawn st", folded w_def]
  have e: "gen_initial_seq ?e = gen_initial_seq (base_env se)" "reliable ?e (udp w)"
    using assms(3) w(4) by (simp_all add: session_env_def set_on_data_def set_on_closed_def
        set_on_recv_three_dup_ack_def Let_def reliable_def)
  obtain v where v: "input ?e p w = Inr v" "syn_out ?e SYN_RECEIVED ?y v" "recv_next (rwnd v) = seq + 1"
    "sends w v ?y (seq + 1) (FLAG_SYN OR FLAG_ACK) []" "meters v = meters w"
    using input_listen [OF w(1-3) e(2) assms(4)] unfolding e(1) w(5) by (elim exE conjE)
  have "v = handle_listen ?e p (w\<lparr>peer_usable_window_size := ucast (ntohs (window_size (header p)))\<rparr>)"
    using v(1) input_listen_eq(1) [OF w(2) assms(4), of ?e] by simp
  then have "place v = place w"
    unfolding input_listen_eq(2) [OF w(2) assms(4)] by simp (simp add: place_def route_def)
  note pv = this [unfolded w(6)]
  have view: "(remote_ip v, remote_port v) = key" "posts v = []"
    using pv by (simp_all add: place_def route_def)
  have fr: "framed (honest ?n key False) v"
    using v(2) pv by (simp add: framed_def syn_out_def honest_def stack_view_def place_def)
  have run: "?f ?e (enter_world (fresh_session se key st) (driver ?st) (iss_drawn ?st)) = Inr v"
    using v(1) unfolding c(3,4) w_def by simp
  obtain st' where st': "call_session se ?n ?f ?st = Inr st'" "driver st' = udp v"
    "map_find key (tcp_sessions st') = Some (tcp_session.truncate v)" "iss_drawn st' = iss_calls v" "ready_queue st' = ready_queue ?st"
    "\<forall>x. x \<noteq> key \<longrightarrow> map_find x (tcp_sessions st') = map_find x (tcp_sessions ?st)"
    using call_session_map [where f = ?f, OF c(7,9) run fr] view(2) by (auto simp del: split_paired_All)
  obtain q where q: "udp_sends (udp v) = udp_sends (driver st) @ [(raw_data q, key)]" "seg_is q ?y (seq + 1) (FLAG_SYN OR FLAG_ACK) []"
    using v(4) unfolding sends_def w(4) view(1) by auto
  have "stack_receive se p key st = Inr st'"
    using stack_receive_new [OF assms(2), of p se ?n] assms(4) c(1) st'(1) unfolding seg_is_def by (metis fst_conv)
  then show ?thesis
    using st' c(5,6) q v(2,3,5) w(7) pv unfolding e(1)
    by (intro exI [of _ st'] exI [of _ v] exI [of _ q]) (simp del: split_paired_All)
qed

text \<open>
  A connection request. A SYN from an unknown address, without loss, creates a session
  under that address, in SYN_RECEIVED, expecting the sequence number after the SYN's, and
  answers with SYN+ACK under the initial sequence number just drawn; any other packet from
  an unknown address creates nothing.
\<close>

theorem syn_creates_session:
  assumes "stack_inv st" and "map_find key (tcp_sessions st) = None" and "reliable (base_env se) (driver st)"
    and "seg_is p seq a FLAG_SYN []"
  shows "\<exists>st' s q. stack_receive se p key st = Inr st' \<and> map_find key (tcp_sessions st') = Some s
    \<and> state s = SYN_RECEIVED \<and> remote_ip s = fst key \<and> remote_port s = snd key \<and> recv_next (rwnd s) = seq + 1
    \<and> send_unack (swnd s) = gen_initial_seq (base_env se) (iss_drawn st)
    \<and> udp_sends (driver st') = udp_sends (driver st) @ [(raw_data q, key)]
    \<and> seg_is q (gen_initial_seq (base_env se) (iss_drawn st)) (seq + 1) (FLAG_SYN OR FLAG_ACK) []"
proof -
  obtain st' v q where r: "stack_receive se p key st = Inr st'" "map_find key (tcp_sessions st') = Some (tcp_session.truncate v)"
    "place v = ((key, on_receive_callback (driver st)), next_object st, False, [], True)"
    "syn_out (session_env key (base_env se)) SYN_RECEIVED (gen_initial_seq (base_env se) (iss_drawn st)) v"
    "recv_next (rwnd v) = seq + 1" "udp_sends (driver st') = udp_sends (driver st) @ [(raw_data q, key)]"
    "seg_is q (gen_initial_seq (base_env se) (iss_drawn st)) (seq + 1) (FLAG_SYN OR FLAG_ACK) []"
    using syn_creates [OF assms] by blast
  then show ?thesis
    by (intro exI [of _ st'] exI [of _ "tcp_session.truncate v"] exI [of _ q])
      (auto simp: syn_out_def tcp_session.truncate_def place_def route_def)
qed

theorem syn_creates_session_witness:
  "\<exists>st' s. stack_receive example_stack_env (segment example_env 0 FLAG_SYN [] (example_established 2000 0))
        (''10.0.0.3'', 80) (example_stack True) = Inr st'
    \<and> map_find (''10.0.0.3'', 80) (tcp_sessions st') = Some s \<and> state s = SYN_RECEIVED \<and> recv_next (rwnd s) = 2001"
proof -
  have p: "seg_is (segment example_env 0 FLAG_SYN [] (example_established 2000 0)) 2000 0 FLAG_SYN []"
    using segment_is [of "[]" example_env 0 FLAG_SYN "example_established 2000 0"]
    by (simp add: example_established_def)
  have none: "map_find (''10.0.0.3'', 80) (tcp_sessions (example_stack True)) = None"
    by (simp add: example_stack_def map_find_Cons)
  have "reliable (base_env example_stack_env) (driver (example_stack True))"
    using example_reliable by (simp add: example_stack_env_def example_stack_def)
  from syn_creates_session [OF example_stack_inv none this p] show ?thesis
    by auto
qed

lemma stray_reset_rejected: "\<not> verify_checksum stray_reset"
  by (simp add: verify_checksum_iff stray_reset_def raw_data_def header_bytes_def le16_bytes_def le32_bytes_def flag_defs)

text \<open>
  The reset that answers a stray packet is ignored. A packet from an unknown address
  that is not a plain SYN is answered with one reset packet; its checksum field is never
  computed, and every session, in every state, drops it.
\<close>

theorem stray_reset_is_ignored:
  assumes "map_find key (tcp_sessions st) = None" and "flags (header p) \<noteq> FLAG_SYN"
    and "reliable (base_env se) (driver st)"
  shows "\<exists>st' q. stack_receive se p key st = Inr st' \<and> tcp_sessions st' = tcp_sessions st
    \<and> udp_sends (driver st') = udp_sends (driver st) @ [(raw_data q, key)]
    \<and> parse_datagram (raw_data q) = Some q \<and> has_flag q FLAG_RST \<and> (\<forall>e w. input e q w = Inr w)"
  using assms
  by (intro exI [of _ "st\<lparr>driver := send_packet (draw (base_env se)) stray_reset key (driver st)\<rparr>"] exI [of _ stray_reset])
    (simp add: stack_receive_def reliable_sends wire.law_dec_enc input_def stray_reset_rejected,
     simp add: stray_reset_def has_flag_def flag_defs wire.law_dec_enc)

theorem stray_reset_is_ignored_witness:
  "\<exists>st' q. stack_receive example_stack_env example_rst (''10.0.0.3'', 80) (example_stack False) = Inr st'
    \<and> udp_sends (driver st') = [(raw_data q, (''10.0.0.3'', 80))] \<and> (\<forall>e w. input e q w = Inr w)"
proof -
  have none: "map_find (''10.0.0.3'', 80) (tcp_sessions (example_stack False)) = None"
    by (simp add: example_stack_def map_find_Cons)
  have rst: "flags (header example_rst) \<noteq> FLAG_SYN"
    by (simp add: example_rst_def frame_simps flag_defs)
  have rel: "reliable (base_env example_stack_env) (driver (example_stack False))"
    using example_reliable by (simp add: example_stack_env_def example_stack_def)
  have "udp_sends (driver (example_stack False)) = []"
    by (simp add: example_stack_def new_driver_def)
  with stray_reset_is_ignored [OF none rst rel] show ?thesis
    by auto
qed

text \<open>
  C39: A reset leaves a dangling pointer. When a reset packet arrives for a session that is
  waiting in the ready queue, the session is erased and destroyed while its pointer stays in
  the queue; if it is at the front, the next idle callback dereferences it.
\<close>

theorem reset_leaves_dangling_pointer:
  assumes "stack_inv st" and "map_find key (tcp_sessions st) = Some s"
    and "ready_queue st = self_ptr s # rest" and "verify_checksum p" and "has_flag p FLAG_RST"
  shows "\<exists>st'. stack_receive se p key st = Inr st' \<and> map_find key (tcp_sessions st') = None
    \<and> ready_queue st' = ready_queue st \<and> on_idle_dispatch se st' = Inl Use_after_free"
proof -
  let ?p = "self_ptr s" and ?e = "session_env key (base_env se)"
  let ?w = "enter_world s (driver st) (iss_drawn st)"
  have ok: "stack_ok {} [] st" and sok: "sessions_ok (tcp_sessions st) (next_object st)" and srt: "map_sorted (tcp_sessions st)"
    using assms(1) by (simp_all add: stack_inv_def stack_ok_def sessions_ok_def)
  note at = find_at_pointer [OF sok assms(2)]
  define v where "v = (transition_to CLOSED (?w\<lparr>tmgr := stop_all_timers (tmgr ?w)\<rparr>))\<lparr>posts := [Post_erase key]\<rparr>"
  have v: "input ?e p ?w = Inr v"
    using assms(4,5) by (simp add: input_def handle_reset_def Let_def call_if_set_def session_env_def set_on_data_def
        set_on_closed_def set_on_recv_three_dup_ack_def v_def transition_to_def)
      (simp add: enter_world_def tcp_session.extend_def)
  have "returns (framed (honest ?p key (is_in_ready_queue s))) (input ?e p ?w)"
    by (rule framed_input [OF honest_env enter_honest(1) [OF ok at]])
  then have fr: "framed (honest ?p key (is_in_ready_queue s)) v"
    by (simp add: v)
  obtain st' where c: "call_session se ?p (\<lambda>e. input e p) st = Inr st'" "ready_queue st' = ready_queue st"
    and m: "\<And>x. map_find x (tcp_sessions st') = (if x = key then None else map_find x (tcp_sessions st))"
    using call_session_map [of st ?p key s "\<lambda>e. input e p" se, OF srt at v fr] by (auto simp: v_def)
  have r: "stack_receive se p key st = Inr st'"
    using c assms(2) by (simp add: stack_receive_def)
  have "stack_inv st'"
    using receive_keeps [OF assms(1), of se p key] r by simp
  then have srt': "map_sorted (tcp_sessions st')"
    by (simp add: stack_inv_def stack_ok_def sessions_ok_def)
  have dead: "at_pointer ?p st' = None"
  proof (rule ccontr)
    assume "at_pointer ?p st' \<noteq> None"
    then obtain k t where "at_pointer ?p st' = Some (k, t)"
      by auto
    from at_pointer_find [OF srt' this] have "map_find k (tcp_sessions st) = Some t" "k \<noteq> key" "self_ptr t = ?p"
      by (auto simp: m split: if_splits)
    then show False
      using sok assms(2) unfolding sessions_ok_def by blast
  qed
  have "on_idle_dispatch se st' = Inl Use_after_free"
    using dead c(2) assms(3) by (simp add: on_idle_dispatch_def Let_def call_session_def at_pointer_def)
  then show ?thesis
    using r c(2) m by auto
qed

theorem reset_leaves_dangling_pointer_witness:
  "\<exists>st'. stack_receive example_stack_env example_rst (''10.0.0.2'', 80) (example_stack True) = Inr st'
    \<and> on_idle_dispatch example_stack_env st' = Inl Use_after_free"
proof -
  have find: "map_find (''10.0.0.2'', 80) (tcp_sessions (example_stack True))
      = Some ((new_session 0 1 2 3 4)\<lparr>is_in_ready_queue := True\<rparr>)"
    by (simp add: example_stack_def map_find_Cons)
  have queue: "ready_queue (example_stack True) = self_ptr ((new_session 0 1 2 3 4)\<lparr>is_in_ready_queue := True\<rparr>) # []"
    by (simp add: example_stack_def new_session_def)
  have "verify_checksum example_rst" "has_flag example_rst FLAG_RST"
    by (simp_all add: example_rst_def checksum_accepts has_flag_def frame_simps flag_defs)
  from reset_leaves_dangling_pointer [OF example_stack_inv find queue this] show ?thesis
    by auto
qed

end
