(* ===== verification/Stack_Operations.thy ===== *)
theory Stack_Operations
  imports Stack_Invariants
begin

text \<open>
  What whole operations of the stack achieve: closing every session when the stack stops,
  serving every session that waits in the ready queue, and who receives the packets once a
  session of the stack has connected.
\<close>

section \<open>Calls that ask nothing of the stack\<close>

lemma call_no_posts:
  assumes st: "stack_ok exempt batch st" and key: "map_find key (tcp_sessions st) = Some s"
    and w: "f (session_env key (base_env se)) (enter_world s (driver st) (iss_drawn st)) = Inr w" and ps: "posts w = []"
  shows "call_session se (self_ptr s) f st = Inr (store_session key w st)"
proof -
  have "sessions_ok (tcp_sessions st) (next_object st)"
    using st by (simp add: stack_ok_def)
  from find_at_pointer [OF this key] show ?thesis
    by (simp add: call_session_def w ps)
qed

lemma store_session_fields [simp]:
  "ready_queue (store_session key w st) = ready_queue st" "idle_active (store_session key w st) = idle_active st"
  "driver (store_session key w st) = udp w" "next_object (store_session key w st) = next_object st"
  "map_find x (tcp_sessions (store_session key w st)) =
     (if x = key then Some (tcp_session.truncate w) else map_find x (tcp_sessions st))"
  by (simp_all add: store_session_def map_find_assign)

lemma session_found:
  assumes "stack_ok exempt batch st" and "map_find key (tcp_sessions st) = Some s"
  shows "session_ok s" and "map_find key' (tcp_sessions st) = Some s' \<Longrightarrow> self_ptr s' = self_ptr s \<Longrightarrow> key' = key"
proof -
  have ok: "sessions_ok (tcp_sessions st) (next_object st)"
    using assms(1) by (simp add: stack_ok_def)
  then show "session_ok s"
    using assms(2) unfolding sessions_ok_def by blast
  show "key' = key" if "map_find key' (tcp_sessions st) = Some s'" "self_ptr s' = self_ptr s"
    using ok that assms(2) unfolding sessions_ok_def by blast
qed

section \<open>One call on each session of a batch\<close>

text \<open>
  The loops of the idle callback and of \<open>stop_and_destory\<close> have one shape: a member function is
  called through each pointer of a batch.
\<close>

fun call_each :: "stack_env \<Rightarrow> (env \<Rightarrow> world \<Rightarrow> world result) \<Rightarrow> nat list \<Rightarrow> stack \<Rightarrow> stack result" where
  "call_each se f [] st = Inr st"
| "call_each se f (p # ps) st = bind_res (call_session se p f st) (call_each se f ps)"

lemma close_all_calls: "close_all se ps st = call_each se close ps st"
proof (induction ps arbitrary: st)
  case (Cons p ps)
  have "close_all se ps = call_each se close ps"
    by (rule ext) (rule Cons.IH)
  then show ?case
    by simp
qed simp

lemma process_batch_calls: "process_batch se ps st = call_each se (run_ready se) ps st"
proof (induction ps arbitrary: st)
  case (Cons p ps)
  have "process_batch se ps = call_each se (run_ready se) ps"
    by (rule ext) (rule Cons.IH)
  then show ?case
    by simp
qed simp

text \<open>
  What that comes to, without pointers and without the map: the function runs once on each
  session of the batch, in order and on the members the session had before the batch; only the
  driver and the count of sequence numbers are handed from one to the next. Then every session
  of the batch has the members that its own run left, and every other session those it had.
\<close>

fun run_each :: "(env \<Rightarrow> world \<Rightarrow> world result) \<Rightarrow> stack_env \<Rightarrow> (session_key \<times> tcp_session) list \<Rightarrow>
    udp_driver \<Rightarrow> nat \<Rightarrow> world list result" where
  "run_each f se [] d n = Inr []"
| "run_each f se ((key, s) # rest) d n =
     bind_res (f (session_env key (base_env se)) (enter_world s d n)) (\<lambda>w.
     bind_res (run_each f se rest (udp w) (iss_calls w)) (\<lambda>ws. Inr (w # ws)))"

definition left_by :: "(session_key \<times> tcp_session) list \<Rightarrow> world list \<Rightarrow> stack \<Rightarrow> stack \<Rightarrow> bool" where
  "left_by batch ws st st' \<longleftrightarrow>
     (\<forall>key. map_find key (tcp_sessions st') =
        (case map_of (zip (map fst batch) ws) key of
           Some w \<Rightarrow> Some (tcp_session.truncate w) | None \<Rightarrow> map_find key (tcp_sessions st)))
     \<and> (driver st', iss_drawn st') = fold (\<lambda>w _. (udp w, iss_calls w)) ws (driver st, iss_drawn st)"

definition live :: "stack \<Rightarrow> nat \<Rightarrow> bool" where
  "live st p \<longleftrightarrow> (\<exists>key s. map_find key (tcp_sessions st) = Some s \<and> self_ptr s = p)"

definition batch_of :: "stack \<Rightarrow> nat list \<Rightarrow> (session_key \<times> tcp_session) list" where
  "batch_of st ps = map (\<lambda>p. the (at_pointer p st)) ps"

lemma live_cong [simp]: "live (st\<lparr>idle_active := b, ready_queue := q\<rparr>) = live st"
  by (rule ext) (simp add: live_def)

text \<open>A call that leaves its session at its address leaves the rest of the batch alone.\<close>

lemma batch_kept:
  assumes st: "sessions_ok (tcp_sessions st) n" and st': "sessions_ok (tcp_sessions (store_session key w st)) n'"
    and key: "map_find key (tcp_sessions st) = Some s" and w: "self_ptr w = self_ptr s"
    and ps: "self_ptr s \<notin> set ps" "list_all (live st) ps"
  shows "batch_of (store_session key w st) ps = batch_of st ps" and "list_all (live (store_session key w st)) ps"
    and "key \<notin> fst ` set (batch_of st ps)"
proof -
  have one: "at_pointer p (store_session key w st) = at_pointer p st \<and> live (store_session key w st) p \<and> fst (the (at_pointer p st)) \<noteq> key"
    if p: "p \<in> set ps" for p
  proof -
    obtain k t where t: "map_find k (tcp_sessions st) = Some t" "self_ptr t = p"
      using ps(2) p by (auto simp: live_def list_all_iff)
    have "k \<noteq> key"
      using t key ps(1) p by auto
    then have "map_find k (tcp_sessions (store_session key w st)) = Some t"
      using t(1) by simp
    with find_at_pointer [OF st'] find_at_pointer [OF st t(1)] t(2) \<open>k \<noteq> key\<close> show ?thesis
      unfolding live_def by (metis fst_conv option.sel)
  qed
  then show "batch_of (store_session key w st) ps = batch_of st ps"
    by (simp add: batch_of_def)
  show "key \<notin> fst ` set (batch_of st ps)"
    unfolding batch_of_def set_map using one by blast
  show "list_all (live (store_session key w st)) ps"
    using one by (simp add: list_all_iff)
qed

lemma left_by_Cons:
  assumes "left_by batch ws (store_session key w st) st'" and "key \<notin> fst ` set batch"
  shows "left_by ((key, s) # batch) (w # ws) st st'"
proof -
  have "map_of (zip (map fst batch) ws) key = None"
    using assms(2) by (auto simp: map_of_eq_None_iff dest: set_zip_leftD)
  moreover have "iss_drawn (store_session key w st) = iss_calls w"
    by (simp add: store_session_def)
  ultimately show ?thesis
    using assms(1) by (simp add: left_by_def del: split_paired_All split: option.split)
qed

lemma call_each_spec:
  assumes ok: "\<And>ps st. I ps st \<Longrightarrow> sessions_ok (tcp_sessions st) (next_object st)"
    and one: "\<And>p ps st key s. I (p # ps) st \<Longrightarrow> map_find key (tcp_sessions st) = Some s \<Longrightarrow> self_ptr s = p \<Longrightarrow>
      \<exists>w. f (session_env key (base_env se)) (enter_world s (driver st) (iss_drawn st)) = Inr w \<and> posts w = []
        \<and> self_ptr w = p \<and> I ps (store_session key w st)"
  shows "I ps st \<Longrightarrow> distinct ps \<Longrightarrow> list_all (live st) ps \<Longrightarrow>
    \<exists>st' ws. call_each se f ps st = Inr st' \<and> I [] st' \<and> ready_queue st' = ready_queue st
      \<and> run_each f se (batch_of st ps) (driver st) (iss_drawn st) = Inr ws \<and> map self_ptr ws = ps \<and> left_by (batch_of st ps) ws st st'"
proof (induction ps arbitrary: st)
  case Nil
  then show ?case
    by (simp add: batch_of_def left_by_def)
next
  case (Cons p ps)
  obtain key s where key: "map_find key (tcp_sessions st) = Some s" and p: "self_ptr s = p"
    using Cons.prems(3) by (auto simp: live_def)
  obtain w where w: "f (session_env key (base_env se)) (enter_world s (driver st) (iss_drawn st)) = Inr w" "posts w = []"
    "self_ptr w = p" "I ps (store_session key w st)"
    using one [OF Cons.prems(1) key p] by blast
  let ?st = "store_session key w st"
  note at = find_at_pointer [OF ok [OF Cons.prems(1)] key, unfolded p]
  have call: "call_session se p f st = Inr ?st"
    by (simp add: call_session_def at w(1,2))
  have "self_ptr w = self_ptr s" "self_ptr s \<notin> set ps" "list_all (live st) ps"
    using w(3) p Cons.prems(2,3) by simp_all
  note kept = batch_kept [OF ok [OF Cons.prems(1)] ok [OF w(4)] key this]
  obtain st' ws where "call_each se f ps ?st = Inr st'" "I [] st'" "ready_queue st' = ready_queue st"
    "run_each f se (batch_of st ps) (udp w) (iss_calls w) = Inr ws" "map self_ptr ws = ps" "left_by (batch_of st ps) ws ?st st'"
    using Cons.IH [OF w(4) _ kept(2)] Cons.prems(2) unfolding kept(1) by (auto simp: store_session_def)
  then show ?case
    using call at w(1,3) left_by_Cons [OF _ kept(3)]
    by (intro exI [of _ st'] exI [of _ "w # ws"]) (simp add: batch_of_def)
qed

lemma left_by_pointers:
  assumes st: "stack_inv st" and ps: "list_all (live st) ps" and ws: "map self_ptr ws = ps" and left: "left_by (batch_of st ps) ws st st'"
  shows "map_option self_ptr (map_find key (tcp_sessions st')) = map_option self_ptr (map_find key (tcp_sessions st))"
proof (cases "map_of (zip (map fst (batch_of st ps)) ws) key")
  case (Some w)
  have ok: "sessions_ok (tcp_sessions st) (next_object st)"
    using st by (simp add: stack_inv_def stack_ok_def)
  obtain i where i: "i < length ws" "fst (the (at_pointer (ps ! i) st)) = key" "ws ! i = w"
    using map_of_SomeD [OF Some] ws by (auto simp: set_zip batch_of_def)
  obtain k t where t: "map_find k (tcp_sessions st) = Some t" "self_ptr t = ps ! i"
    using ps i(1) ws by (auto simp: list_all_length live_def)
  have "k = key" "self_ptr w = ps ! i"
    using find_at_pointer [OF ok t(1)] t(2) i ws by auto
  then show ?thesis
    using left t Some by (simp add: left_by_def del: split_paired_All)
next
  case None
  then show ?thesis
    using left by (simp add: left_by_def del: split_paired_All)
qed

section \<open>Closing\<close>

lemma closes:
  fixes se :: stack_env
  assumes st: "stack_inv st" and key: "map_find key (tcp_sessions st) = Some s"
  shows "\<exists>w. close (session_env key (base_env se)) (enter_world s (driver st) (iss_drawn st)) = Inr w \<and> posts w = []
    \<and> self_ptr w = self_ptr s \<and> stack_inv (store_session key w st)"
proof -
  let ?w = "enter_world s (driver st) (iss_drawn st)"
  have ok: "stack_ok {} [] st"
    using st by (simp add: stack_inv_eq)
  have "framed (\<lambda>v. v = (self_ptr s, is_in_ready_queue s, [])) ?w"
    using session_found(1) [OF ok key] by (simp add: framed_def session_ok_enter)
  then obtain w where w: "close (session_env key (base_env se)) ?w = Inr w" "stack_view w = (self_ptr s, is_in_ready_queue s, [])"
    using framed_close unfolding returns_def framed_def by blast
  have "call_session se (self_ptr s) close st = Inr (store_session key w st)"
    using w by (intro call_no_posts [OF ok key]) (simp_all add: stack_view_def)
  moreover have "safe stack_inv (call_session se (self_ptr s) close st)"
    using call_keeps [OF ok, of close se "self_ptr s"] framed_close by (simp add: stack_inv_eq)
  ultimately show ?thesis
    using w by (auto simp: stack_view_def)
qed

text \<open>What a session says to its peer when it is closed.\<close>

fun farewell :: "tcp_state \<Rightarrow> u8 option" where
  "farewell ESTABLISHED = Some FLAG_FIN"
| "farewell CLOSE_WAIT = Some (FLAG_FIN OR FLAG_ACK)"
| "farewell SYN_SENT = Some FLAG_RST"
| "farewell SYN_RECEIVED = Some FLAG_RST"
| "farewell s = None"

definition told :: "u8 \<Rightarrow> sock_addr \<Rightarrow> (u8 list \<times> sock_addr) list \<Rightarrow> bool" where
  "told fl dest dgrams \<longleftrightarrow> (\<exists>q. (raw_data q, dest) \<in> set dgrams \<and> flags (header q) = fl \<and> payload q = [] \<and> verify_checksum q)"

lemma told_mono: "told fl dest xs \<Longrightarrow> set xs \<subseteq> set ys \<Longrightarrow> told fl dest ys"
  by (auto simp: told_def)

lemma told_sends: "sends w w' seq a fl [] \<Longrightarrow>
    \<exists>q. udp_sends (udp w') = udp_sends (udp w) @ [q] \<and> told fl (remote_ip w', remote_port w') [q]"
  by (auto simp: sends_def told_def seg_is_def)

lemma close_tells:
  assumes w: "base_inv w" and rel: "reliable e (udp w)" and v: "close e w = Inr v"
  shows "reliable e (udp v) \<and> state v = close_state (state w)
    \<and> (\<exists>more. udp_sends (udp v) = udp_sends (udp w) @ more
         \<and> (\<forall>fl. farewell (state w) = Some fl \<longrightarrow> told fl (remote_ip w, remote_port w) more))"
proof -
  let ?d = "send_payload_packet e (try_send_data w) FLAG_ACK w"
  have state: "state v = close_state (state w)"
    using close_state_correct [OF w, of e] v by (simp add: in_state_def)
  have ext: "\<exists>xs. udp_sends (udp ?d) = udp_sends (udp w) @ xs"
    using payload_sends [OF rel] by (cases "try_send_data w = []") auto
  have fin: "\<exists>q. udp_sends (udp (send_control_packet e fl u)) = udp_sends (udp u) @ [q] \<and> told fl (remote_ip u, remote_port u) [q]"
    if "reliable e (udp u)" for fl u
    using told_sends [OF sends_control [OF that refl, of fl]] by simp
  show ?thesis
  proof (cases "state w")
    case ESTABLISHED
    let ?u = "transition_to FIN_WAIT_1 (?d\<lparr>tmgr := stop_all_timers (tmgr ?d)\<rparr>)"
    have "v = (send_control_packet e FLAG_FIN ?u)\<lparr>user_want_to_close := True\<rparr>"
      using v ESTABLISHED handle_try_send_eq [OF w, of e] by (simp add: close_def Let_def)
    then show ?thesis
      using state ESTABLISHED ext rel fin [of ?u FLAG_FIN] told_mono
      by (fastforce simp: transition_to_def)
  next
    case CLOSE_WAIT
    then show ?thesis
      using state v rel fin [of "transition_to LAST_ACK w" "FLAG_FIN OR FLAG_ACK"] by (fastforce simp: close_def Let_def transition_to_def)
  next
    case SYN_SENT
    then show ?thesis
      using state v rel fin [of w FLAG_RST] by (fastforce simp: close_def Let_def transition_to_def)
  next
    case SYN_RECEIVED
    then show ?thesis
      using state v rel fin [of w FLAG_RST] by (fastforce simp: close_def Let_def transition_to_def)
  qed (use state v rel in \<open>auto simp: close_def\<close>)
qed

lemma reliable_session_env [simp]: "reliable (session_env key e) d = reliable e d"
  by (simp add: reliable_def session_env_def set_on_data_def set_on_closed_def set_on_recv_three_dup_ack_def Let_def)

lemma run_close_states:
  "run_each close se batch d n = Inr ws \<Longrightarrow> \<forall>(key, s)\<in>set batch. session_ok s \<Longrightarrow>
     list_all2 (\<lambda>(key, s) w. state w = close_state (state s)) batch ws"
proof (induction batch arbitrary: d n ws)
  case (Cons x batch)
  obtain key s where x: "x = (key, s)"
    by (cases x)
  obtain w ws' where w: "close (session_env key (base_env se)) (enter_world s d n) = Inr w"
    and rest: "run_each close se batch (udp w) (iss_calls w) = Inr ws'" and ws: "ws = w # ws'"
    using Cons.prems(1) unfolding x by (auto elim!: bind_res_InrE)
  have base: "base_inv (enter_world s d n)"
    using Cons.prems(2) by (simp add: x session_ok_enter)
  have "state w = close_state (state s)"
    using close_state_correct [OF base, of "session_env key (base_env se)"] w by (simp add: in_state_def)
  then show ?case
    using Cons.IH [OF rest] Cons.prems(2) by (simp add: x ws)
qed simp

lemma run_close_tells:
  "run_each close se batch d n = Inr ws \<Longrightarrow> \<forall>(key, s)\<in>set batch. session_ok s \<Longrightarrow> reliable (base_env se) d \<Longrightarrow>
     \<exists>more. udp_sends (fst (fold (\<lambda>w _. (udp w, iss_calls w)) ws (d, n))) = udp_sends d @ more
       \<and> (\<forall>(key, s)\<in>set batch. \<forall>fl. farewell (state s) = Some fl \<longrightarrow> told fl (remote_ip s, remote_port s) more)"
proof (induction batch arbitrary: d n ws)
  case (Cons x batch)
  obtain key s where x: "x = (key, s)"
    by (cases x)
  obtain w ws' where w: "close (session_env key (base_env se)) (enter_world s d n) = Inr w"
    and rest: "run_each close se batch (udp w) (iss_calls w) = Inr ws'" and ws: "ws = w # ws'"
    using Cons.prems(1) unfolding x by (auto elim!: bind_res_InrE)
  have base: "base_inv (enter_world s d n)" and rel: "reliable (session_env key (base_env se)) (udp (enter_world s d n))"
    using Cons.prems(2,3) by (simp_all add: x session_ok_enter)
  have same: "state (enter_world s d n) = state s" "remote_ip (enter_world s d n) = remote_ip s"
    "remote_port (enter_world s d n) = remote_port s" "udp (enter_world s d n) = d"
    by (simp_all add: enter_world_def tcp_session.extend_def)
  obtain xs where xs: "udp_sends (udp w) = udp_sends d @ xs" "reliable (base_env se) (udp w)"
    "\<And>fl. farewell (state s) = Some fl \<Longrightarrow> told fl (remote_ip s, remote_port s) xs"
    using close_tells [OF base rel w] unfolding same reliable_session_env by blast
  obtain ys where ys: "udp_sends (fst (fold (\<lambda>w _. (udp w, iss_calls w)) ws' (udp w, iss_calls w))) = udp_sends (udp w) @ ys"
    "\<forall>(key, s)\<in>set batch. \<forall>fl. farewell (state s) = Some fl \<longrightarrow> told fl (remote_ip s, remote_port s) ys"
    using Cons.IH [OF rest _ xs(2)] Cons.prems(2) by auto
  then show ?case
    using xs told_mono [where ys = "xs @ ys"] by (intro exI [of _ "xs @ ys"]) (fastforce simp: x ws)
qed simp

lemma all_live:
  assumes "stack_inv st"
  shows "list_all (live st) (map (self_ptr \<circ> snd) (tcp_sessions st))" and "distinct (map (self_ptr \<circ> snd) (tcp_sessions st))"
proof -
  have ok: "sessions_ok (tcp_sessions st) (next_object st)"
    using assms by (simp add: stack_inv_def stack_ok_def)
  then have srt: "map_sorted (tcp_sessions st)"
    by (simp add: sessions_ok_def)
  have find: "map_find (fst en) (tcp_sessions st) = Some (snd en)" if "en \<in> set (tcp_sessions st)" for en
    using that map_find_mem [OF srt, of "fst en" "snd en"] by simp
  then show "list_all (live st) (map (self_ptr \<circ> snd) (tcp_sessions st))"
    unfolding list_all_iff live_def set_map comp_def by blast
  have "inj_on (self_ptr \<circ> snd) (set (tcp_sessions st))"
  proof (rule inj_onI)
    fix a b
    assume a: "a \<in> set (tcp_sessions st)" and b: "b \<in> set (tcp_sessions st)" and eq: "(self_ptr \<circ> snd) a = (self_ptr \<circ> snd) b"
    have "fst a = fst b"
      using ok find [OF a] find [OF b] eq unfolding sessions_ok_def comp_def by blast
    then have "snd a = snd b"
      using find [OF a] find [OF b] by (metis option.inject)
    with \<open>fst a = fst b\<close> show "a = b"
      by (rule prod_eqI)
  qed
  moreover have "distinct (tcp_sessions st)"
    using srt by (simp add: map_sorted_def strict_sorted_iff distinct_map)
  ultimately show "distinct (map (self_ptr \<circ> snd) (tcp_sessions st))"
    by (simp add: distinct_map)
qed

section \<open>Serving the ready queue\<close>

text \<open>
  An application that sends, receives or closes asks nothing of the stack, whatever the
  condition on the session's place in it.
\<close>

definition unobtrusive :: "(env \<Rightarrow> world \<Rightarrow> world result) \<Rightarrow> bool" where
  "unobtrusive app \<longleftrightarrow> (\<forall>P e w. framed P w \<longrightarrow> returns (framed P) (app e w))"

lemma unobtrusive_call:
  "(\<And>p. ev \<noteq> Ev_input p) \<Longrightarrow> (\<And>h. ev \<noteq> Ev_timer h) \<Longrightarrow>
     unobtrusive (\<lambda>e w. bind_res (session_step e ev w) (\<lambda>(_, w). Inr w))"
  unfolding unobtrusive_def by (intro allI impI framed_call)

lemma serve_one:
  assumes st: "stack_ok {} (p # rest) st" and key: "map_find key (tcp_sessions st) = Some s" and p: "self_ptr s = p"
    and app: "app_logic_cb se = Some app" "unobtrusive app"
  shows "\<exists>w. run_ready se (session_env key (base_env se)) (enter_world s (driver st) (iss_drawn st)) = Inr w \<and> posts w = []
    \<and> self_ptr w = p \<and> stack_ok {} rest (store_session key w st)"
proof -
  let ?w = "(enter_world s (driver st) (iss_drawn st))\<lparr>is_in_ready_queue := False\<rparr>"
  have "sessions_ok (tcp_sessions st) (next_object st)"
    using st by (simp add: stack_ok_def)
  note at = find_at_pointer [OF this key]
  have v: "stack_view ?w = (p, False, [])"
    using p by (simp add: stack_view_def enter_world_def tcp_session.extend_def)
  have "framed (\<lambda>v. v = (p, False, [])) ?w"
    using enter_honest(2) [OF st at, of "driver st" "iss_drawn st"] v by (simp add: framed_def)
  then obtain w where w: "app (session_env key (base_env se)) ?w = Inr w" "stack_view w = (p, False, [])"
    using app(2) unfolding unobtrusive_def returns_def framed_def by blast
  have run: "run_ready se (session_env key (base_env se)) (enter_world s (driver st) (iss_drawn st)) = Inr w"
    using w(1) app(1) by (simp add: run_ready_def)
  have call: "call_session se p (run_ready se) st = Inr (store_session key w st)"
    using call_no_posts [where f = "run_ready se", OF st key run] w(2) p by (simp add: stack_view_def)
  have "app_ok se"
    using app unfolding app_ok_def cb_keeps_def unobtrusive_def returns_def by auto
  from dispatch_keeps [OF this st] show ?thesis
    using call run w(2) by (auto simp: stack_view_def)
qed

section \<open>The closing loop\<close>

lemma batch_of_all:
  assumes "stack_inv st"
  shows "batch_of st (map (self_ptr \<circ> snd) (tcp_sessions st)) = tcp_sessions st"
    and "\<forall>(key, s)\<in>set (tcp_sessions st). session_ok s"
proof -
  have ok: "sessions_ok (tcp_sessions st) (next_object st)"
    using assms by (simp add: stack_inv_def stack_ok_def)
  have find: "map_find key (tcp_sessions st) = Some s" if "(key, s) \<in> set (tcp_sessions st)" for key s
    using that map_find_mem [of "tcp_sessions st" key s] ok by (simp add: sessions_ok_def)
  then show "\<forall>(key, s)\<in>set (tcp_sessions st). session_ok s"
    using ok unfolding sessions_ok_def by blast
  show "batch_of st (map (self_ptr \<circ> snd) (tcp_sessions st)) = tcp_sessions st"
    unfolding batch_of_def map_map by (rule map_idI) (metis comp_apply find find_at_pointer [OF ok] option.sel prod.collapse)
qed

lemma closing_loop:
  assumes "stack_inv st"
  shows "\<exists>st' ws. close_all se (map (self_ptr \<circ> snd) (tcp_sessions st)) st = Inr st' \<and> stack_inv st'
    \<and> ready_queue st' = ready_queue st \<and> run_each close se (tcp_sessions st) (driver st) (iss_drawn st) = Inr ws
    \<and> left_by (tcp_sessions st) ws st st'"
proof -
  have ok: "sessions_ok (tcp_sessions z) (next_object z)" if "stack_inv z" for z
    using that by (simp add: stack_inv_def stack_ok_def)
  have each: "\<exists>w. close (session_env key (base_env se)) (enter_world s (driver z) (iss_drawn z)) = Inr w \<and> posts w = []
      \<and> self_ptr w = p \<and> stack_inv (store_session key w z)"
    if "stack_inv z" "map_find key (tcp_sessions z) = Some s" "self_ptr s = p" for p z key s
    using closes [OF that(1,2), of se] that(3) by simp
  show ?thesis
    using call_each_spec [where I = "\<lambda>_. stack_inv" and f = close and se = se, OF ok each assms all_live(2,1) [OF assms]]
    unfolding batch_of_all(1) [OF assms] close_all_calls by blast
qed

section \<open>Properties\<close>

text \<open>
  C28: Stopping closes every session. The loop with which \<open>stop_and_destory\<close> begins never
  follows a dangling pointer, whatever states the sessions are in: \<open>close\<close> runs once on each of
  them, in the order of the map and on the members it had before, and nothing else happens to
  the map, so every session is left in the state that closing leads to; the ready queue is as
  it was. If the driver loses nothing, every peer is told: for each session that was
  established, half closed or opening, a FIN, a FIN with ACK or a reset has gone out to its
  remote address. (What follows the loop in \<open>stop_and_destory\<close> is undefined behaviour, see below.)
\<close>

theorem stop_closes_every_session:
  assumes "stack_inv st"
  shows "\<exists>st' ws. close_all se (map (self_ptr \<circ> snd) (tcp_sessions st)) st = Inr st'
    \<and> run_each close se (tcp_sessions st) (driver st) (iss_drawn st) = Inr ws \<and> left_by (tcp_sessions st) ws st st'
    \<and> list_all2 (\<lambda>(key, s) w. state w = close_state (state s)) (tcp_sessions st) ws
    \<and> ready_queue st' = ready_queue st \<and> stack_inv st'
    \<and> (reliable (base_env se) (driver st) \<longrightarrow> (\<exists>more. udp_sends (driver st') = udp_sends (driver st) @ more
         \<and> (\<forall>(key, s)\<in>set (tcp_sessions st). \<forall>fl. farewell (state s) = Some fl \<longrightarrow> told fl (remote_ip s, remote_port s) more)))"
proof -
  obtain st' ws where c: "close_all se (map (self_ptr \<circ> snd) (tcp_sessions st)) st = Inr st'" "stack_inv st'"
    "ready_queue st' = ready_queue st"
    and r: "run_each close se (tcp_sessions st) (driver st) (iss_drawn st) = Inr ws" "left_by (tcp_sessions st) ws st st'"
    using closing_loop [OF assms, of se] by blast
  have "driver st' = fst (fold (\<lambda>w _. (udp w, iss_calls w)) ws (driver st, iss_drawn st))"
    using r(2) unfolding left_by_def by (metis fst_conv)
  then show ?thesis
    using c r run_close_states [OF r(1) batch_of_all(2) [OF assms]] run_close_tells [OF r(1) batch_of_all(2) [OF assms]] by auto
qed

theorem stop_closes_every_session_witness:
  "\<exists>st' s. let st = (example_stack True)\<lparr>tcp_sessions := [((''10.0.0.2'', 80),
        (new_session 0 1 2 3 4)\<lparr>is_in_ready_queue := True, state := ESTABLISHED, remote_ip := ''10.0.0.2'', remote_port := 80\<rparr>)]\<rparr>
    in close_all example_stack_env [0] st = Inr st' \<and> map_find (''10.0.0.2'', 80) (tcp_sessions st') = Some s
      \<and> state s = FIN_WAIT_1 \<and> told FLAG_FIN (''10.0.0.2'', 80) (udp_sends (driver st'))"
proof -
  let ?s = "(new_session 0 1 2 3 4)\<lparr>is_in_ready_queue := True, state := ESTABLISHED, remote_ip := ''10.0.0.2'', remote_port := 80\<rparr>"
  let ?st = "(example_stack True)\<lparr>tcp_sessions := [((''10.0.0.2'', 80), ?s)]\<rparr>"
  have "session_ok ?s"
    using base_inv_new [of 0 1 2 3 4 new_driver 0] by (simp add: session_ok_def)
  then have inv: "stack_inv ?st"
    unfolding stack_inv_def stack_ok_def sessions_ok_def queue_ok_def example_stack_def
    by (auto simp: map_sorted_Cons map_find_Cons new_session_def simp del: split_paired_All split: if_splits)
  have rel: "reliable (base_env example_stack_env) (driver ?st)"
    using example_reliable by (simp add: example_stack_env_def example_stack_def)
  have f: "map (self_ptr \<circ> snd) (tcp_sessions ?st) = [0]" "udp_sends (driver ?st) = []"
    by (simp_all add: new_session_def example_stack_def new_driver_def)
  obtain st' ws where c: "close_all example_stack_env [0] ?st = Inr st'" "left_by (tcp_sessions ?st) ws ?st st'"
    and l: "list_all2 (\<lambda>(key, s) w. state w = close_state (state s)) (tcp_sessions ?st) ws"
    and t: "\<forall>(key, s)\<in>set (tcp_sessions ?st). \<forall>fl. farewell (state s) = Some fl \<longrightarrow>
      told fl (remote_ip s, remote_port s) (udp_sends (driver st'))"
    using stop_closes_every_session [OF inv, of example_stack_env] rel f by auto
  obtain w where w: "ws = [w]" "state w = FIN_WAIT_1"
    using l by (auto simp: list_all2_Cons1)
  have "map_find (''10.0.0.2'', 80) (tcp_sessions st') = Some (tcp_session.truncate w)"
    using c(2) w(1) by (simp add: left_by_def del: split_paired_All)
  moreover have "state (tcp_session.truncate w) = FIN_WAIT_1"
    using w(2) by (simp add: tcp_session.truncate_def)
  ultimately show ?thesis
    using c(1) t by (intro exI [of _ st'] exI [of _ "tcp_session.truncate w"]) simp
qed

text \<open>
  Stopping a stack ends in undefined behaviour. \<open>stop_and_destory\<close> closes the sessions, and
  then \<open>UdpDriver::stop\<close> passes libuv the address of a pointer variable instead of a handle. For
  a libuv that does not accept what is not a handle, the call fails there, on every stack: the
  map is not emptied, the loop is not run, and the driver's handle is never closed.
\<close>

theorem stopping_is_undefined:
  assumes "stack_inv st" and "uv_is_closing uv Pointer_variable = Inl Invalid_handle"
  shows "stop_and_destory uv loop_alive run_once se st = Inl Invalid_handle"
proof -
  obtain st' where "close_all se (map (self_ptr \<circ> snd) (tcp_sessions st)) st = Inr st'"
    using closing_loop [OF assms(1), of se] by blast
  then show ?thesis
    using assms(2) by (simp add: stop_and_destory_def driver_stop_def)
qed

definition example_uv :: uv_api where
  "example_uv = \<lparr>uv_is_closing = (\<lambda>a. case a of The_handle \<Rightarrow> Inr False | Pointer_variable \<Rightarrow> Inl Invalid_handle),
     uv_close = (\<lambda>a. case a of The_handle \<Rightarrow> Inr () | Pointer_variable \<Rightarrow> Inl Invalid_handle)\<rparr>"

theorem stopping_is_undefined_witness:
  "stop_and_destory example_uv (\<lambda>_. False) Inr example_stack_env (example_stack True) = Inl Invalid_handle"
  by (rule stopping_is_undefined [OF example_stack_inv]) (simp add: example_uv_def)

text \<open>
  Destroying a stack that was not emptied uses the deleted loop, exactly when some session has
  a timer handle.
\<close>

lemma destroy_timers_calls: "uv_calls (destroy_timers m) = uv_calls m \<longleftrightarrow> timers m = []"
proof -
  have calls: "uv_calls (fold (\<lambda>(_, t) m. uv_request (Uv_close (Seq_timer t)) (uv_request (Uv_timer_stop (Seq_timer t)) m)) ts k)
      = uv_calls k @ concat (map (\<lambda>(_, t). [Uv_timer_stop (Seq_timer t), Uv_close (Seq_timer t)]) ts)" for ts and k :: "'a timer_manager"
    by (induction ts arbitrary: k) (simp_all add: uv_calls_request case_prod_beta)
  show ?thesis
    unfolding destroy_timers_def calls by (cases "timers m") (simp_all add: case_prod_beta)
qed

lemma destroying_uses_freed_loop:
  "destroy_stack st = Inl Use_after_free \<longleftrightarrow> (\<exists>s\<in>snd ` set (tcp_sessions st). timers (tmgr s) \<noteq> [])"
proof -
  have "destroy_sessions ss = Inl Use_after_free \<longleftrightarrow> (\<exists>s\<in>set ss. timers (tmgr s) \<noteq> [])" for ss
    by (induction ss) (simp_all add: destroy_timers_calls)
  then show ?thesis
    by (simp add: destroy_stack_def)
qed

text \<open>
  C20: The idle callback serves everyone. When every session in the ready queue is still in
  the map, and the application only sends, receives or closes, the callback does not fail and
  runs the application once on each waiting session, in the order of the queue: on the members
  the session had, with its mark removed, and with the driver as the run before left it. What
  the application left of a session is what the map then holds for it, and what it sent is what
  the driver has sent; sessions that did not wait are as they were. Afterwards the queue is
  empty, no session is marked as waiting, and every session is still under its address.
\<close>

theorem idle_serves_everyone:
  assumes "stack_inv st" and "list_all (live st) (ready_queue st)"
    and "app_logic_cb se = Some app" and "unobtrusive app"
  shows "\<exists>st' ws. on_idle_dispatch se st = Inr st'
    \<and> run_each (\<lambda>e w. app e (w\<lparr>is_in_ready_queue := False\<rparr>)) se (batch_of st (ready_queue st)) (driver st) (iss_drawn st) = Inr ws
    \<and> map self_ptr ws = ready_queue st \<and> left_by (batch_of st (ready_queue st)) ws st st'
    \<and> ready_queue st' = [] \<and> stack_inv st'
    \<and> (\<forall>key. map_option self_ptr (map_find key (tcp_sessions st')) = map_option self_ptr (map_find key (tcp_sessions st)))
    \<and> (\<forall>key s. map_find key (tcp_sessions st') = Some s \<longrightarrow> \<not> is_in_ready_queue s)"
proof -
  let ?q = "ready_queue st" and ?st = "st\<lparr>idle_active := False, ready_queue := []\<rparr>"
  have start: "stack_ok {} ?q ?st" "distinct ?q" "list_all (live ?st) ?q" "batch_of ?st ?q = batch_of st ?q"
    using assms(1,2) by (simp_all add: stack_inv_def stack_ok_def queue_ok_def live_def batch_of_def at_pointer_def)
  have fields: "driver ?st = driver st" "iss_drawn ?st = iss_drawn st" "ready_queue ?st = []"
    "tcp_sessions ?st = tcp_sessions st"
    by simp_all
  have app: "run_ready se = (\<lambda>e w. app e (w\<lparr>is_in_ready_queue := False\<rparr>))"
    using assms(3) by (intro ext) (simp add: run_ready_def)
  have ok: "sessions_ok (tcp_sessions z) (next_object z)" if "stack_ok {} ps z" for ps z
    using that by (simp add: stack_ok_def)
  have one: "\<exists>w. run_ready se (session_env key (base_env se)) (enter_world s (driver z) (iss_drawn z)) = Inr w \<and> posts w = []
      \<and> self_ptr w = p \<and> stack_ok {} ps (store_session key w z)"
    if "stack_ok {} (p # ps) z" "map_find key (tcp_sessions z) = Some s" "self_ptr s = p" for p ps z key s
    by (rule serve_one [OF that assms(3,4)])
  have "\<exists>st' ws. call_each se (run_ready se) ?q ?st = Inr st' \<and> stack_ok {} [] st' \<and> ready_queue st' = ready_queue ?st
      \<and> run_each (run_ready se) se (batch_of ?st ?q) (driver ?st) (iss_drawn ?st) = Inr ws \<and> map self_ptr ws = ?q
      \<and> left_by (batch_of ?st ?q) ws ?st st'"
    by (rule call_each_spec [where I = "stack_ok {}", OF ok one start(1-3)])
  then obtain st' ws where r: "process_batch se ?q ?st = Inr st'" and ok': "stack_ok {} [] st'" "ready_queue st' = []"
    and ws: "run_each (\<lambda>e w. app e (w\<lparr>is_in_ready_queue := False\<rparr>)) se (batch_of st ?q) (driver st) (iss_drawn st) = Inr ws"
    "map self_ptr ws = ?q" "left_by (batch_of st ?q) ws ?st st'"
    unfolding process_batch_calls start(4) fields app by blast
  have "?q = [] \<Longrightarrow> ?st = st\<lparr>idle_active := False\<rparr>"
    by (cases st) simp
  then have "on_idle_dispatch se st = Inr st'"
    using r by (cases "?q = []") (auto simp: on_idle_dispatch_def)
  moreover have "\<not> is_in_ready_queue s" if "map_find key (tcp_sessions st') = Some s" for key s
    using ok' that by (auto simp: stack_ok_def queue_ok_def simp del: split_paired_All)
  moreover have "left_by (batch_of st ?q) ws st st'"
    using ws(3) unfolding left_by_def fields .
  moreover from this have "map_option self_ptr (map_find key (tcp_sessions st')) = map_option self_ptr (map_find key (tcp_sessions st))" for key
    using assms(1,2) ws(2) by (intro left_by_pointers)
  ultimately show ?thesis
    using ok' ws(1,2) by (intro exI [of _ st'] exI [of _ ws]) (simp add: stack_inv_def del: split_paired_All)
qed

theorem idle_serves_everyone_witness:
  "\<exists>st' w. on_idle_dispatch example_stack_env (example_stack True) = Inr st' \<and> ready_queue st' = []
    \<and> bind_res (read_all (session_env (''10.0.0.2'', 80) example_env) (enter_world (new_session 0 1 2 3 4) new_driver 0)) (\<lambda>(_, w). Inr w) = Inr w
    \<and> map_find (''10.0.0.2'', 80) (tcp_sessions st') = Some (tcp_session.truncate w)"
proof -
  let ?s = "(new_session 0 1 2 3 4)\<lparr>is_in_ready_queue := True\<rparr>" and ?st = "example_stack True"
  have f: "map_find (''10.0.0.2'', 80) (tcp_sessions ?st) = Some ?s" "self_ptr ?s = 0" "ready_queue ?st = [0]"
    by (simp_all add: example_stack_def map_find_Cons new_session_def)
  then have "live ?st 0"
    unfolding live_def by blast
  then have live: "list_all (live ?st) (ready_queue ?st)"
    by (simp add: f(3))
  have batch: "batch_of ?st (ready_queue ?st) = [((''10.0.0.2'', 80), ?s)]"
    by (simp add: batch_of_def at_pointer_def example_stack_def new_session_def)
  have enter: "(enter_world ?s (driver ?st) (iss_drawn ?st))\<lparr>is_in_ready_queue := False\<rparr> = enter_world (new_session 0 1 2 3 4) new_driver 0"
    by (simp add: enter_world_def tcp_session.extend_def example_stack_def new_session_def)
  have app: "app_logic_cb example_stack_env = Some (\<lambda>e w. bind_res (session_step e Ev_read_all w) (\<lambda>(_, w). Inr w))"
    by (simp add: example_stack_env_def)
  have un: "unobtrusive (\<lambda>e w. bind_res (session_step e Ev_read_all w) (\<lambda>(_, w). Inr w))"
    by (rule unobtrusive_call) simp_all
  obtain st' ws where r: "on_idle_dispatch example_stack_env ?st = Inr st'" "ready_queue st' = []"
    "left_by [((''10.0.0.2'', 80), ?s)] ws ?st st'"
    and run: "run_each (\<lambda>e w. bind_res (session_step e Ev_read_all (w\<lparr>is_in_ready_queue := False\<rparr>)) (\<lambda>(_, w). Inr w)) example_stack_env
      [((''10.0.0.2'', 80), ?s)] (driver ?st) (iss_drawn ?st) = Inr ws"
    using idle_serves_everyone [OF example_stack_inv live app un] unfolding batch by blast
  obtain w where w: "bind_res (read_all (session_env (''10.0.0.2'', 80) example_env) (enter_world (new_session 0 1 2 3 4) new_driver 0)) (\<lambda>(_, w). Inr w) = Inr w"
    "ws = [w]"
    using run by (auto simp: enter example_stack_env_def bind_res_eq_Inr)
  then show ?thesis
    using r by (intro exI [of _ st'] exI [of _ w]) (simp add: left_by_def del: split_paired_All)
qed

text \<open>
  Connecting takes over the driver. All sessions of a stack share one driver, whose
  receive callback \<open>connect\<close> replaces: from then on every datagram goes to the session that
  connected last, whoever sent it. A SYN from a new address creates no session any more, and
  no other session receives anything.
\<close>

theorem connect_takes_over_driver:
  assumes "stack_inv st" and "map_find key (tcp_sessions st) = Some s"
  shows "\<exists>st'. stack_step se (Se_call (self_ptr s) Ev_connect) st = Inr st'
    \<and> on_receive_callback (driver st') = Session_input (self_ptr s)
    \<and> (\<forall>bs addr. case stack_datagram se bs addr st' of
           Inl err \<Rightarrow> False
         | Inr st'' \<Rightarrow> \<forall>key'. key' \<noteq> key \<longrightarrow> map_find key' (tcp_sessions st'') = map_find key' (tcp_sessions st'))"
proof -
  let ?e = "session_env key (base_env se)" and ?w = "enter_world s (driver st) (iss_drawn st)"
  let ?v = "connect ?e ?w"
  have ok: "stack_ok {} [] st"
    using assms(1) by (simp add: stack_inv_eq)
  have v: "stack_view ?v = (self_ptr s, is_in_ready_queue s, [])"
    by simp
  let ?st = "store_session key ?v st"
  have step: "stack_step se (Se_call (self_ptr s) Ev_connect) st = Inr ?st"
    using v by (simp, intro call_no_posts [OF ok assms(2)]) (simp_all add: stack_view_def)
  have "safe (stack_ok {} []) (stack_step se (Se_call (self_ptr s) Ev_connect) st)"
    unfolding stack_step.simps by (rule call_keeps [OF ok]) (rule framed_event)
  then have inv: "stack_inv ?st"
    unfolding step by (simp only: outcome_simps stack_inv_eq)
  have cb: "on_receive_callback (driver ?st) = Session_input (self_ptr s)"
    by (simp add: connect_def Let_def send_control_packet_def send_packet_def set_on_receive_def transition_to_def)
      (simp add: enter_world_def tcp_session.extend_def)
  have key: "map_find key (tcp_sessions ?st) = Some (tcp_session.truncate ?v)"
    by simp
  have ptr: "self_ptr (tcp_session.truncate ?v) = self_ptr s"
    using v by (simp add: stack_view_def)
  have sok: "sessions_ok (tcp_sessions ?st) (next_object ?st)"
    using inv by (simp add: stack_inv_def stack_ok_def)
  note at = find_at_pointer [OF sok key, unfolded ptr]
  define z where "z = ?st"
  have only: "case call_session se (self_ptr s) (\<lambda>e. input e p) z of Inl err \<Rightarrow> False
      | Inr st'' \<Rightarrow> \<forall>key'. key' \<noteq> key \<longrightarrow> map_find key' (tcp_sessions st'') = map_find key' (tcp_sessions z)" for p
  proof -
    have "returns (\<lambda>st''. \<forall>x. x \<noteq> key \<longrightarrow> map_find x (tcp_sessions st'') = map_find x (tcp_sessions ?st))
        (call_session se (self_ptr s) (\<lambda>e. input e p) ?st)"
      by (rule call_isolated [OF inv at]) (rule framed_input)
    then show ?thesis
      unfolding z_def returns_def by (elim exE conjE) (simp only: sum.case)
  qed
  have "on_receive_callback (driver z) = Session_input (self_ptr s)"
    using cb by (simp only: z_def)
  then have "case stack_datagram se bs addr z of Inl err \<Rightarrow> False
      | Inr st'' \<Rightarrow> \<forall>key'. key' \<noteq> key \<longrightarrow> map_find key' (tcp_sessions st'') = map_find key' (tcp_sessions z)" for bs addr
    using only by (auto simp: stack_datagram_def on_uv_recv_def simp del: split_paired_All split: option.split)
  then show ?thesis
    using step cb unfolding z_def by blast
qed

theorem connect_takes_over_driver_witness:
  "\<exists>st'. stack_step example_stack_env (Se_call 0 Ev_connect) (example_stack False) = Inr st'
    \<and> on_receive_callback (driver st') = Session_input 0"
proof -
  have find: "map_find (''10.0.0.2'', 80) (tcp_sessions (example_stack False)) = Some ((new_session 0 1 2 3 4)\<lparr>is_in_ready_queue := False\<rparr>)"
    by (simp add: example_stack_def map_find_Cons)
  have "self_ptr ((new_session 0 1 2 3 4)\<lparr>is_in_ready_queue := False\<rparr>) = 0"
    by (simp add: new_session_def)
  then show ?thesis
    using connect_takes_over_driver [OF example_stack_inv find, of example_stack_env] by metis
qed

end
