(* ===== verification/Hosting.thy ===== *)
theory Hosting
  imports Stack_Operations
begin

text \<open>
  A session between two calls: the stack keeps its members in the map and the driver and the
  counter of drawn sequence numbers beside it. \<open>hosting\<close> says that a world is what the next
  call on the session will work on; the lemmas carry it through calls and datagrams, so that
  what is known of the session's operations can be used on the stack that owns it.
\<close>

section \<open>Sessions between calls\<close>

definition hosting :: "session_key \<Rightarrow> world \<Rightarrow> stack \<Rightarrow> bool" where
  "hosting key w st \<longleftrightarrow> stack_inv st \<and> map_find key (tcp_sessions st) = Some (tcp_session.truncate w)
     \<and> driver st = udp w \<and> iss_drawn st = iss_calls w \<and> posts w = []"

lemma reenter: "enter_world (tcp_session.truncate w) (udp w) n = w\<lparr>iss_calls := n, posts := []\<rparr>"
  by (cases w) (simp add: enter_world_def tcp_session.truncate_def tcp_session.extend_def)

lemma truncate_posts [simp]: "tcp_session.truncate (w\<lparr>posts := ps\<rparr>) = tcp_session.truncate w"
  by (simp add: tcp_session.truncate_def)

lemma hosting_world: "hosting key w st \<Longrightarrow> enter_world (tcp_session.truncate w) (driver st) (iss_drawn st) = w"
  by (simp add: hosting_def reenter)

lemma hosting_enter:
  assumes "stack_inv st" and "map_find key (tcp_sessions st) = Some s"
  shows "hosting key (enter_world s (driver st) (iss_drawn st)) st"
  using assms by (cases s) (simp add: hosting_def enter_world_def tcp_session.truncate_def tcp_session.extend_def)

lemma hosting_at:
  assumes "hosting key w st"
  shows "at_pointer (self_ptr w) st = Some (key, tcp_session.truncate w)"
proof -
  have "sessions_ok (tcp_sessions st) (next_object st)" and "map_find key (tcp_sessions st) = Some (tcp_session.truncate w)"
    using assms by (simp_all add: hosting_def stack_inv_def stack_ok_def)
  from find_at_pointer [OF this] show ?thesis
    by simp
qed

text \<open>The operations that keep what the callbacks keep.\<close>

definition well_framed :: "(env \<Rightarrow> world \<Rightarrow> world result) \<Rightarrow> bool" where
  "well_framed f \<longleftrightarrow> (\<forall>P e w. env_keeps (framed P) e \<longrightarrow> framed P w \<longrightarrow> returns (framed P) (f e w))"

lemma well_framed_intros [intro, simp]:
  "well_framed (\<lambda>e. input e p)" "well_framed close"
  "well_framed (\<lambda>e w. bind_res (session_step e ev w) (\<lambda>(_, w). Inr w))"
  unfolding well_framed_def using framed_input framed_close framed_event by blast+

section \<open>A call on a session\<close>

lemma hosting_runs:
  assumes h: "hosting key w st" and f: "f (session_env key (base_env se)) w = Inr v"
  shows "call_session se (self_ptr w) f st = Inr (fold serve_post (posts v) (store_session key v st))"
  using hosting_at [OF h] hosting_world [OF h] f by (simp add: call_session_def)

lemma hosting_asks:
  assumes h: "hosting key w st" and ff: "well_framed f" and f: "f (session_env key (base_env se)) w = Inr v"
  shows "\<exists>st'. call_session se (self_ptr w) f st = Inr st' \<and> stack_inv st'
    \<and> driver st' = udp v \<and> iss_drawn st' = iss_calls v
    \<and> ready_queue st' = ready_queue st @ (if is_in_ready_queue v \<and> \<not> is_in_ready_queue w then [self_ptr w] else [])
    \<and> (\<forall>x. map_find x (tcp_sessions st') = (if x = key then if Post_erase key \<in> set (posts v) then None
          else Some (tcp_session.truncate v) else map_find x (tcp_sessions st)))
    \<and> self_ptr v = self_ptr w \<and> (is_in_ready_queue w \<longrightarrow> is_in_ready_queue v)"
proof -
  let ?st = "fold serve_post (posts v) (store_session key v st)"
  have ok: "stack_ok {} [] st"
    using h by (simp add: hosting_def stack_inv_def)
  then have srt: "map_sorted (tcp_sessions st)"
    by (simp add: stack_ok_def sessions_ok_def)
  have "framed (honest (self_ptr w) key (is_in_ready_queue w)) w"
    using enter_honest(1) [OF ok hosting_at [OF h], of "driver st" "iss_drawn st"] unfolding hosting_world [OF h] by simp
  then have "returns (framed (honest (self_ptr w) key (is_in_ready_queue w))) (f (session_env key (base_env se)) w)"
    using ff honest_env unfolding well_framed_def by blast
  then have "framed (honest (self_ptr w) key (is_in_ready_queue w)) v"
    using f by simp
  then have v: "self_ptr v = self_ptr w" "set (posts v) \<subseteq> {Post_ready (self_ptr w), Post_erase key}"
    "is_in_ready_queue w \<longrightarrow> is_in_ready_queue v"
    "count_list (posts v) (Post_ready (self_ptr w)) = (if is_in_ready_queue v \<and> \<not> is_in_ready_queue w then 1 else 0)"
    by (simp_all add: framed_def stack_view_def honest_def)
  have "map_sorted (tcp_sessions (store_session key v st))"
    using srt by (simp add: store_session_def map_assign_sorted)
  note fold = serve_fold [OF v(2) this]
  have call: "call_session se (self_ptr w) f st = Inr ?st"
    by (rule hosting_runs [where f = f, OF h f])
  moreover have "safe (stack_ok {} []) (call_session se (self_ptr w) f st)"
    using ff by (intro call_keeps [OF ok]) (simp add: well_framed_def)
  then have "stack_inv ?st"
    unfolding call by (simp only: outcome_simps stack_inv_eq)
  moreover have "iss_drawn (store_session key v st) = iss_calls v"
    by (simp add: store_session_def)
  ultimately show ?thesis
    using fold v by (intro exI [of _ ?st]) (simp del: split_paired_All)
qed

lemma hosting_call:
  assumes h: "hosting key w st" and ff: "well_framed f" and f: "f (session_env key (base_env se)) w = Inr v"
    and ps: "Post_erase key \<notin> set (posts v)"
  shows "\<exists>st'. call_session se (self_ptr w) f st = Inr st' \<and> hosting key (v\<lparr>posts := []\<rparr>) st'
    \<and> ready_queue st' = ready_queue st @ (if is_in_ready_queue v \<and> \<not> is_in_ready_queue w then [self_ptr w] else [])
    \<and> (\<forall>x. x \<noteq> key \<longrightarrow> map_find x (tcp_sessions st') = map_find x (tcp_sessions st))
    \<and> self_ptr v = self_ptr w \<and> (is_in_ready_queue w \<longrightarrow> is_in_ready_queue v)"
  using hosting_asks [where f = f, OF h ff f] ps by (auto simp: hosting_def simp del: split_paired_All)

text \<open>A call that asks nothing.\<close>

lemma hosting_quiet_call:
  assumes h: "hosting key w st" and ff: "well_framed f" and f: "f (session_env key (base_env se)) w = Inr v"
    and ps: "posts v = []"
  shows "call_session se (self_ptr w) f st = Inr (store_session key v st)" and "hosting key v (store_session key v st)"
proof -
  show call: "call_session se (self_ptr w) f st = Inr (store_session key v st)"
    using hosting_runs [where f = f, OF h f] ps by simp
  have same: "v\<lparr>posts := []\<rparr> = v"
    using ps by simp
  show "hosting key v (store_session key v st)"
    using hosting_call [where f = f, OF h ff f, unfolded call same] ps by auto
qed

section \<open>Datagrams\<close>

lemma hosting_datagram:
  assumes h: "hosting key w st" and cb: "on_receive_callback (udp w) \<in> {Stack_listen, Session_input (self_ptr w)}"
    and p: "parse_datagram bs = Some p"
  shows "stack_datagram se bs (Some key) st = call_session se (self_ptr w) (\<lambda>e. input e p) st"
proof -
  have "bs \<noteq> []"
    using p by (auto simp: parse_datagram_def header_size_def split: if_splits)
  then show ?thesis
    using h cb p by (auto simp: stack_datagram_def on_uv_recv_def stack_receive_def hosting_def)
qed

section \<open>The idle callback\<close>

lemma hosting_dispatch:
  assumes h: "hosting key w st" and q: "ready_queue st = [self_ptr w]" and app: "app_logic_cb se = Some app"
  shows "on_idle_dispatch se st = bind_res (app (session_env key (base_env se)) (w\<lparr>is_in_ready_queue := False\<rparr>))
    (\<lambda>w. Inr (fold serve_post (posts w) (store_session key w (st\<lparr>idle_active := False, ready_queue := []\<rparr>))))"
proof -
  have at: "at_pointer (self_ptr w) (st\<lparr>idle_active := False, ready_queue := []\<rparr>) = Some (key, tcp_session.truncate w)"
    using hosting_at [OF h] by (simp add: at_pointer_def)
  have batch_done: "process_batch se [] = Inr"
    by (rule ext) simp
  have bind_Inr: "bind_res r Inr = r" for r :: "stack result"
    by (cases r) simp_all
  show ?thesis
    using q app hosting_world [OF h] by (simp add: on_idle_dispatch_def call_session_def at run_ready_def batch_done bind_Inr)
qed

lemma hosting_idle: "hosting key w st \<Longrightarrow> ready_queue st \<noteq> [] \<Longrightarrow> idle_active st"
  by (simp add: hosting_def stack_inv_def stack_ok_def)

section \<open>The only session of a stack\<close>

definition hosting_only :: "session_key \<Rightarrow> world \<Rightarrow> stack \<Rightarrow> bool" where
  "hosting_only key w st \<longleftrightarrow> hosting key w st \<and> (\<forall>x. x \<noteq> key \<longrightarrow> map_find x (tcp_sessions st) = None)
     \<and> ready_queue st = (if is_in_ready_queue w then [self_ptr w] else [])"

lemma hosting_only_call:
  assumes h: "hosting_only key w st" and ff: "well_framed f" and f: "f (session_env key (base_env se)) w = Inr v"
    and ps: "Post_erase key \<notin> set (posts v)"
  shows "\<exists>st'. call_session se (self_ptr w) f st = Inr st' \<and> hosting_only key (v\<lparr>posts := []\<rparr>) st'"
proof -
  obtain st' where st': "call_session se (self_ptr w) f st = Inr st'" "hosting key (v\<lparr>posts := []\<rparr>) st'"
    "ready_queue st' = ready_queue st @ (if is_in_ready_queue v \<and> \<not> is_in_ready_queue w then [self_ptr w] else [])"
    "\<forall>x. x \<noteq> key \<longrightarrow> map_find x (tcp_sessions st') = map_find x (tcp_sessions st)"
    "self_ptr v = self_ptr w" "is_in_ready_queue w \<longrightarrow> is_in_ready_queue v"
    using hosting_call [where f = f, OF _ ff f ps, of st] h unfolding hosting_only_def by (elim exE conjE) blast
  then show ?thesis
    using h by (intro exI [of _ st']) (auto simp: hosting_only_def simp del: split_paired_All)
qed

lemma hosting_only_erased:
  assumes h: "hosting_only key w st" and ff: "well_framed f" and f: "f (session_env key (base_env se)) w = Inr v"
    and ps: "Post_erase key \<in> set (posts v)"
  shows "\<exists>st'. call_session se (self_ptr w) f st = Inr st' \<and> tcp_sessions st' = []"
proof -
  obtain st' where st': "call_session se (self_ptr w) f st = Inr st'"
    "\<forall>x. map_find x (tcp_sessions st') = None"
    using hosting_asks [where f = f, OF _ ff f, of st] h ps unfolding hosting_only_def by (auto simp del: split_paired_All)
  have "tcp_sessions st' = []"
  proof (rule ccontr)
    assume "tcp_sessions st' \<noteq> []"
    then obtain k v m where "tcp_sessions st' = (k, v) # m"
      by (metis list.exhaust surj_pair)
    then have "map_find k (tcp_sessions st') \<noteq> None"
      by (simp add: map_find_Cons)
    then show False
      using st'(2) [THEN spec, of k] by contradiction
  qed
  with st'(1) show ?thesis
    by blast
qed

text \<open>A datagram whose handler ends as given, and one that brings data or the end of the stream.\<close>

lemma hosting_only_datagram:
  assumes h: "hosting_only key w st" and cb: "on_receive_callback (udp w) \<in> {Stack_listen, Session_input (self_ptr w)}"
    and p: "parse_datagram bs = Some p" and v: "input (session_env key (base_env se)) p w = Inr v" and ps: "posts v = []"
  shows "\<exists>st'. stack_datagram se bs (Some key) st = Inr st' \<and> hosting_only key v st'"
proof -
  have same: "v\<lparr>posts := []\<rparr> = v"
    using ps by simp
  have "hosting key w st"
    using h by (simp add: hosting_only_def)
  from hosting_datagram [OF this cb p, of se] show ?thesis
    using hosting_only_call [where f = "\<lambda>e. input e p", OF h _ v, unfolded same] ps by simp
qed

lemma session_env_data:
  "call_if_set (map_option (\<lambda>cb. cb n) (on_data_cb (session_env key e))) w =
     Inr (if is_in_ready_queue w then w else w\<lparr>is_in_ready_queue := True, posts := posts w @ [Post_ready (self_ptr w)]\<rparr>)"
  by (simp add: session_env_def set_on_data_def set_on_closed_def set_on_recv_three_dup_ack_def Let_def
      call_if_set_def trigger_event_def)

lemma session_env_closed:
  "call_if_set (on_closed_cb (session_env key e)) w = Inr (w\<lparr>posts := posts w @ [Post_erase key]\<rparr>)"
  by (simp add: session_env_def set_on_data_def set_on_closed_def set_on_recv_three_dup_ack_def Let_def call_if_set_def)

lemma hosting_only_notified:
  assumes h: "hosting_only key w st" and cb: "on_receive_callback (udp w) \<in> {Stack_listen, Session_input (self_ptr w)}"
    and p: "parse_datagram bs = Some p" and e: "e = session_env key (base_env se)"
    and v: "input e p w = call_if_set (map_option (\<lambda>cb. cb n) (on_data_cb e)) v" "posts v = []" "self_ptr v = self_ptr w"
  shows "\<exists>st'. stack_datagram se bs (Some key) st = Inr st' \<and> hosting_only key (v\<lparr>is_in_ready_queue := True\<rparr>) st'"
proof -
  let ?u = "if is_in_ready_queue v then v else v\<lparr>is_in_ready_queue := True, posts := [Post_ready (self_ptr v)]\<rparr>"
  have u: "input (session_env key (base_env se)) p w = Inr ?u"
    using v(1,2) by (simp add: e session_env_data)
  have same: "?u\<lparr>posts := []\<rparr> = v\<lparr>is_in_ready_queue := True\<rparr>" "Post_erase key \<notin> set (posts ?u)"
    using v(2) by simp_all
  have "hosting key w st"
    using h by (simp add: hosting_only_def)
  from hosting_datagram [OF this cb p, of se] show ?thesis
    using hosting_only_call [where f = "\<lambda>e. input e p", OF h _ u same(2), unfolded same(1)] by simp
qed

end
