(* ===== verification/Stack_Transfer.thy ===== *)
theory Stack_Transfer
  imports Hosting
begin

text \<open>
  The parts together: a data segment travels from the driver through the session and the
  ready queue to the application, and two stacks connect over their drivers.
\<close>

section \<open>From the driver to the application\<close>

lemma session_env_callbacks:
  "on_established_cb (session_env key e) = None" "gen_initial_seq (session_env key e) = gen_initial_seq e"
  by (simp_all add: session_env_def set_on_data_def set_on_closed_def set_on_recv_three_dup_ack_def Let_def)

lemma seg_wire: "seg_is q n a fl data \<Longrightarrow> parse_datagram (raw_data q) = Some q"
  by (simp add: seg_is_def wire.law_dec_enc)

text \<open>
  C11: Data reaches the application. When the next data segment of an idle connection arrives
  as a datagram at a listening stack, the session takes it in, acknowledges it and is put into
  the ready queue with the idle handle running; the idle callback then runs the application on
  a session whose receive buffer ends with the new bytes, and reading everything returns them
  in order.
\<close>

theorem data_reaches_application:
  assumes "stack_inv st" and "map_find key (tcp_sessions st) = Some s" and "ready_queue st = []"
    and "on_receive_callback (driver st) = Stack_listen" and "app_logic_cb se = Some app"
    and "idle (session_env key (base_env se)) ESTABLISHED m t (enter_world s (driver st) (iss_drawn st))"
    and "parse_datagram bs = Some p" and "seg_is p t m FLAG_ACK data" and "data \<noteq> []"
    and "qsize (recv_buffer s) + length data \<le> 1024"
  shows "\<exists>st1 w w'. stack_datagram se bs (Some key) st = Inr st1 \<and> ready_queue st1 = [self_ptr s] \<and> idle_active st1
    \<and> sends (enter_world s (driver st) (iss_drawn st)) w m (t + of_nat (length data)) FLAG_ACK []
    \<and> on_idle_dispatch se st1 = bind_res (app (session_env key (base_env se)) w)
        (\<lambda>w. Inr (fold serve_post (posts w) (store_session key w (st1\<lparr>idle_active := False, ready_queue := []\<rparr>))))
    \<and> read_all (session_env key (base_env se)) w = Inr (ring_contents (recv_buffer s) @ data, w')"
proof -
  let ?e = "session_env key (base_env se)" and ?w = "enter_world s (driver st) (iss_drawn st)"
  let ?v = "data_taken ?e p ?w"
  let ?u = "?v\<lparr>is_in_ready_queue := True, posts := [Post_ready (self_ptr ?v)]\<rparr>"
  have same: "self_ptr ?w = self_ptr s" "recv_buffer ?w = recv_buffer s" "is_in_ready_queue ?w = is_in_ready_queue s" "posts ?w = []"
    "udp ?w = driver st"
    by (simp_all add: enter_world_def tcp_session.extend_def)
  note host = hosting_enter [OF assms(1,2)]
  have "queue_ok (tcp_sessions st) {} []"
    using assms(1,3) by (simp add: stack_inv_def stack_ok_def)
  then have flag: "\<not> is_in_ready_queue s"
    using assms(2) unfolding queue_ok_def by fastforce
  have view: "self_ptr ?v = self_ptr s" "\<not> is_in_ready_queue ?v" "posts ?v = []"
    using place_data_taken [of ?e p ?w] same flag by (simp_all add: place_def)
  note taken = input_data_taken [OF assms(6,8,9) assms(10) [folded same(2)]]
  have inp: "input ?e p ?w = Inr ?u"
    using taken(1) view by (simp add: session_env_data)
  have quiet: "Post_erase key \<notin> set (posts ?u)" and off: "?u\<lparr>posts := [], is_in_ready_queue := False\<rparr> = ?v"
    using view by simp_all
  obtain st1 where st1: "call_session se (self_ptr s) (\<lambda>e. input e p) st = Inr st1" "hosting key (?u\<lparr>posts := []\<rparr>) st1"
    "ready_queue st1 = [self_ptr s]"
    using hosting_call [where f = "\<lambda>e. input e p", OF host _ inp quiet] assms(3) flag same by auto
  have dat: "stack_datagram se bs (Some key) st = Inr st1"
    using hosting_datagram [OF host _ assms(7), of se] assms(4) st1(1) same by simp
  have dis: "on_idle_dispatch se st1 = bind_res (app ?e ?v)
      (\<lambda>w. Inr (fold serve_post (posts w) (store_session key w (st1\<lparr>idle_active := False, ready_queue := []\<rparr>))))"
    using hosting_dispatch [OF st1(2) _ assms(5)] st1(3) view(1) off by simp
  have st: "state ?v = ESTABLISHED" and okb: "ring_ok (recv_buffer ?v)"
    using taken(2) by (simp_all add: idle_def base_inv_def base_ok_def)
  have con: "ring_contents (recv_buffer ?v) = ring_contents (recv_buffer s) @ data"
    using taken(3) same(2) by simp
  have "\<exists>w'. read_all ?e ?v = Inr (ring_contents (recv_buffer ?v), w')"
    using rq.read_loop_take [OF okb order_refl] st length_ring_contents [of "recv_buffer ?v"]
    by (simp add: read_all_eq Let_def auto_close_def)
  then show ?thesis
    using dat dis st1(3) hosting_idle [OF st1(2)] taken(4) con by auto
qed

text \<open>A listening stack with one established session, and the segment its peer sends next.\<close>

definition example_peer :: tcp_session where
  "example_peer = (new_session 0 1 2 3 4)
     \<lparr>state := ESTABLISHED,
      swnd := \<lparr>send_unack = 1000, send_next = 1000, send_window_size = 8, initial_send_seq = 1\<rparr>,
      rwnd := \<lparr>recv_next = 2000, recv_window_size = 1, initial_recv_seq = 2\<rparr>\<rparr>"

definition example_serving :: stack where
  "example_serving = stack_listen ((example_stack False)\<lparr>tcp_sessions := [((''10.0.0.2'', 80), example_peer)]\<rparr>)"

lemma example_peer_ok: "session_ok example_peer"
  using base_inv_new [of 0 1 2 3 4 new_driver 0] by (simp add: session_ok_def example_peer_def base_inv_def)
    (simp add: enter_world_new, simp add: new_session_def)

lemma example_serving_inv: "stack_inv example_serving"
proof -
  have "self_ptr example_peer = 0" "\<not> is_in_ready_queue example_peer"
    by (simp_all add: example_peer_def new_session_def)
  then show ?thesis
    using example_peer_ok
    unfolding stack_inv_def stack_ok_def sessions_ok_def queue_ok_def example_serving_def stack_listen_def example_stack_def
    by (auto simp: map_sorted_Cons map_find_Cons simp del: split_paired_All split: if_splits)
qed

lemma example_serving_idle:
  "idle (session_env key (base_env example_stack_env)) ESTABLISHED 1000 2000
     (enter_world example_peer (driver example_serving) (iss_drawn example_serving))"
proof -
  have "reliable (base_env example_stack_env) (driver example_serving)"
    using example_reliable
    by (simp add: example_stack_env_def example_serving_def stack_listen_def example_stack_def set_on_receive_def reliable_def)
  then show ?thesis
    using example_peer_ok
    by (simp add: idle_def session_env_callbacks) (simp add: enter_world_def tcp_session.extend_def example_peer_def new_session_def ring_new_def)
qed

theorem data_reaches_application_witness:
  "\<exists>st1 w w'. stack_datagram example_stack_env
        (raw_data (segment example_env 1000 FLAG_ACK [7, 8, 9] (example_established 2000 1000))) (Some (''10.0.0.2'', 80)) example_serving
      = Inr st1 \<and> ready_queue st1 = [0]
    \<and> read_all (session_env (''10.0.0.2'', 80) example_env) w = Inr ([7, 8, 9], w')"
proof -
  let ?p = "segment example_env 1000 FLAG_ACK [7, 8, 9] (example_established 2000 1000)"
  have p: "seg_is ?p 2000 1000 FLAG_ACK [7, 8, 9]"
    using segment_is [of "[7, 8, 9]" example_env 1000 FLAG_ACK "example_established 2000 1000"]
    by (simp add: example_established_def)
  have find: "map_find (''10.0.0.2'', 80) (tcp_sessions example_serving) = Some example_peer"
    and queue: "ready_queue example_serving = []" and cb: "on_receive_callback (driver example_serving) = Stack_listen"
    by (simp_all add: example_serving_def stack_listen_def example_stack_def map_find_Cons set_on_receive_def)
  have app: "app_logic_cb example_stack_env = Some (\<lambda>e w. bind_res (session_step e Ev_read_all w) (\<lambda>(_, w). Inr w))"
    by (simp add: example_stack_env_def)
  have fresh: "qsize (recv_buffer example_peer) = 0" "self_ptr example_peer = 0"
    by (simp_all add: example_peer_def new_session_def ring_new_def)
  then have empty: "ring_contents (recv_buffer example_peer) = []"
    by (simp flip: length_0_conv add: length_ring_contents)
  have "qsize (recv_buffer example_peer) + length [7, 8, 9 :: u8] \<le> 1024"
    using fresh by simp
  from data_reaches_application [OF example_serving_inv find queue cb app example_serving_idle seg_wire [OF p] p _ this]
  show ?thesis
    by (auto simp: fresh empty example_stack_env_def)
qed

section \<open>Two stacks\<close>

text \<open>A session that a fresh stack has created.\<close>

lemma stack_created:
  fixes ip :: string and port :: u16 and se :: stack_env and key :: session_key
  defines "st \<equiv> snd (create_session se key (new_stack ip port))"
  shows "fst (create_session se key (new_stack ip port)) = Some 0"
    and "\<exists>w. hosting_only key w st \<and> base_inv w \<and> qsize (send_buffer w) = 0 \<and> udp w = driver (new_stack ip port)
      \<and> iss_calls w = 0 \<and> recv_next (rwnd w) = 0 \<and> meters w = (1, 8, 0, ring_new 1024 0)
      \<and> place w = ((key, on_receive_callback (driver (new_stack ip port))), 0, False, [], True)"
proof -
  let ?s = "set_remote_addr (fst key) (snd key) (new_session 0 (ctor_iss se 0) (ctor_irs se 0) (fst (ctor_ports se 0)) (snd (ctor_ports se 0)))"
  define w where "w = enter_world ?s (driver st) (iss_drawn st)"
  have inv: "stack_inv st"
    using create_keeps(1) [OF new_stack_inv [of ip port, unfolded stack_inv_def], of se key] by (simp add: stack_inv_def st_def)
  have c: "map_find key (tcp_sessions st) = Some ?s" "driver st = driver (new_stack ip port)" "iss_drawn st = 0"
    "ready_queue st = []" "x \<noteq> key \<Longrightarrow> map_find x (tcp_sessions st) = None" for x
    by (simp_all add: st_def create_session_def new_stack_def Let_def map_try_emplace_def map_find_Cons set_remote_addr_def new_session_def)
  show "fst (create_session se key (new_stack ip port)) = Some 0"
    by (simp add: create_session_def new_stack_def Let_def map_try_emplace_def map_find_Cons set_remote_addr_def new_session_def)
  have "session_ok ?s"
    using session_found(1) [OF inv [unfolded stack_inv_def] c(1)] .
  then have "base_inv w"
    by (simp add: w_def)
  moreover have f: "qsize (send_buffer w) = 0" "udp w = driver (new_stack ip port)" "iss_calls w = 0" "recv_next (rwnd w) = 0"
    "self_ptr w = 0" "\<not> is_in_ready_queue w" "posts w = []" "(remote_ip w, remote_port w) = key" "auto_close_on_eof w"
    "meters w = (1, 8, 0, ring_new 1024 0)"
    by (simp_all add: w_def c(2,3) enter_world_def tcp_session.extend_def set_remote_addr_def new_session_def ring_new_def meters_def)
  moreover have "hosting_only key w st"
    using hosting_enter [OF inv c(1)] c(4,5) f(6) by (simp add: hosting_only_def w_def del: split_paired_All)
  moreover have "place w = ((key, on_receive_callback (driver (new_stack ip port))), 0, False, [], True)"
    using f by (simp add: place_def route_def)
  ultimately show "\<exists>w. hosting_only key w st \<and> base_inv w \<and> qsize (send_buffer w) = 0 \<and> udp w = driver (new_stack ip port)
      \<and> iss_calls w = 0 \<and> recv_next (rwnd w) = 0 \<and> meters w = (1, 8, 0, ring_new 1024 0)
      \<and> place w = ((key, on_receive_callback (driver (new_stack ip port))), 0, False, [], True)"
    by blast
qed

text \<open>The connecting stack: one session, its SYN sent, the driver handing packets to it.\<close>

lemma stack_connects:
  assumes h: "hosting_only key w st" and w: "base_inv w" "qsize (send_buffer w) = 0" "reliable (base_env se) (udp w)"
    and pl: "place w = ((key, cb), p, False, [], ac)" and e: "e = session_env key (base_env se)"
  shows "call_session se p (\<lambda>e w. Inr (connect e w)) st = Inr (store_session key (connect e w) st)"
    and "hosting_only key (connect e w) (store_session key (connect e w) st)"
    and "syn_out e SYN_SENT (gen_initial_seq (base_env se) (iss_calls w)) (connect e w)"
    and "place (connect e w) = ((key, Session_input p), p, False, [], ac)" and "meters (connect e w) = meters w"
    and "\<exists>q. udp_sends (udp (connect e w)) = udp_sends (udp w) @ [(raw_data q, key)]
      \<and> seg_is q (gen_initial_seq (base_env se) (iss_calls w)) (recv_next (rwnd w)) FLAG_SYN []"
proof -
  have p: "self_ptr w = p" "posts w = []" "(remote_ip w, remote_port w) = key" "\<not> is_in_ready_queue w"
    using pl by (simp_all add: place_def route_def)
  show pl': "place (connect e w) = ((key, Session_input p), p, False, [], ac)"
    using pl by (simp add: place_connect) (simp add: place_def route_def)
  then have v: "posts (connect e w) = []" "self_ptr (connect e w) = p" "\<not> is_in_ready_queue (connect e w)"
    "(remote_ip (connect e w), remote_port (connect e w)) = key"
    by (simp_all add: place_def route_def)
  have ff: "well_framed (\<lambda>e w. Inr (connect e w))"
    unfolding well_framed_def framed_def using base_inv_connect by auto
  have host: "hosting key w st"
    using h by (simp add: hosting_only_def)
  have c: "Inr (connect (session_env key (base_env se)) w) = Inr (connect e w)"
    by (simp add: e)
  note call = hosting_quiet_call [where f = "\<lambda>e w. Inr (connect e w)", OF host ff c v(1)]
  show "call_session se p (\<lambda>e w. Inr (connect e w)) st = Inr (store_session key (connect e w) st)"
    using call(1) p(1) by simp
  show "hosting_only key (connect e w) (store_session key (connect e w) st)"
    using call(2) h p v by (simp add: hosting_only_def del: split_paired_All)
  have rel: "reliable e (udp w)"
    using w(3) by (simp add: e session_env_callbacks)
  note conn = connect_syn [OF w(1,2) rel]
  show "syn_out e SYN_SENT (gen_initial_seq (base_env se) (iss_calls w)) (connect e w)" "meters (connect e w) = meters w"
    using conn(1,3) by (simp_all add: e session_env_callbacks)
  show "\<exists>q. udp_sends (udp (connect e w)) = udp_sends (udp w) @ [(raw_data q, key)]
      \<and> seg_is q (gen_initial_seq (base_env se) (iss_calls w)) (recv_next (rwnd w)) FLAG_SYN []"
    using conn(2) v(4) by (auto simp: sends_def e session_env_callbacks)
qed

text \<open>The listening stack takes in the SYN.\<close>

lemma stack_accepts:
  assumes st: "stack_inv st" "tcp_sessions st = []" "ready_queue st = []" "reliable (base_env se) (driver st)"
    and cb: "on_receive_callback (driver st) = Stack_listen" and p: "seg_is p seq a FLAG_SYN []"
  shows "\<exists>st' v q. stack_datagram se (raw_data p) (Some key) st = Inr st' \<and> hosting_only key v st'
    \<and> syn_out (session_env key (base_env se)) SYN_RECEIVED (gen_initial_seq (base_env se) (iss_drawn st)) v
    \<and> recv_next (rwnd v) = seq + 1 \<and> meters v = (1, 8, 0, ring_new 1024 0)
    \<and> place v = ((key, Stack_listen), next_object st, False, [], True)
    \<and> udp_sends (udp v) = udp_sends (driver st) @ [(raw_data q, key)]
    \<and> seg_is q (gen_initial_seq (base_env se) (iss_drawn st)) (seq + 1) (FLAG_SYN OR FLAG_ACK) []"
proof -
  have none: "map_find x (tcp_sessions st) = None" for x
    using st(2) by simp
  obtain st' v q where v: "stack_receive se p key st = Inr st'" "map_find key (tcp_sessions st') = Some (tcp_session.truncate v)"
    "driver st' = udp v" "iss_drawn st' = iss_calls v" "place v = ((key, Stack_listen), next_object st, False, [], True)"
    "meters v = (1, 8, 0, ring_new 1024 0)" "ready_queue st' = []"
    "\<forall>x. x \<noteq> key \<longrightarrow> map_find x (tcp_sessions st') = map_find x (tcp_sessions st)"
    "syn_out (session_env key (base_env se)) SYN_RECEIVED (gen_initial_seq (base_env se) (iss_drawn st)) v"
    "recv_next (rwnd v) = seq + 1" "udp_sends (driver st') = udp_sends (driver st) @ [(raw_data q, key)]"
    "seg_is q (gen_initial_seq (base_env se) (iss_drawn st)) (seq + 1) (FLAG_SYN OR FLAG_ACK) []"
    using syn_creates [OF st(1) none [of key] st(4) p] unfolding cb st(3) by (elim exE conjE) blast
  have "stack_inv st'"
    using receive_keeps [OF st(1), of se p key] v(1) by simp
  then have "hosting_only key v st'"
    using v(2-5,7,8) none by (simp add: hosting_only_def hosting_def place_def del: split_paired_All)
  moreover have "stack_datagram se (raw_data p) (Some key) st = Inr st'"
    using v(1) cb by (simp add: stack_datagram_def on_uv_recv_def seg_wire [OF p])
  ultimately show ?thesis
    using v(3,5,6,9-12) by auto
qed

text \<open>The SYN+ACK reaches the connecting session; the last acknowledgement the accepting one.\<close>

lemma client_answered:
  assumes h: "hosting_only key v st" and pl: "place v = ((key, Session_input p), p, False, [], ac)"
    and v: "syn_out (session_env key (base_env se)) SYN_SENT isn v" and q: "seg_is q seq (isn + 1) (FLAG_SYN OR FLAG_ACK) []"
  shows "\<exists>st' w q'. stack_datagram se (raw_data q) (Some key) st = Inr st' \<and> hosting_only key w st'
    \<and> idle (session_env key (base_env se)) ESTABLISHED (isn + 1) (seq + 1) w
    \<and> udp_sends (udp w) = udp_sends (udp v) @ [(raw_data q', key)] \<and> seg_is q' (isn + 1) (seq + 1) FLAG_ACK []"
proof -
  let ?e = "session_env key (base_env se)"
  obtain w where w: "input ?e q v = Inr w" "idle ?e ESTABLISHED (isn + 1) (seq + 1) w" "place w = place v"
    and s: "sends v w (isn + 1) (seq + 1) FLAG_ACK []"
    using input_syn_sent [OF session_env_quiet v q] by (auto simp: session_env_callbacks)
  have pw: "posts w = []" "(remote_ip w, remote_port w) = key"
    using w(3) pl by (simp_all add: place_def route_def)
  have cb: "on_receive_callback (udp v) \<in> {Stack_listen, Session_input (self_ptr v)}"
    using pl by (simp add: place_def route_def)
  obtain st' where "stack_datagram se (raw_data q) (Some key) st = Inr st'" "hosting_only key w st'"
    using hosting_only_datagram [OF h cb seg_wire [OF q] w(1) pw(1)] by blast
  then show ?thesis
    using w(2) s pw(2) by (auto simp: sends_def)
qed

lemma server_confirmed:
  assumes h: "hosting_only key u st" and pl: "place u = ((key, Stack_listen), p, False, [], ac)"
    and u: "syn_out (session_env key (base_env se)) SYN_RECEIVED isn u" and q: "seg_is q seq (isn + 1) FLAG_ACK data"
  shows "\<exists>st' x. stack_datagram se (raw_data q) (Some key) st = Inr st' \<and> hosting_only key x st'
    \<and> idle (session_env key (base_env se)) ESTABLISHED (isn + 1) (recv_next (rwnd u)) x \<and> place x = place u
    \<and> udp x = udp u \<and> meters x = meters u"
proof -
  let ?e = "session_env key (base_env se)"
  obtain x where x: "input ?e q u = Inr x" "idle ?e ESTABLISHED (isn + 1) (recv_next (rwnd u)) x" "place x = place u"
    "udp x = udp u" "meters x = meters u"
    using input_syn_received [OF session_env_quiet u q] by (auto simp: session_env_callbacks)
  have px: "posts x = []"
    using x(3) pl by (simp add: place_def)
  have cb: "on_receive_callback (udp u) \<in> {Stack_listen, Session_input (self_ptr u)}"
    using pl by (simp add: place_def route_def)
  show ?thesis
    using hosting_only_datagram [OF h cb seg_wire [OF q] x(1) px] x(2-5) by blast
qed

lemma idle_at_rest:
  "idle e ESTABLISHED m t w \<Longrightarrow> state (tcp_session.truncate w) = ESTABLISHED
     \<and> send_next (swnd (tcp_session.truncate w)) = m \<and> send_unack (swnd (tcp_session.truncate w)) = m
     \<and> recv_next (rwnd (tcp_session.truncate w)) = t"
  by (simp add: idle_def tcp_session.truncate_def)

text \<open>
  C34: Two stacks connect. One new stack creates a session and connects it, the other listens,
  and neither driver loses what it sends. Each of the three datagrams is addressed to the other
  side and handed to the stack there; then both sessions are ESTABLISHED, stored under the
  address that the other side's datagrams came from, each expects the number the other sends
  next, and nothing is unacknowledged. Nothing else has been sent. The initial sequence numbers
  may be any.
\<close>

theorem stacks_connect:
  assumes "reliable (base_env sc) (driver (new_stack ip1 port1))" and "reliable (base_env ss) (driver (new_stack ip2 port2))"
  shows "\<exists>c1 s1 c2 s2 c s b1 b2 b3.
      stack_run sc [Se_create there, Se_call 0 Ev_connect] (new_stack ip1 port1) = Inr c1
    \<and> udp_sends (driver c1) = [(b1, there)]
    \<and> stack_run ss [Se_listen, Se_datagram b1 (Some here)] (new_stack ip2 port2) = Inr s1
    \<and> udp_sends (driver s1) = [(b2, here)]
    \<and> stack_run sc [Se_datagram b2 (Some there)] c1 = Inr c2
    \<and> udp_sends (driver c2) = [(b1, there), (b3, there)]
    \<and> stack_run ss [Se_datagram b3 (Some here)] s1 = Inr s2
    \<and> udp_sends (driver s2) = [(b2, here)]
    \<and> map_find there (tcp_sessions c2) = Some c \<and> state c = ESTABLISHED
    \<and> map_find here (tcp_sessions s2) = Some s \<and> state s = ESTABLISHED
    \<and> send_next (swnd c) = recv_next (rwnd s) \<and> recv_next (rwnd c) = send_next (swnd s)
    \<and> send_unack (swnd c) = send_next (swnd c) \<and> send_unack (swnd s) = send_next (swnd s)"
proof -
  let ?x = "gen_initial_seq (base_env sc) 0" and ?y = "gen_initial_seq (base_env ss) 0"
  let ?ec = "session_env there (base_env sc)" and ?es = "session_env here (base_env ss)"
  let ?c0 = "snd (create_session sc there (new_stack ip1 port1))"
  obtain w0 where w0: "hosting_only there w0 ?c0" "base_inv w0" "qsize (send_buffer w0) = 0" "udp w0 = driver (new_stack ip1 port1)"
    "iss_calls w0 = 0" "recv_next (rwnd w0) = 0"
    "place w0 = ((there, on_receive_callback (driver (new_stack ip1 port1))), 0, False, [], True)"
    using stack_created(2) [of there sc ip1 port1] by blast
  let ?v = "connect ?ec w0"
  let ?c1 = "store_session there ?v ?c0"
  have new: "udp_sends (driver (new_stack ip port)) = []" for ip port
    by (simp add: new_stack_def driver_init_def new_driver_def)
  note conn = stack_connects [OF w0(1-3) _ w0(7) refl, of sc, unfolded w0(4-6) new, OF assms(1)]
  obtain q1 where q1: "udp_sends (udp ?v) = [(raw_data q1, there)]" "seg_is q1 ?x 0 FLAG_SYN []"
    using conn(6) by auto
  have run_c1: "stack_run sc [Se_create there, Se_call 0 Ev_connect] (new_stack ip1 port1) = Inr ?c1"
    using conn(1) by simp
  let ?s0 = "stack_listen (new_stack ip2 port2)"
  have s0: "stack_inv ?s0" "tcp_sessions ?s0 = []" "ready_queue ?s0 = []" "reliable (base_env ss) (driver ?s0)"
    "on_receive_callback (driver ?s0) = Stack_listen" "iss_drawn ?s0 = 0" "udp_sends (driver ?s0) = []"
    using new_stack_inv [of ip2 port2] assms(2)
    by (simp_all add: stack_listen_def stack_inv_def stack_ok_def)
      (simp_all add: new_stack_def driver_init_def new_driver_def set_on_receive_def)
  obtain s1 u q2 where dat_s1: "stack_datagram ss (raw_data q1) (Some here) ?s0 = Inr s1" and u: "hosting_only here u s1"
    "syn_out ?es SYN_RECEIVED ?y u" "recv_next (rwnd u) = ?x + 1" "place u = ((here, Stack_listen), next_object ?s0, False, [], True)"
    and q2: "udp_sends (udp u) = [(raw_data q2, here)]" "seg_is q2 ?y (?x + 1) (FLAG_SYN OR FLAG_ACK) []"
    using stack_accepts [OF s0(1-5) q1(2)] unfolding s0(6,7) append_Nil by blast
  have run_s1: "stack_run ss [Se_listen, Se_datagram (raw_data q1) (Some here)] (new_stack ip2 port2) = Inr s1"
    using dat_s1 by simp
  obtain c2 w q3 where dat_c2: "stack_datagram sc (raw_data q2) (Some there) ?c1 = Inr c2" and w: "hosting_only there w c2"
    "idle ?ec ESTABLISHED (?x + 1) (?y + 1) w"
    and q3: "udp_sends (udp w) = [(raw_data q1, there), (raw_data q3, there)]" "seg_is q3 (?x + 1) (?y + 1) FLAG_ACK []"
    using client_answered [OF conn(2,4,3) q2(2)] unfolding q1(1) append_Cons append_Nil by blast
  obtain s2 x where dat_s2: "stack_datagram ss (raw_data q3) (Some here) s1 = Inr s2" and x: "hosting_only here x s2"
    "idle ?es ESTABLISHED (?y + 1) (?x + 1) x" "udp x = udp u"
    using server_confirmed [OF u(1,4,2) q3(2)] unfolding u(3) by blast
  have sent: "udp_sends (driver ?c1) = [(raw_data q1, there)]" "udp_sends (driver s1) = [(raw_data q2, here)]"
    "udp_sends (driver c2) = [(raw_data q1, there), (raw_data q3, there)]" "udp_sends (driver s2) = [(raw_data q2, here)]"
    and found: "map_find there (tcp_sessions c2) = Some (tcp_session.truncate w)" "map_find here (tcp_sessions s2) = Some (tcp_session.truncate x)"
    using q1(1) q2(1) q3(1) u(1) w(1) x(1,3) by (simp_all add: hosting_only_def hosting_def)
  have run_c2: "stack_run sc [Se_datagram (raw_data q2) (Some there)] ?c1 = Inr c2"
    and run_s2: "stack_run ss [Se_datagram (raw_data q3) (Some here)] s1 = Inr s2"
    using dat_c2 dat_s2 by simp_all
  note cw = idle_at_rest [OF w(2)] and cx = idle_at_rest [OF x(2)]
  show ?thesis
    by (intro exI conjI, rule run_c1, rule sent(1), rule run_s1, rule sent(2), rule run_c2, rule sent(3), rule run_s2, rule sent(4), rule found(1),
        rule cw [THEN conjunct1], rule found(2), rule cx [THEN conjunct1]) (simp_all only: cw cx)
qed

theorem stacks_connect_witness:
  "\<exists>c1 s1 c2 c b1 b2. stack_run example_stack_env [Se_create (''10.0.0.2'', 80), Se_call 0 Ev_connect] (new_stack ''10.0.0.1'' 5000) = Inr c1
    \<and> stack_run example_stack_env [Se_listen, Se_datagram b1 (Some (''10.0.0.1'', 5000))] (new_stack ''10.0.0.2'' 80) = Inr s1
    \<and> stack_run example_stack_env [Se_datagram b2 (Some (''10.0.0.2'', 80))] c1 = Inr c2
    \<and> udp_sends (driver c1) = [(b1, (''10.0.0.2'', 80))] \<and> udp_sends (driver s1) = [(b2, (''10.0.0.1'', 5000))]
    \<and> map_find (''10.0.0.2'', 80) (tcp_sessions c2) = Some c \<and> state c = ESTABLISHED"
proof -
  have "reliable (base_env example_stack_env) (driver (new_stack ip port))" for ip port
    using example_reliable
    by (simp add: example_stack_env_def new_stack_def driver_init_def new_driver_def reliable_def)
  from stacks_connect [OF this this] show ?thesis
    by blast
qed

end
