(* ===== verification/State_Graph.thy ===== *)
theory State_Graph
  imports Data_Transfer
begin

text \<open>
  The life of a connection as a graph of states: which moves there are between two openings,
  what guards the important ones, and that the graph has no way back.
\<close>

section \<open>The graph\<close>

inductive edge :: "tcp_state \<Rightarrow> tcp_state \<Rightarrow> bool" where
  request: "edge LISTEN SYN_RECEIVED"
| crossing: "edge SYN_SENT SYN_RECEIVED"
| answered: "edge SYN_SENT ESTABLISHED"
| confirmed: "edge SYN_RECEIVED ESTABLISHED"
| half_closed: "edge ESTABLISHED CLOSE_WAIT"
| closing: "edge ESTABLISHED FIN_WAIT_1"
| fin_acked: "edge FIN_WAIT_1 FIN_WAIT_2"
| both_closing: "edge FIN_WAIT_1 CLOSE_WAIT"
| fin_received: "edge FIN_WAIT_2 TIME_WAIT"
| last_fin: "edge CLOSE_WAIT LAST_ACK"
| ended: "s \<noteq> CLOSED \<Longrightarrow> edge s CLOSED"

code_pred edge .

inductive_cases edge_from_closed [elim!]: "edge CLOSED s"

inductive_simps edge_to_established: "edge s ESTABLISHED"

inductive_simps edge_from_time_wait: "edge TIME_WAIT s"

text \<open>How far a connection has come.\<close>

fun stage :: "tcp_state \<Rightarrow> nat" where
  "stage LISTEN = 0"
| "stage SYN_SENT = 0"
| "stage SYN_RECEIVED = 1"
| "stage ESTABLISHED = 2"
| "stage FIN_WAIT_1 = 3"
| "stage FIN_WAIT_2 = 4"
| "stage CLOSE_WAIT = 4"
| "stage LAST_ACK = 5"
| "stage TIME_WAIT = 5"
| "stage CLOSED = 6"

lemma stage_less_closed: "s \<noteq> CLOSED \<Longrightarrow> stage s < stage CLOSED"
  by (cases s) simp_all

lemma edge_forward: "edge s s' \<Longrightarrow> stage s < stage s'"
  by (induction rule: edge.induct) (simp_all add: stage_less_closed [simplified])

lemma path_forward: "edge\<^sup>*\<^sup>* s s' \<Longrightarrow> s' = s \<or> stage s < stage s'"
  by (induction rule: rtranclp_induct) (auto dest: edge_forward)

section \<open>Sessions move along the graph\<close>

definition not_opening :: "event \<Rightarrow> bool" where
  "not_opening ev \<longleftrightarrow> ev \<noteq> Ev_connect \<and> ev \<noteq> Ev_listen"

lemma segment_edge: "segment_state p w = state w \<or> edge (state w) (segment_state p w)"
  by (cases "state w") (auto simp: segment_state_def Let_def intro: edge.intros)

lemma event_edge:
  assumes "not_opening ev"
  shows "event_state ev w = state w \<or> edge (state w) (event_state ev w)"
proof (cases ev)
  case (Ev_input p)
  then show ?thesis
    using segment_edge [of p w] by (auto simp: input_state_def intro: ended)
qed (use assms in \<open>cases "state w"; auto simp: not_opening_def intro: edge.intros split: option.split uv_callback.split\<close>)+

interpretation graph: simulation "session_step e" "session_run e" snd
    "\<lambda>w. quiet_env e \<and> base_inv w" not_opening state edge for e
proof unfold_locales
  fix ev w r
  assume "quiet_env e \<and> base_inv w" and ev: "not_opening ev" and r: "session_step e ev w = Inr r"
  then show "(quiet_env e \<and> base_inv (snd r)) \<and> (state (snd r) = state w \<or> edge (state w) (state (snd r)))"
    using event_state_correct [of e w ev] event_edge [OF ev, of w]
    by (auto simp: returns_def in_state_def)
qed

section \<open>Properties\<close>

text \<open>
  C14: The moves are guarded. A session becomes established only by a segment with a good
  checksum that acknowledges exactly the session's own SYN, in SYN_RECEIVED, or in SYN_SENT
  together with the peer's SYN. It leaves TIME_WAIT only by the expiry of the 2MSL timer, by a
  reset or by a new opening.
\<close>

theorem guarded_transitions:
  assumes "quiet_env e" and "base_inv w" and "session_step e ev w = Inr (b, w')" and "state w' \<noteq> state w"
  shows "(state w' = ESTABLISHED \<longrightarrow> (\<exists>p. ev = Ev_input p \<and> verify_checksum p \<and> has_flag p FLAG_ACK
             \<and> ntohl (ack_num (header p)) = send_unack (swnd w) + 1
             \<and> (state w = SYN_RECEIVED \<or> state w = SYN_SENT \<and> has_flag p FLAG_SYN)))
    \<and> (state w = TIME_WAIT \<longrightarrow>
         (\<exists>h t. ev = Ev_timer h \<and> armed (tmgr w) h = Some (On_2msl, t))
         \<or> (\<exists>p. ev = Ev_input p \<and> verify_checksum p \<and> has_flag p FLAG_RST) \<or> ev = Ev_connect)"
proof -
  have s: "state w' = event_state ev w"
    using event_state_correct [OF assms(1,2), of ev] assms(3) by (simp add: in_state_def)
  show ?thesis
    using assms(4) unfolding s
    by (cases ev; cases "state w")
      (auto simp: input_state_def segment_state_def acks_next_def Let_def split: option.splits uv_callback.splits if_splits)
qed

text \<open>A session waiting for the acknowledgement of its SYN, and that acknowledgement.\<close>

definition example_syn_received :: world where
  "example_syn_received = (example_established 1000 2000)\<lparr>state := SYN_RECEIVED\<rparr>"

definition example_ack :: tcp_packet where
  "example_ack = segment example_env 1001 FLAG_ACK [] (example_established 2000 0)"

lemma example_confirmed:
  "\<exists>b w'. session_step example_env (Ev_input example_ack) example_syn_received = Inr (b, w') \<and> state w' = ESTABLISHED"
proof -
  have p: "seg_is example_ack 2000 1001 FLAG_ACK []"
    using segment_is [of "[]" example_env 1001 FLAG_ACK "example_established 2000 0"]
    by (simp add: example_established_def example_ack_def)
  have w: "state example_syn_received = SYN_RECEIVED" "send_unack (swnd example_syn_received) = 1000"
    by (simp_all add: example_syn_received_def example_established_def)
  have b: "base_inv example_syn_received"
    using example_established_idle [of 1000 2000] by (simp add: idle_def example_syn_received_def base_inv_def)
  have "verify_checksum example_ack" "ntohl (ack_num (header example_ack)) = 1001"
    using p by (simp_all add: seg_is_def)
  then have "event_state (Ev_input example_ack) example_syn_received = ESTABLISHED"
    using w by (simp add: input_state_def segment_state_def acks_next_def seg_is_flag [OF p] flag_values)
  then show ?thesis
    using event_state_correct [OF example_quiet b, of "Ev_input example_ack"] by (auto simp: returns_def in_state_def)
qed

theorem guarded_transitions_witness:
  "\<exists>b w'. session_step example_env (Ev_input example_ack) example_syn_received = Inr (b, w') \<and> state w' = ESTABLISHED
    \<and> has_flag example_ack FLAG_ACK \<and> ntohl (ack_num (header example_ack)) = send_unack (swnd example_syn_received) + 1"
proof -
  obtain b w' where r: "session_step example_env (Ev_input example_ack) example_syn_received = Inr (b, w')"
    and s: "state w' = ESTABLISHED"
    using example_confirmed by blast
  have base: "base_inv example_syn_received" and "state example_syn_received = SYN_RECEIVED"
    using example_established_idle [of 1000 2000] by (simp_all add: idle_def example_syn_received_def base_inv_def)
  then have "state w' \<noteq> state example_syn_received"
    using s by simp
  from guarded_transitions [OF example_quiet base r this] show ?thesis
    using r s by auto
qed

text \<open>
  C16: A connection only moves forward. Between two openings, whatever happens, the states a
  session passes form a path in the graph, so that the session ends where it began or at a
  strictly later stage: a connection that has begun to close is never established again, and
  one that is closed stays closed.
\<close>

theorem connection_moves_forward:
  assumes "quiet_env e" and "base_inv w" and "list_all not_opening evs" and "session_run e evs w = Inr (bytes, w')"
  shows "edge\<^sup>*\<^sup>* (state w) (state w') \<and> (state w' = state w \<or> stage (state w) < stage (state w'))"
  using graph.run_simulated [OF assms(4,3)] assms(1,2) path_forward by auto

theorem connection_moves_forward_witness:
  "\<exists>bytes w'. session_run example_env [Ev_input example_ack] example_syn_received = Inr (bytes, w')
    \<and> edge\<^sup>*\<^sup>* SYN_RECEIVED (state w') \<and> stage SYN_RECEIVED < stage (state w')"
proof -
  obtain bytes w' where r: "session_run example_env [Ev_input example_ack] example_syn_received = Inr (bytes, w')"
    and s: "state w' = ESTABLISHED"
    using example_confirmed by force
  have base: "base_inv example_syn_received" and w: "state example_syn_received = SYN_RECEIVED"
    using example_established_idle [of 1000 2000] by (simp_all add: idle_def example_syn_received_def base_inv_def)
  have ok: "list_all not_opening [Ev_input example_ack]"
    by (simp add: not_opening_def)
  from connection_moves_forward [OF example_quiet base ok r] show ?thesis
    using r s w by auto
qed

end
