(* ===== verification/Reception.thy ===== *)
theory Reception
  imports Data_Transfer
begin

text \<open>
  What a session does with data segments: those in order, those out of order, those that do
  not fit, and those that arrive when the session no longer takes data.
\<close>

section \<open>Segments in an established session\<close>

lemma push_batch_contents:
  assumes "ring_ok q"
  shows "ring_contents (snd (push_batch d q)) = (if qsize q + length d \<le> capacity q then ring_contents q @ d else ring_contents q)"
proof (cases "qsize q + length d \<le> capacity q")
  case True
  then have "fst (push_batch d q)"
    using rq.put_fst [OF assms, of d] by simp
  then show ?thesis
    using True rq.put_contents [OF assms, of d] by simp
next
  case False
  then have "\<not> fst (push_batch d q)"
    using rq.put_fst [OF assms, of d] by simp
  then show ?thesis
    using False by (auto simp: push_batch_def split: if_splits)
qed

text \<open>
  C18: Incoming data. A segment in order whose bytes fit is appended to the receive buffer and
  acknowledged by the number after its last byte. One that does not fit, or one out of order
  on either side, changes nothing of what was received, and the acknowledgement repeats the
  number expected. Nothing is ever kept for later, and exactly one acknowledgement is sent.
\<close>

theorem incoming_segment:
  assumes "base_inv w" and "reliable e (udp w)"
  shows "\<exists>w'. handle_incoming_packet e p w = Inr (ntohl (seq_num (header p)) = recv_next (rwnd w), w')
    \<and> (let fits = (ntohl (seq_num (header p)) = recv_next (rwnd w) \<and> qsize (recv_buffer w) + length (payload p) \<le> 1024);
           data = (if fits then payload p else [])
       in ring_contents (recv_buffer w') = ring_contents (recv_buffer w) @ data
          \<and> recv_next (rwnd w') = recv_next (rwnd w) + of_nat (length data)
          \<and> sends w w' (send_next (swnd w)) (recv_next (rwnd w')) FLAG_ACK [])
    \<and> ooo_map w' = [] \<and> state w' = state w \<and> swnd w' = swnd w \<and> base_inv w'"
proof -
  let ?u = "accept_in_order (payload p) w"
  have ok: "ring_ok (recv_buffer w)" and cap: "capacity (recv_buffer w) = 1024"
    using assms(1) by (simp_all add: base_inv_def base_ok_def)
  have u: "base_inv ?u" and same: "udp ?u = udp w" "swnd ?u = swnd w" "state ?u = state w"
    using base_inv_accept_in_order [OF assms(1)] by (simp_all add: accept_in_order_eq)
  have fst: "fst (push_batch (payload p) (recv_buffer w)) \<longleftrightarrow> qsize (recv_buffer w) + length (payload p) \<le> 1024"
    using rq.put_fst [OF ok, of "payload p"] cap by simp
  have con: "ring_contents (recv_buffer ?u) = ring_contents (recv_buffer w)
      @ (if qsize (recv_buffer w) + length (payload p) \<le> 1024 then payload p else [])"
    and nxt: "recv_next (rwnd ?u) = recv_next (rwnd w)
      + of_nat (length (if qsize (recv_buffer w) + length (payload p) \<le> 1024 then payload p else []))"
    using fst push_batch_contents [OF ok, of "payload p"] cap by (auto simp: accept_in_order_eq)
  have ack: "sends w (send_pure_ack e a ?u) (send_next (swnd w)) a FLAG_ACK []"
    "sends w (send_pure_ack e a w) (send_next (swnd w)) a FLAG_ACK []" for a
    using sends_pure_ack [of e ?u w a] sends_pure_ack [of e w w a] assms(2) same by simp_all
  show ?thesis
    using assms(1) u same con nxt ack
    by (cases "ntohl (seq_num (header p)) = recv_next (rwnd w)")
      (auto simp: handle_incoming_eq Let_def base_inv_ooo_map)
qed

theorem incoming_segment_witness:
  "\<exists>w'. handle_incoming_packet example_env (segment example_env 1000 FLAG_ACK [7, 8, 9] (example_established 2000 1000))
        (example_established 1000 2000) = Inr (True, w')
    \<and> ring_contents (recv_buffer w') = [7, 8, 9] \<and> recv_next (rwnd w') = 2003
    \<and> sends (example_established 1000 2000) w' 1000 2003 FLAG_ACK []"
proof -
  let ?w = "example_established 1000 2000" and ?p = "segment example_env 1000 FLAG_ACK [7, 8, 9] (example_established 2000 1000)"
  have w: "base_inv ?w" "reliable example_env (udp ?w)"
    using example_established_idle [of 1000 2000] by (simp_all add: idle_def)
  have f: "recv_next (rwnd ?w) = 2000" "send_next (swnd ?w) = 1000" "qsize (recv_buffer ?w) = 0"
    "ring_contents (recv_buffer ?w) = []" "send_next (swnd (example_established 2000 1000)) = 2000"
    by (simp_all add: example_established_def enter_world_new ring_simps ring_new_def ring_contents_def)
  show ?thesis
    using incoming_segment [OF w, of ?p] by (simp add: f Let_def) metis
qed

section \<open>Segments after the end\<close>

lemma input_after_fin:
  assumes w: "idle e CLOSE_WAIT m t w" and p: "seg_is p seq a FLAG_ACK data" and u: "\<not> user_want_to_close w"
  shows "\<exists>w'. input e p w = Inr w' \<and> idle e CLOSE_WAIT m t w' \<and> recv_buffer w' = recv_buffer w
    \<and> sends w w' m t FLAG_ACK []"
proof -
  let ?w = "w\<lparr>peer_usable_window_size := ucast (ntohs (window_size (header p)))\<rparr>"
  let ?v = "send_pure_ack e t ?w"
  have "verify_checksum p"
    using p by (simp add: seg_is_def)
  moreover have v: "idle e CLOSE_WAIT m t ?v"
    using w by (simp add: idle_def)
  ultimately have "input e p w = Inr ?v"
    using w u idle_try_send [OF v, of e]
    by (simp add: input_accepted handle_close_wait_def Let_def seg_is_flag [OF p] flag_values idle_def)
  moreover have "sends w ?v m t FLAG_ACK []"
    using sends_pure_ack [of e ?w w t] w by (simp add: idle_def)
  ultimately show ?thesis
    using v by simp
qed

text \<open>
  A FIN ahead of its data loses the data. When the FIN that follows a data segment is
  delivered first, the receiver takes it in whatever its number is: it acknowledges the data
  it has not got, together with the FIN, and goes to CLOSE_WAIT. The data segment that
  arrives afterwards is acknowledged again and never reaches the receive buffer.
\<close>

theorem early_fin_loses_data:
  assumes "quiet_env e" and "idle e ESTABLISHED m t w" and "\<not> user_want_to_close w"
    and "seg_is f (t + of_nat (length data)) a FLAG_FIN []" and "seg_is p t a FLAG_ACK data"
  shows "\<exists>w1 w2. input e f w = Inr w1 \<and> state w1 = CLOSE_WAIT
    \<and> sends w w1 m (t + of_nat (length data) + 1) FLAG_ACK []
    \<and> input e p w1 = Inr w2 \<and> state w2 = CLOSE_WAIT \<and> recv_buffer w2 = recv_buffer w
    \<and> sends w1 w2 m (t + of_nat (length data) + 1) FLAG_ACK []"
proof -
  obtain w1 where w1: "input e f w = Inr w1" "idle e CLOSE_WAIT m (t + of_nat (length data) + 1) w1"
    "sends w w1 m (t + of_nat (length data) + 1) FLAG_ACK []" "recv_buffer w1 = recv_buffer w" "\<not> user_want_to_close w1"
    using input_fin [OF assms(1,2,4)] assms(3) by blast
  then show ?thesis
    using input_after_fin [OF w1(2) assms(5) w1(5)] by (auto simp: idle_def)
qed

theorem early_fin_loses_data_witness:
  "\<exists>w1 w2. input example_env (segment example_env 1000 FLAG_FIN [] (example_established 2003 1000))
        (example_established 1000 2000) = Inr w1
    \<and> sends (example_established 1000 2000) w1 1000 2004 FLAG_ACK []
    \<and> input example_env (segment example_env 1000 FLAG_ACK [7, 8, 9] (example_established 2000 1000)) w1 = Inr w2
    \<and> recv_buffer w2 = recv_buffer (example_established 1000 2000)"
proof -
  have f: "seg_is (segment example_env 1000 FLAG_FIN [] (example_established 2003 1000))
      (2000 + of_nat (length [7, 8, 9 :: u8])) 1000 FLAG_FIN []"
    using segment_is [of "[]" example_env 1000 FLAG_FIN "example_established 2003 1000"]
    by (simp add: example_established_def)
  have p: "seg_is (segment example_env 1000 FLAG_ACK [7, 8, 9] (example_established 2000 1000)) 2000 1000 FLAG_ACK [7, 8, 9]"
    using segment_is [of "[7, 8, 9]" example_env 1000 FLAG_ACK "example_established 2000 1000"]
    by (simp add: example_established_def)
  have u: "\<not> user_want_to_close (example_established 1000 2000)"
    by (simp add: example_established_def enter_world_new)
  show ?thesis
    using early_fin_loses_data [OF example_quiet example_established_idle u f p] by auto
qed

end
