(* ===== verification/Congestion.thy ===== *)
theory Congestion
  imports Loss_Recovery
begin

text \<open>
  The congestion window over the life of a connection: how acknowledgements make it grow and
  what a timeout leaves of it.
\<close>

section \<open>Growth\<close>

lemma grow_cwnd_ssthresh: "ssthresh ((grow_cwnd ^^ k) w) = ssthresh w"
  by (induction k) (simp_all add: grow_cwnd_def Let_def)

lemma grow_cwnd_unat:
  assumes "2 * cwnd w < 2 ^ 32"
  shows "cwnd (grow_cwnd w) = (if cwnd w < unat (ssthresh w) then 2 * cwnd w else cwnd w + 1)"
proof -
  have "cwnd w + 1 < 2 ^ 32"
    using assms by simp
  then show ?thesis
    using assms by (simp add: grow_cwnd_def Let_def cwnd_def word_less_nat_alt unat_word_ariths)
qed

text \<open>Doubling up to a threshold that is a power of two, then one per acknowledgement.\<close>

lemma growth:
  assumes "cwnd w = 1" and "unat (ssthresh w) = 2 ^ j" and "2 * (2 ^ j + k) < 2 ^ 32"
  shows "cwnd ((grow_cwnd ^^ k) w) = (if k \<le> j then 2 ^ k else 2 ^ j + (k - j))"
  using assms(3)
proof (induction k)
  case (Suc k)
  have le: "(2 :: nat) ^ k \<le> 2 ^ j" if "k \<le> j"
    using that by (rule power_increasing) simp
  then have "2 * cwnd ((grow_cwnd ^^ k) w) < 2 ^ 32"
  proof (cases "k \<le> j")
    case True
    have "2 * 2 ^ j < (2 :: nat) ^ 32"
      using Suc.prems by simp
    then have "2 * 2 ^ k < (2 :: nat) ^ 32"
      by (rule le_less_trans [OF mult_le_mono2 [OF le [OF True]]])
    moreover have "cwnd ((grow_cwnd ^^ k) w) = 2 ^ k"
      using Suc True by simp
    ultimately show ?thesis
      by (simp only:)
  qed (use Suc in simp)
  from grow_cwnd_unat [OF this] show ?case
    using Suc assms(2) by (auto simp: grow_cwnd_ssthresh le_Suc_eq power_strict_increasing_iff)
qed (use assms(1) in simp)

section \<open>Timeouts\<close>

lemma expiry_window:
  assumes "rt_count c + 1 < MAX_RETRANSMIT_COUNT"
  shows "cwnd (run_retransmit_closure e c w) = 1"
    and "ssthresh (run_retransmit_closure e c w) = loss_ssthresh (send_window_size (swnd w))"
proof -
  have "\<not> MAX_RETRANSMIT_COUNT \<le> rt_count c + 1"
    using assms by (simp only: not_le)
  then show "cwnd (run_retransmit_closure e c w) = 1"
    and "ssthresh (run_retransmit_closure e c w) = loss_ssthresh (send_window_size (swnd w))"
    by (simp_all add: run_retransmit_closure_def handle_retransmit_def Let_def cwnd_def)
qed

lemma loss_ssthresh_unat:
  assumes "c + 1 \<noteq> 0"
  shows "unat (loss_ssthresh c) = (if even (unat c) then unat c + 1 else (unat c + 1) div 2)"
proof -
  have "unat (c + 1) = unat c + 1"
    using assms unatSuc [of c] by (simp add: add.commute)
  moreover have "c mod 2 \<noteq> 0 \<longleftrightarrow> odd (unat c)"
    by (simp add: unat_eq_0 [symmetric] unat_mod odd_iff_mod_2_eq_one del: unat_eq_0)
  ultimately show ?thesis
    by (simp add: loss_ssthresh_def unat_div)
qed

text \<open>
  Growth of the congestion window: from the initial window of one byte and threshold of
  eight, acknowledgements of new data double the window up to the threshold and then add one
  each; the threshold stays.
\<close>

lemma window_growth:
  assumes "cwnd w = 1" and "ssthresh w = INITIAL_SSTHRESH" and "k < 2 ^ 31 - 8"
  shows "cwnd ((grow_cwnd ^^ k) w) = (if k \<le> 3 then 2 ^ k else 8 + (k - 3))
    \<and> ssthresh ((grow_cwnd ^^ k) w) = INITIAL_SSTHRESH"
  using growth [OF assms(1), of 3 k] assms(2,3) by (simp add: INITIAL_SSTHRESH_def grow_cwnd_ssthresh)

section \<open>Property\<close>

text \<open>
  What a timeout leaves. An expiry that sends a segment again sets the window to one
  byte. The threshold becomes half the window, rounded up, when the window was odd; when it
  was even it becomes one more than the window itself, so that the window may double again
  past the size at which the loss occurred: after \<open>j\<close> acknowledgements a window of \<open>2 ^ j\<close>
  bytes is back where it was.
\<close>

theorem timeout_threshold:
  assumes "rt_count c + 1 < MAX_RETRANSMIT_COUNT" and "cwnd w < 2 ^ 30"
  shows "cwnd (run_retransmit_closure e c w) = 1
    \<and> unat (ssthresh (run_retransmit_closure e c w)) = (if even (cwnd w) then cwnd w + 1 else (cwnd w + 1) div 2)
    \<and> (\<forall>j. 1 \<le> j \<and> cwnd w = 2 ^ j \<longrightarrow> cwnd ((grow_cwnd ^^ j) (run_retransmit_closure e c w)) = cwnd w)"
proof -
  let ?w = "run_retransmit_closure e c w"
  have "send_window_size (swnd w) + 1 \<noteq> 0"
    using assms(2) by (auto simp: cwnd_def dest!: arg_cong [where f = unat] simp: unat_word_ariths)
  from loss_ssthresh_unat [OF this] have th: "unat (ssthresh ?w) = (if even (cwnd w) then cwnd w + 1 else (cwnd w + 1) div 2)"
    by (simp add: expiry_window [OF assms(1)] cwnd_def)
  have "cwnd ((grow_cwnd ^^ i) ?w) = 2 ^ i" if j: "1 \<le> j" "cwnd w = 2 ^ j" and "i \<le> j" for i j
    using \<open>i \<le> j\<close>
  proof (induction i)
    case (Suc i)
    then have IH: "cwnd ((grow_cwnd ^^ i) ?w) = 2 ^ i" and lt: "(2 :: nat) ^ i < 2 ^ j"
      by simp_all
    have "unat (ssthresh ((grow_cwnd ^^ i) ?w)) = 2 ^ j + 1"
      using j th by (simp add: grow_cwnd_ssthresh)
    moreover have "(2 :: nat) ^ i < 2 ^ 30"
      using less_trans [OF lt] assms(2) j(2) by (simp only:)
    ultimately show ?case
      using grow_cwnd_unat [of "(grow_cwnd ^^ i) ?w"] IH lt by simp
  qed (simp add: expiry_window [OF assms(1)])
  then show ?thesis
    using th by (auto simp: expiry_window [OF assms(1)])
qed

theorem timeout_threshold_witness:
  "let w = run_retransmit_closure example_env \<lparr>rt_packet = example_rst, rt_count = 0, rt_ip = ''10.0.0.2'', rt_port = 80\<rparr>
           (example_established 1000 2000)
   in cwnd w = 1 \<and> unat (ssthresh w) = 9 \<and> cwnd ((grow_cwnd ^^ 3) w) = 8"
proof -
  let ?c = "\<lparr>rt_packet = example_rst, rt_count = 0, rt_ip = ''10.0.0.2'', rt_port = 80\<rparr>"
  have c: "rt_count ?c + 1 < MAX_RETRANSMIT_COUNT"
    by (simp add: MAX_RETRANSMIT_COUNT_def)
  have w: "cwnd (example_established 1000 2000) = 8"
    by (simp add: cwnd_def example_established_def)
  show ?thesis
    using timeout_threshold [OF c, of "example_established 1000 2000" example_env] w
    unfolding Let_def by (auto dest: spec [of _ 3])
qed

end
