(* ===== verification/Timer_Bounds.thy ===== *)
theory Timer_Bounds
  imports Fsm_Spec Side_Conditions
begin

text \<open>
  How long timers run: the timeout of every armed timer as a function of its retransmission
  count, and the retransmission timeout itself, which nothing ever changes.
\<close>

section \<open>Bounded timers\<close>

fun timer_bound :: "retransmit_closure uv_callback \<Rightarrow> u64 \<Rightarrow> bool" where
  "timer_bound On_2msl t \<longleftrightarrow> t = 120000"
| "timer_bound (On_timer_uv_tick c) t \<longleftrightarrow> unat (rt_count c) < 5 \<and> t = 1000 * 2 ^ unat (rt_count c)"

definition bounded_timers :: "world \<Rightarrow> bool" where
  "bounded_timers w \<longleftrightarrow> current_rto w = INITIAL_RTO
     \<and> (\<forall>h cb t. armed (tmgr w) h = Some (cb, t) \<longrightarrow> timer_bound cb t)"

lemma bounded_fewer:
  assumes "bounded_timers w" and "\<And>h. armed m h = None \<or> armed m h = armed (tmgr w) h"
  shows "bounded_timers (w\<lparr>tmgr := m\<rparr>)"
proof -
  have "armed m h = Some a \<Longrightarrow> armed (tmgr w) h = Some a" for h a
    using assms(2) [of h] by auto
  then show ?thesis
    using assms(1) unfolding bounded_timers_def by simp blast
qed

lemma bounded_start:
  assumes "bounded_timers w" and "\<And>h. armed m h = None \<or> armed m h = armed (tmgr w) h"
    and "timer_bound (On_timer_uv_tick c) t"
  shows "bounded_timers (w\<lparr>tmgr := start_timer s t c m\<rparr>)"
proof -
  have "armed (start_timer s t c m) h = Some (cb, t') \<Longrightarrow> timer_bound cb t'" for h cb t'
    using assms armed_stop_le [of s m h]
    by (auto simp: bounded_timers_def armed_start_timer split: if_splits) (metis option.distinct(1))
  then show ?thesis
    using assms(1) by (simp add: bounded_timers_def)
qed

interpretation bounds: side_condition bounded_timers
proof unfold_locales
  fix w w' :: world
  show "side_view w' = side_view w \<Longrightarrow> bounded_timers w' = bounded_timers w"
    by (simp add: side_view_def bounded_timers_def)
next
  fix w :: world and c :: retransmit_closure and s
  assume w: "bounded_timers w" and c: "rt_count c = 0"
  then show "bounded_timers (w\<lparr>tmgr := start_timer s (get_timeout_ms w) c (tmgr w)\<rparr>)"
    by (intro bounded_start) (simp_all add: bounded_timers_def get_timeout_ms_def INITIAL_RTO_def)
next
  fix w :: world and h t s and c c' :: retransmit_closure
  assume w: "bounded_timers w" and more: "rt_count c + 1 < MAX_RETRANSMIT_COUNT" and c': "rt_count c' = rt_count c + 1"
  have "unat (rt_count c + 1) < 5"
    using more by (simp add: MAX_RETRANSMIT_COUNT_def word_less_nat_alt)
  moreover have "get_timeout_ms w = 1000"
    using w by (simp add: bounded_timers_def get_timeout_ms_def INITIAL_RTO_def)
  ultimately show "bounded_timers (w\<lparr>tmgr := start_timer s
      (get_timeout_ms w * push_bit (unat (rt_count c + 1)) 1) c' (stop_timer s (tmgr w))\<rparr>)"
    using w by (intro bounded_start armed_stop_le) (simp_all add: c' push_bit_eq_mult)
next
  fix w :: world
  assume w: "bounded_timers w"
  then show "bounded_timers (w\<lparr>tmgr := uv_request (Uv_timer_start Two_msl On_2msl (2 * 60 * 1000)) (tmgr w)\<rparr>)"
    by (auto simp: bounded_timers_def timer_simps)
  show "bounded_timers (w\<lparr>tmgr := uv_request (Uv_timer_stop Two_msl) (tmgr w)\<rparr>)"
    by (rule bounded_fewer [OF w]) (simp add: timer_simps)
qed (erule bounded_fewer, rule armed_stop_le armed_stop_all_le armed_drop_up_to_le)+

lemma bounded_env:
  assumes "quiet_env e"
  shows "env_keeps (kept bounded_timers) e"
proof (rule quiet_env_keeps [OF assms])
  fix w ps b
  show "kept bounded_timers w \<Longrightarrow> kept bounded_timers (w\<lparr>posts := ps, is_in_ready_queue := b\<rparr>)"
    by (simp add: kept_def bounded_timers_def)
next
  fix e' a w
  show "kept bounded_timers w \<Longrightarrow> returns (kept bounded_timers) (default_three_dup_ack e' a w)"
    by (auto simp: default_three_dup_ack_def Let_def bounds.kept_payload bounds.kept_stop split: option.split)
qed

lemma bounded_new: "kept bounded_timers (enter_world (new_session ptr i0 r0 lp rp) d n)"
  by (simp add: kept_def base_inv_new) (simp add: bounded_timers_def enter_world_new new_timer_manager_def armed_def)

section \<open>Property\<close>

text \<open>
  C24: Timers are bounded. In every state a session can reach, an armed retransmission timer
  has been restarted at most four times and runs for one second, doubled once per restart, so
  for at most sixteen seconds; the 2MSL timer runs for two minutes; and the timeout for new
  segments is still the initial one: no measurement of the round-trip time ever changes it.
\<close>

theorem timers_bounded:
  assumes "quiet_env e"
  shows "\<exists>bytes w'. session_run e evs (enter_world (new_session ptr i0 r0 lp rp) d n) = Inr (bytes, w')
    \<and> get_timeout_ms w' = 1000
    \<and> (\<forall>h c t. armed (tmgr w') h = Some (On_timer_uv_tick c, t) \<longrightarrow>
         unat (rt_count c) \<le> 4 \<and> t = 1000 * 2 ^ unat (rt_count c) \<and> 1000 \<le> t \<and> t \<le> 16000)
    \<and> (\<forall>h t. armed (tmgr w') h = Some (On_2msl, t) \<longrightarrow> t = 120000)"
proof -
  obtain bytes w' where run: "session_run e evs (enter_world (new_session ptr i0 r0 lp rp) d n) = Inr (bytes, w')"
    and w': "bounded_timers w'"
    using bounds.kept_run [OF bounded_env [OF assms] bounded_new, of evs ptr i0 r0 lp rp d n]
    by (auto simp: returns_def kept_def)
  have range: "(1000 :: u64) \<le> 1000 * 2 ^ k \<and> 1000 * 2 ^ k \<le> (16000 :: u64)" if "k < 5" for k :: nat
  proof -
    have "k \<in> {0, 1, 2, 3, 4}"
      using that by auto
    then show ?thesis
      by auto
  qed
  have "timer_bound cb t" if "armed (tmgr w') h = Some (cb, t)" for h cb t
    using w' that unfolding bounded_timers_def by blast
  then show ?thesis
    using run w' range by (fastforce simp: bounded_timers_def get_timeout_ms_def INITIAL_RTO_def)
qed

theorem timers_bounded_witness:
  "\<exists>bytes w'. session_run example_env [Ev_connect, Ev_timer (Seq_timer 0)]
      (enter_world (new_session 0 5 6 0 0) new_driver 0) = Inr (bytes, w')
    \<and> get_timeout_ms w' = 1000"
proof -
  have "quiet_env example_env"
    unfolding example_env_def by (rule session_env_quiet)
  from timers_bounded [OF this] show ?thesis
    by blast
qed

end
