(* ===== verification/Internet_Checksum.thy ===== *)
theory Internet_Checksum
  imports Checksum
begin

text \<open>
  The checksum of RFC 1071, which the comments of \<open>_calculate_checksum\<close> refer to, as a
  reference: one's complement addition of 16-bit words in network byte order, one word at a
  time with the carry brought round. The program adds words in host order into 32 bits and
  folds once at the end; the two agree.
\<close>

section \<open>The reference\<close>

definition ones_add :: "u16 \<Rightarrow> u16 \<Rightarrow> u16" where
  "ones_add a b = (let s = a + b in if s < a then s + 1 else s)"

fun ones_sum :: "u8 list \<Rightarrow> u16" where
  "ones_sum (hi # lo # bs) = ones_add (le16_of lo hi) (ones_sum bs)"
| "ones_sum [hi] = le16_of 0 hi"
| "ones_sum [] = 0"

section \<open>Sums modulo 65535\<close>

definition residue :: "nat \<Rightarrow> nat" where
  "residue n = (if n = 0 then 0 else (n - 1) mod 65535 + 1)"

lemma residue_bound: "residue n < 65536"
  by (simp add: residue_def less_Suc_eq_le)

lemma residue_0 [simp]: "residue n = 0 \<longleftrightarrow> n = 0"
  by (simp add: residue_def)

lemma residue_of_0 [simp]: "residue 0 = 0"
  by simp

lemma residue_small: "n < 65536 \<Longrightarrow> residue n = n"
  by (simp add: residue_def)

lemma residue_cong: "residue n mod 65535 = n mod 65535"
proof (cases n)
  case (Suc m)
  then show ?thesis
    by (simp add: residue_def mod_Suc_eq)
qed (simp add: residue_def)

text \<open>The residue is the only representative between 1 and 65535, except for zero.\<close>

lemma residue_unique:
  assumes "a mod 65535 = b mod (65535 :: nat)" and "a < 65536" and "b < 65536" and "a = 0 \<longleftrightarrow> b = 0"
  shows "a = b"
proof -
  have "x mod 65535 = (if x = 65535 then 0 else x)" if "x < 65536" for x :: nat
    using that by auto
  then show ?thesis
    using assms by (metis (full_types))
qed

lemma residue_add: "residue (residue m + n) = residue (m + n)"
proof (rule residue_unique)
  have "(residue m + n) mod 65535 = (m + n) mod 65535"
    by (rule mod_add_cong [OF residue_cong refl])
  then show "residue (residue m + n) mod 65535 = residue (m + n) mod 65535"
    by (simp only: residue_cong)
qed (simp_all add: residue_bound)

lemma unat_u16_bound: "unat (w :: u16) < 65536"
  using unsigned_less [of w, where ?'a = nat] by simp

lemma ones_add_unat: "unat (ones_add a b) = residue (unat a + unat b)"
proof -
  have s: "unat (a + b) = (unat a + unat b) mod 65536"
    by (simp add: unat_word_ariths)
  show ?thesis
  proof (cases "unat a + unat b < 65536")
    case True
    then have "\<not> a + b < a"
      using s by (simp add: word_less_nat_alt)
    then show ?thesis
      using True s by (simp add: ones_add_def residue_small)
  next
    case False
    let ?r = "unat a + unat b - 65536"
    have r: "unat (a + b) = ?r" "?r < unat a" "?r < 65535"
      using s False unat_u16_bound [of a] unat_u16_bound [of b] by (simp_all add: mod_if)
    then have "unat (a + b + 1) = ?r + 1"
      by (simp add: unat_word_ariths)
    moreover have "residue (unat a + unat b) = ?r + 1"
      using False r by (simp add: residue_def mod_if)
    ultimately show ?thesis
      using r by (simp add: ones_add_def word_less_nat_alt)
  qed
qed

section \<open>Byte order\<close>

text \<open>The sum of the words in network order.\<close>

fun net_sum :: "u8 list \<Rightarrow> nat" where
  "net_sum (hi # lo # bs) = 256 * unat hi + unat lo + net_sum bs"
| "net_sum [hi] = 256 * unat hi"
| "net_sum [] = 0"

lemma ones_sum_unat: "unat (ones_sum bs) = residue (net_sum bs)"
proof (induction bs rule: ones_sum.induct)
  case (1 hi lo bs)
  then show ?case
    using residue_add [of "net_sum bs" "unat (le16_of lo hi)"]
    by (simp add: ones_add_unat unat_le16_of add.commute add.left_commute)
next
  case (2 hi)
  then show ?case
    using unat_u8_bound [of hi] by (simp add: unat_le16_of residue_small)
qed (simp add: residue_def)

lemma net_sum_cong: "net_sum bs mod 65535 = 256 * word_sum bs mod 65535"
proof (induction bs rule: net_sum.induct)
  case (1 hi lo bs)
  have "unat lo mod 65535 = 65536 * unat lo mod 65535"
    by (simp add: mod_mult_left_eq [of 65536, symmetric])
  then have "(256 * unat hi + unat lo) mod 65535 = (256 * unat hi + 65536 * unat lo) mod 65535"
    by (rule mod_add_cong [OF refl])
  from mod_add_cong [OF this 1] show ?case
    by (simp add: algebra_simps)
qed simp_all

lemma net_sum_dvd: "65535 dvd net_sum bs \<longleftrightarrow> 65535 dvd word_sum bs"
proof
  assume "65535 dvd net_sum bs"
  then have "65535 dvd 256 * word_sum bs"
    using net_sum_cong [of bs] by (simp add: dvd_eq_mod_eq_0)
  then have "65535 dvd 256 * (256 * word_sum bs)"
    by (rule dvd_mult)
  then have "65535 dvd 65535 * word_sum bs + word_sum bs"
    by simp
  then show "65535 dvd word_sum bs"
    by (simp only: dvd_add_right_iff [OF dvd_triv_left])
next
  assume "65535 dvd word_sum bs"
  then have "65535 dvd 256 * word_sum bs"
    by (rule dvd_mult)
  then show "65535 dvd net_sum bs"
    using net_sum_cong [of bs] by (simp add: dvd_eq_mod_eq_0)
qed

lemma residue_full: "residue n = 65535 \<longleftrightarrow> 0 < n \<and> 65535 dvd n"
proof (cases "n = 0")
  case False
  have "residue n = 65535 \<longleftrightarrow> residue n mod 65535 = 0"
    using False residue_bound [of n] residue_0 [of n] by (auto simp del: residue_0 simp: mod_if split: if_splits)
  then show ?thesis
    using False by (simp add: residue_cong dvd_eq_mod_eq_0)
qed simp

lemma net_sum_0: "net_sum bs = 0 \<longleftrightarrow> word_sum bs = 0"
  by (induction bs rule: net_sum.induct) auto

lemma unat_htons: "unat (htons w) = 256 * (unat w mod 256) + unat w div 256"
proof -
  have "htons w = le16_of (ucast (drop_bit 8 w)) (ucast w)"
    by (rule bit_word_eqI) (auto simp: htons_def le16_of_def bit_simps dest: bit_imp_le_length)
  moreover have "unat (ucast (drop_bit 8 w) :: u8) = unat w div 256"
    using unat_u16_bound [of w]
    by (simp add: unsigned_ucast_eq take_bit_eq_mod drop_bit_eq_div unat_div)
  ultimately show ?thesis
    by (simp add: unat_le16_of unsigned_ucast_eq take_bit_eq_mod)
qed

lemma htons_cong: "unat (htons w) mod 65535 = 256 * unat w mod 65535"
proof -
  have "256 * unat w = unat (htons w) + 65535 * (unat w div 256)"
    using mult_div_mod_eq [of 256 "unat w"] unfolding unat_htons by linarith
  then show ?thesis
    by (metis mod_mult_self2)
qed

text \<open>Swapping the bytes of the host-order sum gives the network-order sum.\<close>

lemma htons_0: "unat (htons w) = 0 \<longleftrightarrow> unat w = 0"
proof -
  have "htons 0 = 0"
    by (simp add: htons_def)
  then have "htons w = 0 \<longleftrightarrow> w = 0"
    by (metis ntohs_htons)
  then show ?thesis
    by (simp only: unat_eq_0)
qed

lemma htons_residue:
  assumes "unat w = residue (word_sum bs)"
  shows "htons w = ones_sum bs"
proof -
  have "unat (htons w) mod 65535 = unat (ones_sum bs) mod 65535"
    using htons_cong [of w] mod_mult_cong [OF refl residue_cong [of "word_sum bs"], of 256]
    by (simp only: assms ones_sum_unat residue_cong net_sum_cong)
  moreover have "unat (htons w) = 0 \<longleftrightarrow> unat (ones_sum bs) = 0"
    by (simp only: htons_0 assms ones_sum_unat residue_0 net_sum_0)
  ultimately have "unat (htons w) = unat (ones_sum bs)"
    by (rule residue_unique [OF _ unat_u16_bound unat_u16_bound])
  then show ?thesis
    by (simp only: word_unat_eq_iff)
qed

lemma htons_not: "htons (NOT w) = NOT (htons w)"
  by (rule bit_word_eqI) (auto simp: htons_def bit_simps dest: bit_imp_le_length)

lemma unat_not: "unat (NOT c :: u16) = 65535 - unat c"
proof -
  have "unat (c + NOT c) = 65535"
    by (simp add: not_eq_complement unsigned_minus_1_eq_mask mask_eq_exp_minus_1)
  then have "(unat c + unat (NOT c)) mod 65536 = 65535"
    using unat_word_ariths(1) [of c "NOT c"] by simp
  then show ?thesis
    using unat_u16_bound [of c] unat_u16_bound [of "NOT c"] by (simp add: mod_if split: if_splits)
qed

section \<open>Property\<close>

text \<open>
  C15: The checksum is the Internet checksum. For a packet whose payload fits a datagram, the
  checksum field, read in network order, is the complement of the one's complement sum of the
  bytes on the wire with the field zeroed; and a packet is accepted exactly when the sum of
  the bytes on the wire, the field included, is all ones.
\<close>

theorem checksum_is_rfc1071:
  assumes "length (payload p) \<le> 65535"
  shows "ntohs (checksum (header (calculate_checksum p)))
      = NOT (ones_sum (raw_data (p\<lparr>header := (header p)\<lparr>checksum := 0\<rparr>\<rparr>)))
    \<and> (verify_checksum p \<longleftrightarrow> ones_sum (raw_data p) = 0xFFFF)"
proof
  let ?bs = "raw_data (p\<lparr>header := (header p)\<lparr>checksum := 0\<rparr>\<rparr>)"
  obtain c where c: "calculate_checksum p = p\<lparr>header := (header p)\<lparr>checksum := c\<rparr>\<rparr>"
    and u: "unat c = 65535 - residue (word_sum ?bs)"
    using calculate_checksum_eq [OF assms] by (auto simp: residue_def)
  have "unat (NOT c) = residue (word_sum ?bs)"
    using u residue_bound [of "word_sum ?bs"] by (simp add: unat_not)
  from htons_residue [OF this] have "htons c = NOT (ones_sum ?bs)"
    by (metis htons_not bit.double_compl)
  then show "ntohs (checksum (header (calculate_checksum p))) = NOT (ones_sum ?bs)"
    by (simp add: c ntohs_def)
next
  have sum: "ones_sum (raw_data p) = 0xFFFF \<longleftrightarrow> residue (net_sum (raw_data p)) = 65535"
    by (simp add: word_unat_eq_iff ones_sum_unat)
  show "verify_checksum p \<longleftrightarrow> ones_sum (raw_data p) = 0xFFFF"
    unfolding sum residue_full verify_checksum_iff [OF assms] net_sum_dvd
    using net_sum_0 [of "raw_data p"] by auto
qed

theorem checksum_is_rfc1071_witness:
  "let p = \<lparr>header = \<lparr>s_port = 1, d_port = 2, seq_num = 3, ack_num = 4, data_offset_and_reserved = 80,
                      flags = 16, window_size = 5, checksum = 6, urgent_ptr = 7\<rparr>,
            options = [], payload = [65, 66, 67]\<rparr>
   in ntohs (checksum (header (calculate_checksum p)))
        = NOT (ones_sum (raw_data (p\<lparr>header := (header p)\<lparr>checksum := 0\<rparr>\<rparr>)))
      \<and> (verify_checksum p \<longleftrightarrow> ones_sum (raw_data p) = 0xFFFF)"
  unfolding Let_def by (rule checksum_is_rfc1071) simp

end
