(* ===== verification/Slow_Start.thy ===== *)
theory Slow_Start
  imports Congestion
begin

text \<open>
  A transfer over many round trips. What is written at once goes out in segments as large as
  the congestion window, one per round trip, and the window grows with every acknowledgement:
  the theory follows the two sides through any number of rounds, and a whole conversation
  from the first SYN to the last acknowledgement.
\<close>

section \<open>The schedule\<close>

text \<open>The bytes that the next \<open>k\<close> windows carry, from a window and a threshold.\<close>

fun carried :: "nat \<Rightarrow> nat \<Rightarrow> nat \<Rightarrow> nat" where
  "carried c s 0 = 0"
| "carried c s (Suc k) = c + carried (if c < s then 2 * c else c + 1) s k"

text \<open>Round trips: the client's datagrams from the \<open>i\<close>-th on, each answered by the server's from the \<open>j\<close>-th on.\<close>

fun exchanges :: "nat \<Rightarrow> nat \<Rightarrow> nat \<Rightarrow> action list" where
  "exchanges i j 0 = []"
| "exchanges i j (Suc k) = To_server i # To_client j # exchanges (i + 1) (j + 1) k"

section \<open>A sender in the middle of a transfer\<close>

text \<open>
  The buffer holds what is unacknowledged, the first \<open>f\<close> bytes of it in flight; or as much of it
  as the window allows. The duplicate counter is at most one.
\<close>

definition aloft :: "env \<Rightarrow> u32 \<Rightarrow> u32 \<Rightarrow> u8 list \<Rightarrow> nat \<Rightarrow> world \<Rightarrow> bool" where
  "aloft e m t rest f w \<longleftrightarrow> base_inv w \<and> state w = ESTABLISHED \<and> ring_contents (send_buffer w) = rest
     \<and> send_unack (swnd w) = m \<and> send_next (swnd w) = m + of_nat f
     \<and> recv_next (rwnd w) = t \<and> reliable e (udp w)
     \<and> (dup_ack_count w = 0 \<or> dup_ack_count w = 1 \<and> last_ack_received w \<le> m)"

definition flying :: "env \<Rightarrow> u32 \<Rightarrow> u32 \<Rightarrow> u8 list \<Rightarrow> world \<Rightarrow> bool" where
  "flying e m t rest w \<longleftrightarrow> aloft e m t rest (min (cwnd w) (length rest)) w"

lemmas flying_defs = flying_def aloft_def

lemma flying_idle: "flying e m t [] w \<Longrightarrow> idle e ESTABLISHED m t w"
  by (simp add: flying_defs idle_def) (metis length_ring_contents list.size(3))

lemma flying_rest: "flying e m t rest w \<Longrightarrow> length rest \<le> 1024"
  using ring_ok_bound [of "send_buffer w"] by (auto simp: flying_defs base_inv_def base_ok_def)

lemma unat_small_nat: "n \<le> 1024 \<Longrightarrow> unat (of_nat n :: u32) = n"
  by (simp add: unat_of_nat)

lemma flying_in_flight: "flying e m t rest w \<Longrightarrow> in_flight w = min (cwnd w) (length rest)"
  using flying_rest [of e m t rest w] by (simp add: flying_defs in_flight_def unat_small_nat)

lemma flying_full:
  assumes "flying e m t rest w"
  shows "try_send_data w = []"
proof -
  have "in_flight w \<le> cwnd w" "sends_data (state w)" "ring_contents (send_buffer w) = rest"
    using flying_in_flight [OF assms] assms by (simp_all add: flying_defs sends_data_iff)
  from try_send_within [OF this(2,1)] this(3) show ?thesis
    using flying_in_flight [OF assms] by (auto simp: min_def)
qed

text \<open>Filling the window: what is not yet in flight goes out as far as the window allows.\<close>

lemma fill_window:
  assumes w: "aloft e m t rest 0 w" and same: "udp_sends (udp v) = udp_sends (udp w)"
  defines "u \<equiv> send_payload_packet e (try_send_data w) FLAG_ACK w"
  shows "try_send_data w = take (cwnd w) rest" and "flying e m t rest u" and "cwnd u = cwnd w" and "ssthresh u = ssthresh w"
    and "take (cwnd w) rest \<noteq> [] \<Longrightarrow> sends v u m t FLAG_ACK (take (cwnd w) rest)"
    and "take (cwnd w) rest = [] \<Longrightarrow> u = w"
proof -
  have "in_flight w = 0"
    using w by (simp add: aloft_def in_flight_def)
  then show data: "try_send_data w = take (cwnd w) rest"
    using try_send_within [of w] w by (simp add: sends_data_iff aloft_def)
  show cw: "cwnd u = cwnd w" and "ssthresh u = ssthresh w"
    by (simp_all add: u_def cwnd_def send_payload_packet_def Let_def)
  have "length rest \<le> 1024"
    using ring_ok_bound [of "send_buffer w"] w by (auto simp: base_inv_def base_ok_def aloft_def)
  then show "take (cwnd w) rest \<noteq> [] \<Longrightarrow> sends v u m t FLAG_ACK (take (cwnd w) rest)"
    using sends_payload [of e w v "take (cwnd w) rest" FLAG_ACK] w same by (simp add: u_def data aloft_def)
  show "take (cwnd w) rest = [] \<Longrightarrow> u = w"
    unfolding u_def data by (simp only: send_payload_packet_Nil)
  have "send_next (swnd u) = m + of_nat (min (cwnd w) (length rest))"
    using w by (simp add: u_def data send_payload_packet_def Let_def min.commute aloft_def)
  then show "flying e m t rest u"
    using w cw by (simp add: flying_defs base_inv_payload u_def)
qed

lemma queued_aloft:
  assumes w: "idle e ESTABLISHED m t w" and dups: "dup_ack_count w = 0" and data: "length data \<le> 1024"
  shows "aloft e m t data 0 (queued data w)" and "queue_bytes data w = data"
proof -
  have base: "base_inv w" and empty: "ring_contents (send_buffer w) = []"
    using w by (simp_all add: idle_def ring_contents_def)
  show qb: "queue_bytes data w = data"
    using w data by (simp add: queue_bytes_def idle_def base_inv_def base_ok_def)
  have "ring_contents (send_buffer (queued data w)) = data"
    using queued_contents [OF base, of data] empty qb by simp
  then show "aloft e m t data 0 (queued data w)"
    using w dups base_inv_queued [OF base, of data] by (simp add: idle_def aloft_def) (simp add: queued_def)
qed

lemma send_flies:
  assumes w: "idle e ESTABLISHED m t w" and dups: "dup_ack_count w = 0" and data: "data \<noteq> []" "length data \<le> 1024"
    and pos: "0 < cwnd w"
  shows "\<exists>u. send e data w = Inr (length data, u) \<and> flying e m t data u \<and> sends w u m t FLAG_ACK (take (cwnd w) data)
    \<and> cwnd u = cwnd w \<and> ssthresh u = ssthresh w \<and> place u = place w"
proof -
  let ?q = "queued data w"
  note q = queued_aloft [OF w dups data(2)]
  have same: "udp_sends (udp w) = udp_sends (udp ?q)" "cwnd ?q = cwnd w" "ssthresh ?q = ssthresh w"
    by (simp_all add: queued_def cwnd_def)
  have "base_inv w"
    using w by (simp add: idle_def)
  then have "send e data w = Inr (length data, send_payload_packet e (try_send_data ?q) FLAG_ACK ?q)"
    using data q(2) by (simp add: send_eq)
  then show ?thesis
    using fill_window [OF q(1) same(1)] data pos same(2,3) by auto
qed

text \<open>An acknowledgement of what is in flight: the window grows, and the rest follows.\<close>

definition acked :: "u32 \<Rightarrow> tcp_packet \<Rightarrow> world \<Rightarrow> world" where
  "acked a p w = grow_cwnd (count_dup_ack a (accept_ack a (w\<lparr>peer_usable_window_size := ucast (ntohs (window_size (header p)))\<rparr>)))"

lemma acked_frame [simp]:
  "udp (acked a p w) = udp w" "ssthresh (acked a p w) = ssthresh w" "cwnd (acked a p w) = cwnd (grow_cwnd w)"
  "remote_ip (acked a p w) = remote_ip w" "remote_port (acked a p w) = remote_port w" "place (acked a p w) = place w"
  "recv_buffer (acked a p w) = recv_buffer w"
  by (simp_all add: acked_def grow_cwnd_def count_dup_ack_def accept_ack_def Let_def cwnd_def place_def route_def)

lemma ack_counted:
  assumes "dup_ack_count w = 0 \<or> dup_ack_count w = 1 \<and> last_ack_received w \<le> m" and "m < a"
  shows "dup_ack_count (count_dup_ack a w) = 0 \<or> dup_ack_count (count_dup_ack a w) = 1 \<and> last_ack_received (count_dup_ack a w) \<le> a"
  using assms by (auto simp: count_dup_ack_def)

lemma input_acks:
  assumes w: "aloft e m t rest f w" and f: "0 < f" "f \<le> length rest" and nowrap: "unat m + length rest < 2 ^ 32"
    and p: "seg_is p seq (m + of_nat f) FLAG_ACK []"
  defines "g \<equiv> acked (m + of_nat f) p w"
  shows "aloft e (m + of_nat f) t (drop f rest) 0 g"
    and "handle_ack e p (w\<lparr>peer_usable_window_size := ucast (ntohs (window_size (header p)))\<rparr>)
      = Inr (True, send_payload_packet e (try_send_data g) FLAG_ACK g)"
proof -
  let ?a = "m + of_nat f"
  let ?w = "w\<lparr>peer_usable_window_size := ucast (ntohs (window_size (header p)))\<rparr>"
  let ?x = "accept_ack ?a ?w"
  let ?v = "count_dup_ack ?a ?x"
  have base: "base_inv w" and un: "send_unack (swnd w) = m" and nx: "send_next (swnd w) = ?a"
    and con: "ring_contents (send_buffer w) = rest"
    and dups: "dup_ack_count w = 0 \<or> dup_ack_count w = 1 \<and> last_ack_received w \<le> m"
    using w by (simp_all add: aloft_def)
  have ok: "ring_ok (send_buffer w)"
    using base by (simp add: base_inv_def base_ok_def)
  have lt: "m < ?a"
    using nowrap f by (intro ack_advances) simp_all
  then have acc: "ack_acceptable ?a ?w"
    using un nx by (simp add: ack_acceptable_def)
  have "f \<le> 1024"
    using ring_ok_bound [OF ok] base con f(2) by (auto simp: base_inv_def base_ok_def)
  then have buf: "ring_contents (send_buffer g) = drop f rest"
    using pop_front_contents [OF ok, of f] con un by (simp add: g_def acked_def grow_cwnd_def Let_def unat_small_nat)
  have "dup_ack_count ?x = dup_ack_count w" "last_ack_received ?x = last_ack_received w"
    by (simp_all add: accept_ack_def)
  then have cnt: "dup_ack_count ?v = 0 \<or> dup_ack_count ?v = 1 \<and> last_ack_received ?v \<le> ?a"
    using ack_counted [OF _ lt, of ?x] dups by simp
  have "base_inv g"
    using base by (simp add: g_def acked_def base_inv_accept_ack)
  then show "aloft e ?a t (drop f rest) 0 g"
    using w buf cnt by (simp add: aloft_def g_def) (simp add: acked_def grow_cwnd_def Let_def)
  have "dup_ack_count ?v \<noteq> 3"
    using cnt by auto
  then show "handle_ack e p ?w = Inr (True, send_payload_packet e (try_send_data g) FLAG_ACK g)"
    using acc p \<open>base_inv g\<close> by (simp add: handle_ack_def Let_def react_dup_ack_def handle_try_send_eq g_def acked_def seg_is_def)
qed

lemma input_aloft:
  assumes w: "aloft e m t rest f w" and f: "0 < f" "f \<le> length rest" and nowrap: "unat m + length rest < 2 ^ 32"
    and p: "seg_is p seq (m + of_nat f) FLAG_ACK []"
  defines "g \<equiv> acked (m + of_nat f) p w"
  shows "input e p w = Inr (send_payload_packet e (try_send_data g) FLAG_ACK g)"
proof -
  let ?u = "send_payload_packet e (try_send_data g) FLAG_ACK g"
  note g = input_acks [OF w f nowrap p, folded g_def]
  have u: "flying e (m + of_nat f) t (drop f rest) ?u"
    using fill_window(2) [OF g(1) refl] .
  have "handle_try_send e ?u = Inr ?u"
    using flying_full [OF u] u by (simp add: handle_try_send_eq flying_defs)
  moreover have "verify_checksum p" "payload p = []"
    using p by (simp_all add: seg_is_def)
  ultimately show ?thesis
    using w g(2) by (simp add: input_accepted handle_established_def seg_is_flag [OF p] flag_values aloft_def)
qed

lemma ack_flies:
  assumes w: "flying e m t rest w" and some: "take (cwnd w) rest \<noteq> []" and nowrap: "unat m + length rest < 2 ^ 32"
    and p: "seg_is p seq (m + of_nat (min (cwnd w) (length rest))) FLAG_ACK []"
  shows "\<exists>u. input e p w = Inr u \<and> flying e (m + of_nat (min (cwnd w) (length rest))) t (drop (cwnd w) rest) u
    \<and> ssthresh u = ssthresh w \<and> recv_buffer u = recv_buffer w \<and> place u = place w
    \<and> (drop (cwnd w) rest \<noteq> [] \<longrightarrow> cwnd u = (if cwnd w < unat (ssthresh w) then 2 * cwnd w else cwnd w + 1)
         \<and> sends w u (m + of_nat (min (cwnd w) (length rest))) t FLAG_ACK (take (cwnd u) (drop (cwnd w) rest)))
    \<and> (drop (cwnd w) rest = [] \<longrightarrow> udp u = udp w)"
proof -
  let ?f = "min (cwnd w) (length rest)"
  let ?g = "acked (m + of_nat ?f) p w"
  let ?u = "send_payload_packet e (try_send_data ?g) FLAG_ACK ?g"
  have f: "aloft e m t rest ?f w" "0 < ?f" "?f \<le> length rest"
    using w some by (simp_all add: flying_def)
  have dr: "drop ?f rest = drop (cwnd w) rest"
    by (simp add: min_def)
  note g = input_acks(1) [OF f nowrap p, unfolded dr]
  have same: "udp_sends (udp w) = udp_sends (udp ?g)" "cwnd ?g = cwnd (grow_cwnd w)"
    by simp_all
  note fill = fill_window [OF g same(1), unfolded same(2)]
  have grown: "cwnd (grow_cwnd w) = (if cwnd w < unat (ssthresh w) then 2 * cwnd w else cwnd w + 1)" if "drop (cwnd w) rest \<noteq> []"
    using that flying_rest [OF w] by (intro grow_cwnd_unat) simp
  then have "take (cwnd (grow_cwnd w)) (drop (cwnd w) rest) \<noteq> []" if "drop (cwnd w) rest \<noteq> []"
    using that some by (auto split: if_splits)
  moreover have "drop (cwnd w) rest = [] \<longrightarrow> udp ?u = udp w"
    using fill(6) by auto
  ultimately show ?thesis
    using fill(2-5) grown input_aloft [OF f nowrap p] by (intro exI [of _ ?u]) auto
qed

section \<open>Rounds\<close>

lemma no_more_rounds:
  assumes "length (udp_sends (udp (client n))) \<le> i" and "length (udp_sends (udp (server n))) \<le> j"
  shows "net_run ec es (exchanges i j k) n = Inr n"
  using assms by (induction k arbitrary: i j) (simp_all add: arrivals_def)

lemma one_round:
  assumes qs: "quiet_env es" and c: "flying ec x y rest (client n)" and s: "idle es ESTABLISHED y x (server n)"
    and some: "take (cwnd (client n)) rest \<noteq> []"
    and p: "arrivals i (client n) = Some p" "seg_is p x y FLAG_ACK (take (cwnd (client n)) rest)"
    and room: "qsize (recv_buffer (server n)) + length rest \<le> 1024" and nowrap: "unat x + length rest < 2 ^ 32"
    and j: "j = length (udp_sends (udp (server n)))"
  shows "\<exists>c' s'. net_run ec es [To_server i, To_client j] n = Inr (n\<lparr>client := c', server := s'\<rparr>)
    \<and> flying ec (x + of_nat (min (cwnd (client n)) (length rest))) y (drop (cwnd (client n)) rest) c'
    \<and> idle es ESTABLISHED y (x + of_nat (min (cwnd (client n)) (length rest))) s'
    \<and> ring_contents (recv_buffer s') = ring_contents (recv_buffer (server n)) @ take (cwnd (client n)) rest
    \<and> length (udp_sends (udp s')) = j + 1 \<and> ssthresh c' = ssthresh (client n)
    \<and> (drop (cwnd (client n)) rest \<noteq> [] \<longrightarrow>
         cwnd c' = (if cwnd (client n) < unat (ssthresh (client n)) then 2 * cwnd (client n) else cwnd (client n) + 1)
         \<and> sends (client n) c' (x + of_nat (min (cwnd (client n)) (length rest))) y FLAG_ACK (take (cwnd c') (drop (cwnd (client n)) rest)))
    \<and> (drop (cwnd (client n)) rest = [] \<longrightarrow> udp c' = udp (client n))"
proof -
  let ?d = "take (cwnd (client n)) rest" and ?f = "min (cwnd (client n)) (length rest)"
  have len: "length ?d = ?f"
    by (simp add: min.commute)
  have "qsize (recv_buffer (server n)) + length ?d \<le> 1024"
    using room by simp
  from input_data [OF qs s p(2) some this] obtain s' where i1: "input es p (server n) = Inr s'"
    and s': "idle es ESTABLISHED y (x + of_nat ?f) s'"
    "ring_contents (recv_buffer s') = ring_contents (recv_buffer (server n)) @ ?d"
    and y2: "sends (server n) s' y (x + of_nat ?f) FLAG_ACK []"
    unfolding len by blast
  obtain q where a2: "arrivals j s' = Some q" and q: "seg_is q y (x + of_nat ?f) FLAG_ACK []"
    by (rule sends_arrives [OF y2 j])
  from ack_flies [OF c some nowrap q] obtain c' where i2: "input ec q (client n) = Inr c'"
    and c': "flying ec (x + of_nat ?f) y (drop (cwnd (client n)) rest) c'" "ssthresh c' = ssthresh (client n)"
    "drop (cwnd (client n)) rest \<noteq> [] \<longrightarrow>
         cwnd c' = (if cwnd (client n) < unat (ssthresh (client n)) then 2 * cwnd (client n) else cwnd (client n) + 1)
         \<and> sends (client n) c' (x + of_nat ?f) y FLAG_ACK (take (cwnd c') (drop (cwnd (client n)) rest))"
    "drop (cwnd (client n)) rest = [] \<longrightarrow> udp c' = udp (client n)"
    by blast
  have "net_run ec es [To_server i, To_client j] n = Inr (n\<lparr>client := c', server := s'\<rparr>)"
    using deliver_server [OF p(1) i1, of ec] deliver_client [of j "n\<lparr>server := s'\<rparr>" q ec c' es] a2 i2
    by (simp del: net_step.simps)
  moreover have "length (udp_sends (udp s')) = j + 1"
    using sends_length [OF y2] j by simp
  ultimately show ?thesis
    using c' s' by blast
qed

lemma net_run_append: "net_run ec es (as @ bs) n = bind_res (net_run ec es as n) (net_run ec es bs)"
proof (induction as arbitrary: n)
  case (Cons a as)
  then have "(\<lambda>n. net_run ec es (as @ bs) n) = (\<lambda>n. bind_res (net_run ec es as n) (net_run ec es bs))"
    by (rule ext)
  then show ?case
    by (simp add: bind_res_assoc)
qed simp

lemma run_exchange: "net_run ec es (exchanges i j (Suc k)) n =
    bind_res (net_run ec es [To_server i, To_client j] n) (net_run ec es (exchanges (i + 1) (j + 1) k))"
  unfolding net_run_append [symmetric] by (simp del: net_step.simps)

text \<open>A window's worth of what there is, and what is left of it.\<close>

lemma carried_split:
  assumes "c < length xs"
  shows "min (c + t) (length xs) = c + min t (length (drop c xs))" and "drop (c + t) xs = drop t (drop c xs)"
    and "take (c + t) xs = take c xs @ take t (drop c xs)"
  using assms by (auto simp: min_def take_add add.commute)

lemma window_left:
  assumes more: "drop f rest \<noteq> []" and room: "k + length rest \<le> 1024" and nowrap: "unat (x :: u32) + length rest < 2 ^ 32"
  shows "f < length rest" and "min f (length rest) = f" and "length (take f rest) = f" and "k + f + length (drop f rest) \<le> 1024"
    and "unat (x + of_nat f) + length (drop f rest) < 2 ^ 32"
proof -
  show lt: "f < length rest"
    using more by simp
  then show "min f (length rest) = f" "length (take f rest) = f" "k + f + length (drop f rest) \<le> 1024"
    using room by simp_all
  show "unat (x + of_nat f) + length (drop f rest) < 2 ^ 32"
    using lt nowrap unat_plus_small [of x f] by simp
qed

lemma window_positive: "c' = (if c < s then 2 * c else c + 1) \<Longrightarrow> (0 :: nat) < c \<Longrightarrow> 0 < c'"
  by (simp split: if_splits)

lemma transfer_rounds:
  assumes qs: "quiet_env es" and c: "flying ec x y rest (client n)" and s: "idle es ESTABLISHED y x (server n)"
    and some: "rest \<noteq> []" "0 < cwnd (client n)"
    and p: "arrivals i (client n) = Some p" "seg_is p x y FLAG_ACK (take (cwnd (client n)) rest)"
    and room: "qsize (recv_buffer (server n)) + length rest \<le> 1024" and nowrap: "unat x + length rest < 2 ^ 32"
    and i: "i + 1 = length (udp_sends (udp (client n)))" and j: "j = length (udp_sends (udp (server n)))"
    and t: "t = carried (cwnd (client n)) (unat (ssthresh (client n))) k"
  shows "\<exists>c' s'. net_run ec es (exchanges i j k) n = Inr (n\<lparr>client := c', server := s'\<rparr>)
    \<and> flying ec (x + of_nat (min t (length rest))) y (drop t rest) c'
    \<and> idle es ESTABLISHED y (x + of_nat (min t (length rest))) s'
    \<and> ring_contents (recv_buffer s') = ring_contents (recv_buffer (server n)) @ take t rest"
  using c s some p room nowrap i j t
proof (induction k arbitrary: n x rest i j p t)
  case 0
  then show ?case
    by - (rule exI [of _ "client n"], rule exI [of _ "server n"], simp)
next
  case (Suc k)
  let ?c = "cwnd (client n)"
  let ?f = "min ?c (length rest)"
  have "take ?c rest \<noteq> []"
    using Suc.prems by simp
  from one_round [OF qs Suc.prems(1,2) this Suc.prems(5,6,7,8,10)] obtain c' s'
    where run: "net_run ec es [To_server i, To_client j] n = Inr (n\<lparr>client := c', server := s'\<rparr>)"
    and c': "flying ec (x + of_nat ?f) y (drop ?c rest) c'"
    and s': "idle es ESTABLISHED y (x + of_nat ?f) s'"
    and r': "ring_contents (recv_buffer s') = ring_contents (recv_buffer (server n)) @ take ?c rest"
    and j': "length (udp_sends (udp s')) = j + 1" and th: "ssthresh c' = ssthresh (client n)"
    and more: "drop ?c rest \<noteq> [] \<Longrightarrow> cwnd c' = (if ?c < unat (ssthresh (client n)) then 2 * ?c else ?c + 1)"
      "drop ?c rest \<noteq> [] \<Longrightarrow> sends (client n) c' (x + of_nat ?f) y FLAG_ACK (take (cwnd c') (drop ?c rest))"
    and over: "drop ?c rest = [] \<Longrightarrow> udp c' = udp (client n)"
    by blast
  let ?n = "n\<lparr>client := c', server := s'\<rparr>"
  show ?case
  proof (cases "drop ?c rest = []")
    case True
    have "net_run ec es (exchanges (i + 1) (j + 1) k) ?n = Inr ?n"
      using over [OF True] Suc.prems(9) j' by (intro no_more_rounds) simp_all
    then have "net_run ec es (exchanges i j (Suc k)) n = Inr ?n"
      unfolding run_exchange run by simp
    moreover have "min t (length rest) = ?f" "drop t rest = drop ?c rest" "take t rest = take ?c rest"
      using True Suc.prems(11) by simp_all
    ultimately show ?thesis
      using c' s' r' by - (rule exI [of _ c'], rule exI [of _ s'], simp)
  next
    case False
    let ?t = "carried (cwnd c') (unat (ssthresh c')) k"
    have t: "t = ?c + ?t"
      using False Suc.prems(11) more(1) th by simp
    note left = window_left [OF False Suc.prems(7,8)]
    obtain q where q: "arrivals (i + 1) c' = Some q" "seg_is q (x + of_nat ?f) y FLAG_ACK (take (cwnd c') (drop ?c rest))"
      by (rule sends_arrives [OF more(2) [OF False] Suc.prems(9)])
    have "length (ring_contents (recv_buffer s')) = qsize (recv_buffer (server n)) + ?c"
      using r' left(3) by simp
    then have room: "qsize (recv_buffer s') + length (drop ?c rest) \<le> 1024"
      using left(4) by simp
    obtain c'' s'' where "net_run ec es (exchanges (i + 1) (j + 1) k) ?n = Inr (?n\<lparr>client := c'', server := s''\<rparr>)"
      and c'': "flying ec (x + of_nat ?c + of_nat (min ?t (length (drop ?c rest)))) y (drop ?t (drop ?c rest)) c''"
      "idle es ESTABLISHED y (x + of_nat ?c + of_nat (min ?t (length (drop ?c rest)))) s''"
      "ring_contents (recv_buffer s'') = ring_contents (recv_buffer s') @ take ?t (drop ?c rest)"
      using Suc.IH [of "x + of_nat ?c" "drop ?c rest" ?n "i + 1" q "j + 1" ?t] c' s' False q room left(5) j' Suc.prems(9)
        sends_length [OF more(2) [OF False]] window_positive [OF more(1) [OF False] Suc.prems(4)] unfolding left(2) by auto
    then have "net_run ec es (exchanges i j (Suc k)) n = Inr (n\<lparr>client := c'', server := s''\<rparr>)"
      unfolding run_exchange run by simp
    then show ?thesis
      using c'' r' unfolding t carried_split [OF left(1)] by (auto simp: add.assoc)
  qed
qed

lemma transfer:
  assumes qs: "quiet_env es" and c: "idle ec ESTABLISHED x y (client n)" and s: "idle es ESTABLISHED y x (server n)"
    and fresh: "dup_ack_count (client n) = 0" "0 < cwnd (client n)"
    and data: "data \<noteq> []" "length data \<le> 1024" and room: "qsize (recv_buffer (server n)) + length data \<le> 1024"
    and nowrap: "unat x + length data < 2 ^ 32"
    and ij: "i = length (udp_sends (udp (client n)))" "j = length (udp_sends (udp (server n)))"
    and t: "t = carried (cwnd (client n)) (unat (ssthresh (client n))) k"
  shows "\<exists>c' s'. net_run ec es (At_client (Ev_send data) # exchanges i j k) n
        = Inr (n\<lparr>client := c', server := s', client_wrote := client_wrote n @ data\<rparr>)
    \<and> flying ec (x + of_nat (min t (length data))) y (drop t data) c'
    \<and> idle es ESTABLISHED y (x + of_nat (min t (length data))) s'
    \<and> ring_contents (recv_buffer s') = ring_contents (recv_buffer (server n)) @ take t data"
proof -
  obtain u where u: "send ec data (client n) = Inr (length data, u)" "flying ec x y data u"
    "sends (client n) u x y FLAG_ACK (take (cwnd (client n)) data)" "cwnd u = cwnd (client n)" "ssthresh u = ssthresh (client n)"
    using send_flies [OF c fresh(1) data fresh(2)] by blast
  let ?n = "n\<lparr>client := u, client_wrote := client_wrote n @ data\<rparr>"
  have step: "net_step ec es (At_client (Ev_send data)) n = Inr ?n"
    using u(1) by (cases n) (simp add: client_does_def accepted_def)
  obtain p where p: "arrivals i u = Some p" "seg_is p x y FLAG_ACK (take (cwnd u) data)"
    using sends_arrives [OF u(3) ij(1)] u(4) by metis
  have i: "i + 1 = length (udp_sends (udp (client ?n)))"
    using sends_length [OF u(3)] ij(1) by simp
  have pre: "flying ec x y data (client ?n)" "idle es ESTABLISHED y x (server ?n)" "0 < cwnd (client ?n)"
    "arrivals i (client ?n) = Some p" "seg_is p x y FLAG_ACK (take (cwnd (client ?n)) data)"
    "qsize (recv_buffer (server ?n)) + length data \<le> 1024" "j = length (udp_sends (udp (server ?n)))"
    "t = carried (cwnd (client ?n)) (unat (ssthresh (client ?n))) k"
    using u(2,4,5) p s room ij(2) t fresh(2) by simp_all
  obtain c' s' where run: "net_run ec es (exchanges i j k) ?n = Inr (?n\<lparr>client := c', server := s'\<rparr>)"
    and rest: "flying ec (x + of_nat (min t (length data))) y (drop t data) c'"
    "idle es ESTABLISHED y (x + of_nat (min t (length data))) s'"
    "ring_contents (recv_buffer s') = ring_contents (recv_buffer (server n)) @ take t data"
    using transfer_rounds [OF qs pre(1,2) data(1) pre(3-6) nowrap i pre(7,8)] by auto
  have "net_run ec es (At_client (Ev_send data) # exchanges i j k) n = Inr (?n\<lparr>client := c', server := s'\<rparr>)"
    using step run by (simp del: net_step.simps)
  then show ?thesis
    using rest by (intro exI [of _ c'] exI [where x = s']) (cases n, simp)
qed

section \<open>A conversation\<close>

lemma read_idle:
  assumes w: "idle e ESTABLISHED m t w"
  shows "\<exists>w'. read_all e w = Inr (ring_contents (recv_buffer w), w') \<and> idle e ESTABLISHED m t w' \<and> udp w' = udp w
    \<and> ring_contents (recv_buffer w') = [] \<and> place w' = place w"
proof -
  have ok: "ring_ok (recv_buffer w)" and st: "state w = ESTABLISHED"
    using w by (simp_all add: idle_def base_inv_def base_ok_def)
  let ?w = "w\<lparr>recv_buffer := snd (read_loop front pop_front (qsize (recv_buffer w)) (recv_buffer w))\<rparr>"
  have "read_all e w = Inr (ring_contents (recv_buffer w), ?w)"
    using rq.read_loop_take [OF ok order_refl] st length_ring_contents [of "recv_buffer w"]
    by (simp add: read_all_eq Let_def auto_close_def)
  moreover have "idle e ESTABLISHED m t ?w"
    using w base_inv_recv_buffer [of w "qsize (recv_buffer w)"] by (simp add: idle_def)
  moreover have "ring_contents (recv_buffer ?w) = []"
    using rq.read_loop_take [OF ok order_refl] length_ring_contents [of "recv_buffer w"] by simp
  ultimately show ?thesis
    by (intro exI [of _ ?w]) simp
qed

text \<open>
  C5: Slow start delivers. What is written at once on an idle established connection is
  carried, without loss, by one segment per round trip, each as large as the congestion window,
  which doubles up to the threshold and then grows by one: after \<open>k\<close> round trips the peer has
  exactly the first bytes that the first \<open>k\<close> windows carry, and the sender has them
  acknowledged; once they carry everything, both sides are idle again. The conditions: the
  sender's window is not zero and it has counted no duplicate acknowledgements; between one and
  1024 bytes are written, and the peer's receive buffer has room for them beside what it holds;
  the sequence numbers of the data do not wrap (when \<open>send_next\<close> wraps while data is in flight
  no acknowledgement is accepted any more; see \<open>wrapped_window_accepts_no_ack\<close>); and the peer's
  callbacks leave its session alone.
\<close>

theorem slow_start_delivers:
  assumes "quiet_env es" and "idle ec ESTABLISHED x y (client n)" and "idle es ESTABLISHED y x (server n)"
    and "dup_ack_count (client n) = 0" and "0 < cwnd (client n)" and "data \<noteq> []" and "length data \<le> 1024"
    and "qsize (recv_buffer (server n)) + length data \<le> 1024" and "unat x + length data < 2 ^ 32"
  defines "t \<equiv> (\<lambda>k. carried (cwnd (client n)) (unat (ssthresh (client n))) k)"
  shows "\<exists>n'. net_run ec es (At_client (Ev_send data)
        # exchanges (length (udp_sends (udp (client n)))) (length (udp_sends (udp (server n)))) k) n = Inr n'
    \<and> ring_contents (recv_buffer (server n')) = ring_contents (recv_buffer (server n)) @ take (t k) data
    \<and> ring_contents (send_buffer (client n')) = drop (t k) data
    \<and> send_unack (swnd (client n')) = x + of_nat (min (t k) (length data))
    \<and> (length data \<le> t k \<longrightarrow> idle ec ESTABLISHED (x + of_nat (length data)) y (client n')
          \<and> idle es ESTABLISHED y (x + of_nat (length data)) (server n'))"
proof -
  obtain c' s' where run: "net_run ec es (At_client (Ev_send data)
        # exchanges (length (udp_sends (udp (client n)))) (length (udp_sends (udp (server n)))) k) n
      = Inr (n\<lparr>client := c', server := s', client_wrote := client_wrote n @ data\<rparr>)"
    and c': "flying ec (x + of_nat (min (t k) (length data))) y (drop (t k) data) c'"
    and s': "idle es ESTABLISHED y (x + of_nat (min (t k) (length data))) s'"
    "ring_contents (recv_buffer s') = ring_contents (recv_buffer (server n)) @ take (t k) data"
    using transfer [OF assms(1-9) refl refl refl] unfolding t_def by blast
  have "length data \<le> t k \<Longrightarrow> idle ec ESTABLISHED (x + of_nat (length data)) y c'"
    using flying_idle [of ec "x + of_nat (length data)" y c'] c' by simp
  moreover have "length data \<le> t k \<Longrightarrow> idle es ESTABLISHED y (x + of_nat (length data)) s'"
    using s'(1) by simp
  ultimately show ?thesis
    using run c' s' by (intro exI [of _ "n\<lparr>client := c', server := s', client_wrote := client_wrote n @ data\<rparr>"])
      (simp add: flying_defs del: net_run.simps)
qed

theorem slow_start_delivers_witness:
  "\<exists>n'. net_run example_env example_env (At_client (Ev_send (replicate 20 7)) # exchanges 0 0 2) (example_net 1000 2000) = Inr n'
    \<and> ring_contents (recv_buffer (server n')) = replicate 17 7 \<and> send_unack (swnd (client n')) = 1017"
proof -
  have f: "dup_ack_count (client (example_net 1000 2000)) = 0" "0 < cwnd (client (example_net 1000 2000))"
    "cwnd (client (example_net 1000 2000)) = 8" "ssthresh (client (example_net 1000 2000)) = 8"
    "qsize (recv_buffer (server (example_net 1000 2000))) = 0"
    "ring_contents (recv_buffer (server (example_net 1000 2000))) = []"
    "udp_sends (udp (client (example_net 1000 2000))) = []" "udp_sends (udp (server (example_net 1000 2000))) = []"
    by (simp_all add: example_net_def example_established_def cwnd_def enter_world_new new_driver_def ring_simps)
      (simp_all add: ring_new_def ring_contents_def)
  have c: "carried 8 8 2 = 17"
    by (simp add: numeral_2_eq_2)
  show ?thesis
    using slow_start_delivers [OF example_quiet example_net_idle f(1,2), of "replicate 20 7" 2] f(3-8) c
    by (auto simp del: net_run.simps exchanges.simps)
qed

text \<open>
  C4: A whole conversation. Two fresh sessions, no datagram lost, callbacks that leave the
  session alone: the client opens, writes between one and 1024 bytes, and closes; the server
  reads. After the handshake, as many round trips as slow start needs from a window of one byte
  and a threshold of eight, one read and the two closes, the server has read exactly what the
  client wrote, and both sides are CLOSED. This is for initial sequence numbers of the client
  from which the data does not wrap: the number of its first byte plus its length stays below
  \<open>2 ^ 32\<close>. (When \<open>send_next\<close> wraps while data is in flight, the connection stalls; see
  \<open>wrapped_window_accepts_no_ack\<close>.)
\<close>

theorem conversation:
  assumes "quiet_env ec" and "quiet_env es" and "reliable ec dc" and "udp_sends dc = []"
    and "reliable es ds" and "udp_sends ds = []"
    and "data \<noteq> []" and "length data \<le> 1024" and "length data \<le> carried 1 8 k"
    and "unat (gen_initial_seq ec nc + 1) + length data < 2 ^ 32"
  shows "\<exists>n1 n2. net_run ec es ([To_server 0, To_client 0, To_server 1, At_client (Ev_send data)] @ exchanges 2 1 k @ [At_server Ev_read_all])
        (opened ec (new_session pc ic rc lc kc) dc nc (new_session ps is rs ls ks) ds ns) = Inr n1
    \<and> server_read n1 = data \<and> client_wrote n1 = data \<and> state (client n1) = ESTABLISHED \<and> state (server n1) = ESTABLISHED
    \<and> (let i = length (udp_sends (udp (client n1))); j = length (udp_sends (udp (server n1)))
       in net_run ec es [At_client Ev_close, To_server i, To_client j, At_server Ev_close,
            To_client (j + 1), To_server (i + 1), At_client (Ev_timer Two_msl)] n1 = Inr n2)
    \<and> server_read n2 = data \<and> state (client n2) = CLOSED \<and> state (server n2) = CLOSED"
proof -
  let ?o = "opened ec (new_session pc ic rc lc kc) dc nc (new_session ps is rs ls ks) ds ns"
  let ?x = "gen_initial_seq ec nc + 1" and ?y = "gen_initial_seq es ns + 1"
  obtain c s where open_run: "net_run ec es [To_server 0, To_client 0, To_server 1] ?o = Inr (?o\<lparr>client := c, server := s\<rparr>)"
    and c: "idle ec ESTABLISHED ?x ?y c" and s: "idle es ESTABLISHED ?y ?x s"
    and m: "meters c = (1, 8, 0, ring_new 1024 0)" "meters s = (1, 8, 0, ring_new 1024 0)"
    and l: "length (udp_sends (udp c)) = 2" "length (udp_sends (udp s)) = 1"
    using handshake [OF assms(1-6) refl] by blast
  let ?n = "?o\<lparr>client := c, server := s\<rparr>"
  have pre: "idle ec ESTABLISHED ?x ?y (client ?n)" "idle es ESTABLISHED ?y ?x (server ?n)"
    "dup_ack_count (client ?n) = 0" "0 < cwnd (client ?n)" "qsize (recv_buffer (server ?n)) + length data \<le> 1024"
    "2 = length (udp_sends (udp (client ?n)))" "1 = length (udp_sends (udp (server ?n)))"
    "carried 1 8 k = carried (cwnd (client ?n)) (unat (ssthresh (client ?n))) k"
    using c s m l assms(8) by (simp_all add: meters_def cwnd_def ring_new_def)
  obtain c' s' where move_run: "net_run ec es (At_client (Ev_send data) # exchanges 2 1 k) ?n
        = Inr (?n\<lparr>client := c', server := s', client_wrote := client_wrote ?n @ data\<rparr>)"
    and c': "flying ec (?x + of_nat (min (carried 1 8 k) (length data))) ?y (drop (carried 1 8 k) data) c'"
    and s': "idle es ESTABLISHED ?y (?x + of_nat (min (carried 1 8 k) (length data))) s'"
    "ring_contents (recv_buffer s') = ring_contents (recv_buffer (server ?n)) @ take (carried 1 8 k) data"
    using transfer [OF assms(2) pre(1-4) assms(7,8) pre(5) assms(10) pre(6-8)] by blast
  let ?z = "?x + of_nat (length data)"
  have c': "idle ec ESTABLISHED ?z ?y c'" and s': "idle es ESTABLISHED ?y ?z s'"
    and r: "ring_contents (recv_buffer s') = data"
    using flying_idle [of ec ?z ?y c'] c' s' assms(9) m(2) by (simp_all add: meters_def)
      (simp add: ring_contents_def ring_new_def)
  obtain s'' where rd: "read_all es s' = Inr (data, s'')" and s'': "idle es ESTABLISHED ?y ?z s''"
    using read_idle [OF s'] r by auto
  let ?n1 = "?n\<lparr>client := c', server := s'', client_wrote := data, server_read := data\<rparr>"
  have read_run: "net_run ec es [At_server Ev_read_all] (?n\<lparr>client := c', server := s', client_wrote := client_wrote ?n @ data\<rparr>) = Inr ?n1"
    using rd by (simp add: server_does_def opened_def)
  have "net_run ec es ([To_server 0, To_client 0, To_server 1] @ (At_client (Ev_send data) # exchanges 2 1 k) @ [At_server Ev_read_all]) ?o = Inr ?n1"
    unfolding net_run_append open_run bind_res_Inr move_run read_run ..
  moreover have ends: "idle ec ESTABLISHED ?z ?y (client ?n1)" "idle es ESTABLISHED ?y ?z (server ?n1)"
    using c' s'' by simp_all
  moreover obtain c3 s3 where "net_run ec es [At_client Ev_close, To_server (length (udp_sends (udp (client ?n1)))),
        To_client (length (udp_sends (udp (server ?n1)))), At_server Ev_close,
        To_client (length (udp_sends (udp (server ?n1))) + 1), To_server (length (udp_sends (udp (client ?n1))) + 1),
        At_client (Ev_timer Two_msl)] ?n1 = Inr (?n1\<lparr>client := c3, server := s3\<rparr>)" "state c3 = CLOSED" "state s3 = CLOSED"
    using close_exchange [OF assms(1,2) ends refl refl] by blast
  moreover have "state c' = ESTABLISHED" "state s'' = ESTABLISHED"
    using c' s'' by (simp_all add: idle_def)
  ultimately show ?thesis
    unfolding Let_def
    by (intro exI [of _ ?n1] exI [of _ "?n1\<lparr>client := c3, server := s3\<rparr>"]) (simp del: net_run.simps)
qed

theorem conversation_witness:
  "\<exists>n1. net_run example_env example_env
        ([To_server 0, To_client 0, To_server 1, At_client (Ev_send (replicate 20 7))] @ exchanges 2 1 5 @ [At_server Ev_read_all])
        (opened example_env (new_session 0 1 2 3 4) new_driver 0 (new_session 5 6 7 8 9) new_driver 1) = Inr n1
    \<and> server_read n1 = replicate 20 7"
proof -
  have "carried 1 8 5 = 24"
    by code_simp
  then have f: "replicate 20 (7 :: u8) \<noteq> []" "length (replicate 20 (7 :: u8)) \<le> 1024" "length (replicate 20 (7 :: u8)) \<le> carried 1 8 5"
    by (simp_all only: length_replicate) simp_all
  have g: "unat (gen_initial_seq example_env 0 + 1) + length (replicate 20 (7 :: u8)) < 2 ^ 32"
    by (simp add: example_env_def session_env_def set_on_data_def
      set_on_closed_def set_on_recv_three_dup_ack_def Let_def del: replicate.simps)
  show ?thesis
    using conversation [OF example_quiet example_quiet example_reliable new_driver_sends example_reliable new_driver_sends f g] by blast
qed

end
