(* ===== verification/Duplex.thy ===== *)
theory Duplex
  imports Slow_Start
begin

text \<open>
  Both sides write at once. Their data segments cross, each is acknowledged while the receiver
  has data of its own in flight, and both transfers proceed a window at a time.
\<close>

section \<open>A side between two rounds\<close>

text \<open>
  \<open>rest\<close> is unacknowledged, the segment with as much of it as the window allows was the last
  datagram, the \<open>i\<close>-th; \<open>got\<close> is in the receive buffer.
\<close>

definition facing :: "env \<Rightarrow> u32 \<Rightarrow> u32 \<Rightarrow> u8 list \<Rightarrow> u8 list \<Rightarrow> nat \<Rightarrow> world \<Rightarrow> bool" where
  "facing e m t rest got i w \<longleftrightarrow> flying e m t rest w \<and> 0 < cwnd w \<and> ring_contents (recv_buffer w) = got
     \<and> length (udp_sends (udp w)) = i + 1
     \<and> (\<exists>p. arrivals i w = Some p \<and> seg_is p m t FLAG_ACK (take (cwnd w) rest))"

text \<open>The same after the other's segment has come in and been acknowledged by the \<open>i + 1\<close>-st datagram.\<close>

definition faced :: "env \<Rightarrow> u32 \<Rightarrow> u32 \<Rightarrow> u8 list \<Rightarrow> u8 list \<Rightarrow> nat \<Rightarrow> world \<Rightarrow> bool" where
  "faced e m t rest got i w \<longleftrightarrow> flying e m t rest w \<and> 0 < cwnd w \<and> ring_contents (recv_buffer w) = got
     \<and> length (udp_sends (udp w)) = i + 2
     \<and> (\<exists>p. arrivals (i + 1) w = Some p \<and> seg_is p (m + of_nat (min (cwnd w) (length rest))) t FLAG_ACK [])"

lemma arrivals_kept:
  assumes "sends w w' seq ack fl data" and "i < length (udp_sends (udp w))"
  shows "arrivals i w' = arrivals i w"
  using assms by (auto simp: sends_def arrivals_def nth_append)

lemma data_faced:
  assumes q: "quiet_env e" and w: "facing e m t rest got i w" and p: "seg_is p t m FLAG_ACK data" "data \<noteq> []"
    and room: "length got + length data \<le> 1024"
  shows "\<exists>u. input e p w = Inr u \<and> faced e m (t + of_nat (length data)) rest (got @ data) i u
    \<and> arrivals i u = arrivals i w \<and> cwnd u = cwnd w \<and> ssthresh u = ssthresh w"
proof -
  have fly: "flying e m t rest w" and got: "ring_contents (recv_buffer w) = got" and len: "length (udp_sends (udp w)) = i + 1"
    using w by (simp_all add: facing_def)
  then have side: "base_inv w" "state w = ESTABLISHED" "send_unack (swnd w) = m" "recv_next (rwnd w) = t" "reliable e (udp w)"
    by (simp_all add: flying_defs)
  have "qsize (recv_buffer w) + length data \<le> 1024"
    using room got by (simp flip: length_ring_contents)
  note v = taking_data [OF side flying_full [OF fly] p this]
  let ?v = "data_taken e p w"
  obtain ps b where "call_if_set (map_option (\<lambda>cb. cb (available ?v)) (on_data_cb e)) ?v
      = Inr (?v\<lparr>posts := ps, is_in_ready_queue := b\<rparr>)"
    by (rule quiet_call [of "map_option (\<lambda>cb. cb (available ?v)) (on_data_cb e)"])
      (use q in \<open>auto simp: quiet_env_def\<close>)
  with v(1) have i: "input e p w = Inr (?v\<lparr>posts := ps, is_in_ready_queue := b\<rparr>)"
    by simp
  let ?u = "?v\<lparr>posts := ps, is_in_ready_queue := b\<rparr>"
  have cw: "cwnd ?u = cwnd w" "ssthresh ?u = ssthresh w"
    using v(7) by (simp_all add: cwnd_def)
  then have "flying e m (t + of_nat (length data)) rest ?u"
    using fly v(2,3,4,7) by (simp add: flying_defs base_inv_def)
  moreover have s: "sends w ?u (m + of_nat (min (cwnd w) (length rest))) (t + of_nat (length data)) FLAG_ACK []"
    using v(6) fly by (simp add: sends_def flying_defs)
  moreover obtain a where "arrivals (i + 1) ?u = Some a"
    "seg_is a (m + of_nat (min (cwnd w) (length rest))) (t + of_nat (length data)) FLAG_ACK []"
    by (rule sends_arrives [OF s len [symmetric]])
  ultimately have "faced e m (t + of_nat (length data)) rest (got @ data) i ?u"
    using w v(5) got cw sends_length [OF s] len by (simp add: faced_def facing_def)
  then show ?thesis
    using i arrivals_kept [OF s, of i] len cw by auto
qed

lemma ack_faces:
  assumes w: "faced e m t rest got i w" and nowrap: "unat m + length rest < 2 ^ 32" and some: "rest \<noteq> []"
    and p: "seg_is p seq (m + of_nat (min (cwnd w) (length rest))) FLAG_ACK []"
  shows "\<exists>u. input e p w = Inr u \<and> arrivals (i + 1) u = arrivals (i + 1) w \<and> ssthresh u = ssthresh w
    \<and> ring_contents (recv_buffer u) = got \<and> flying e (m + of_nat (min (cwnd w) (length rest))) t (drop (cwnd w) rest) u
    \<and> (drop (cwnd w) rest \<noteq> [] \<longrightarrow> cwnd u = (if cwnd w < unat (ssthresh w) then 2 * cwnd w else cwnd w + 1)
         \<and> facing e (m + of_nat (min (cwnd w) (length rest))) t (drop (cwnd w) rest) got (i + 2) u)"
proof -
  let ?f = "min (cwnd w) (length rest)"
  have fly: "flying e m t rest w" and pos: "0 < cwnd w" and len: "length (udp_sends (udp w)) = i + 2"
    and got: "ring_contents (recv_buffer w) = got"
    using w by (simp_all add: faced_def)
  have "take (cwnd w) rest \<noteq> []"
    using pos some by simp
  from ack_flies [OF fly this nowrap p] obtain u where u: "input e p w = Inr u" "flying e (m + of_nat ?f) t (drop (cwnd w) rest) u"
    "ssthresh u = ssthresh w" "recv_buffer u = recv_buffer w"
    and more: "drop (cwnd w) rest \<noteq> [] \<Longrightarrow> cwnd u = (if cwnd w < unat (ssthresh w) then 2 * cwnd w else cwnd w + 1)"
      "drop (cwnd w) rest \<noteq> [] \<Longrightarrow> sends w u (m + of_nat ?f) t FLAG_ACK (take (cwnd u) (drop (cwnd w) rest))"
    and over: "drop (cwnd w) rest = [] \<Longrightarrow> udp u = udp w"
    by blast
  have kept: "arrivals (i + 1) u = arrivals (i + 1) w"
    using arrivals_kept [OF more(2), of "i + 1"] over len by (cases "drop (cwnd w) rest = []") (auto simp: arrivals_def)
  have "facing e (m + of_nat ?f) t (drop (cwnd w) rest) got (i + 2) u" if d: "drop (cwnd w) rest \<noteq> []"
  proof -
    obtain q where "arrivals (i + 2) u = Some q" "seg_is q (m + of_nat ?f) t FLAG_ACK (take (cwnd u) (drop (cwnd w) rest))"
      by (rule sends_arrives [OF more(2) [OF d] len [symmetric]])
    moreover have "0 < cwnd u"
      using more(1) [OF d] pos by simp
    ultimately show ?thesis
      using u(2,4) got sends_length [OF more(2) [OF d]] len by (simp add: facing_def)
  qed
  then show ?thesis
    using u got kept more(1) by auto
qed

section \<open>Rounds\<close>

text \<open>The segments cross, then their acknowledgements.\<close>

fun crossings :: "nat \<Rightarrow> nat \<Rightarrow> nat \<Rightarrow> action list" where
  "crossings i j 0 = []"
| "crossings i j (Suc k) = [To_server i, To_client j, To_client (j + 1), To_server (i + 1)] @ crossings (i + 2) (j + 2) k"

lemma one_crossing:
  assumes env: "quiet_env ec" "quiet_env es"
    and c: "facing ec x y rc gc i (client n)" and s: "facing es y x rs gs j (server n)" and some: "rc \<noteq> []" "rs \<noteq> []"
    and room: "length gc + length rs \<le> 1024" "length gs + length rc \<le> 1024"
    and nowrap: "unat x + length rc < 2 ^ 32" "unat y + length rs < 2 ^ 32"
  defines "f \<equiv> cwnd (client n)" and "g \<equiv> cwnd (server n)"
  defines "x' \<equiv> x + of_nat (min f (length rc))" and "y' \<equiv> y + of_nat (min g (length rs))"
  shows "\<exists>c' s'. net_run ec es [To_server i, To_client j, To_client (j + 1), To_server (i + 1)] n
      = Inr (n\<lparr>client := c', server := s'\<rparr>)
    \<and> flying ec x' y' (drop f rc) c' \<and> ring_contents (recv_buffer c') = gc @ take g rs
    \<and> flying es y' x' (drop g rs) s' \<and> ring_contents (recv_buffer s') = gs @ take f rc
    \<and> (drop f rc \<noteq> [] \<longrightarrow> cwnd c' = (if f < unat (ssthresh (client n)) then 2 * f else f + 1)
         \<and> ssthresh c' = ssthresh (client n) \<and> facing ec x' y' (drop f rc) (gc @ take g rs) (i + 2) c')
    \<and> (drop g rs \<noteq> [] \<longrightarrow> cwnd s' = (if g < unat (ssthresh (server n)) then 2 * g else g + 1)
         \<and> ssthresh s' = ssthresh (server n) \<and> facing es y' x' (drop g rs) (gs @ take f rc) (j + 2) s')"
proof -
  have len: "length (take f rc) = min f (length rc)" "length (take g rs) = min g (length rs)"
    by (simp_all add: min.commute)
  obtain p where p: "arrivals i (client n) = Some p" "seg_is p x y FLAG_ACK (take f rc)"
    using c unfolding facing_def f_def by blast
  obtain q where q: "arrivals j (server n) = Some q" "seg_is q y x FLAG_ACK (take g rs)"
    using s unfolding facing_def g_def by blast
  have ne: "take f rc \<noteq> []" "take g rs \<noteq> []"
    using c s some by (simp_all add: facing_def f_def g_def)
  have fits: "length gs + length (take f rc) \<le> 1024" "length gc + length (take g rs) \<le> 1024"
    using room by simp_all
  obtain s1 where s1: "input es p (server n) = Inr s1" "faced es y x' rs (gs @ take f rc) j s1"
    "arrivals j s1 = arrivals j (server n)" "cwnd s1 = g" "ssthresh s1 = ssthresh (server n)"
    using data_faced [OF env(2) s p(2) ne(1) fits(1), unfolded len, folded x'_def g_def] by blast
  obtain c1 where c1: "input ec q (client n) = Inr c1" "faced ec x y' rc (gc @ take g rs) i c1" "cwnd c1 = f"
    "ssthresh c1 = ssthresh (client n)"
    using data_faced [OF env(1) c q(2) ne(2) fits(2), unfolded len, folded y'_def f_def] by blast
  obtain a where a: "arrivals (j + 1) s1 = Some a" "seg_is a y' x' FLAG_ACK []"
    using s1(2,4) unfolding faced_def y'_def by auto
  obtain b where b: "arrivals (i + 1) c1 = Some b" "seg_is b x' y' FLAG_ACK []"
    using c1(2,3) unfolding faced_def x'_def by auto
  obtain c2 where c2: "input ec a c1 = Inr c2" "arrivals (i + 1) c2 = Some b" "ring_contents (recv_buffer c2) = gc @ take g rs"
    "flying ec x' y' (drop f rc) c2"
    "drop f rc \<noteq> [] \<longrightarrow> cwnd c2 = (if f < unat (ssthresh (client n)) then 2 * f else f + 1)
         \<and> ssthresh c2 = ssthresh (client n) \<and> facing ec x' y' (drop f rc) (gc @ take g rs) (i + 2) c2"
    using ack_faces [OF c1(2) nowrap(1) some(1), unfolded c1(3,4), folded x'_def, OF a(2)] b(1) by auto
  obtain s2 where s2: "input es b s1 = Inr s2" "ring_contents (recv_buffer s2) = gs @ take f rc" "flying es y' x' (drop g rs) s2"
    "drop g rs \<noteq> [] \<longrightarrow> cwnd s2 = (if g < unat (ssthresh (server n)) then 2 * g else g + 1)
         \<and> ssthresh s2 = ssthresh (server n) \<and> facing es y' x' (drop g rs) (gs @ take f rc) (j + 2) s2"
    using ack_faces [OF s1(2) nowrap(2) some(2), unfolded s1(4,5), folded y'_def, OF b(2)] by auto
  have "net_run ec es [To_server i, To_client j, To_client (j + 1), To_server (i + 1)] n = Inr (n\<lparr>client := c2, server := s2\<rparr>)"
    using deliver_server [OF p(1) s1(1), of ec] deliver_client [of j "n\<lparr>server := s1\<rparr>" q ec c1 es] q(1) s1(3) c1(1)
      deliver_client [of "j + 1" "n\<lparr>server := s1, client := c1\<rparr>" a ec c2 es] a(1) c2(1)
      deliver_server [of "i + 1" "n\<lparr>server := s1, client := c2\<rparr>" b es s2 ec] c2(2) s2(1)
    by (cases n) (simp del: net_step.simps)
  then show ?thesis
    using c2 s2 by blast
qed

text \<open>What a side has sent and received after \<open>k\<close> rounds.\<close>

definition crossed :: "env \<Rightarrow> u32 \<Rightarrow> u32 \<Rightarrow> u8 list \<Rightarrow> nat \<Rightarrow> u8 list \<Rightarrow> nat \<Rightarrow> u8 list \<Rightarrow> world \<Rightarrow> bool" where
  "crossed e m t mine a theirs b got w \<longleftrightarrow>
     flying e (m + of_nat (min a (length mine))) (t + of_nat (min b (length theirs))) (drop a mine) w
     \<and> ring_contents (recv_buffer w) = got @ take b theirs"

lemma crossed_first:
  assumes "crossed e (m + of_nat f) (t + of_nat g) (drop f mine) a (drop g theirs) b (got @ take g theirs) w"
    and "f < length mine" and "g < length theirs"
  shows "crossed e m t mine (f + a) theirs (g + b) got w"
  using assms by (simp add: crossed_def carried_split add.assoc)

lemma carried_left:
  assumes "\<forall>h<Suc k. carried c s h < length xs" and "c' = (if c < s then 2 * c else c + 1)"
  shows "\<forall>h<k. carried c' s h < length (drop c xs)"
proof (intro allI impI)
  fix h
  assume "h < k"
  then show "carried c' s h < length (drop c xs)"
    using assms(1) [rule_format, of "Suc h"] assms(2) by simp
qed

lemma crossing_rounds:
  assumes env: "quiet_env ec" "quiet_env es"
  shows "facing ec x y rc gc i (client n) \<Longrightarrow> facing es y x rs gs j (server n) \<Longrightarrow>
    length gc + length rs \<le> 1024 \<Longrightarrow> length gs + length rc \<le> 1024 \<Longrightarrow>
    unat x + length rc < 2 ^ 32 \<Longrightarrow> unat y + length rs < 2 ^ 32 \<Longrightarrow>
    \<forall>h<k. carried (cwnd (client n)) (unat (ssthresh (client n))) h < length rc \<Longrightarrow>
    \<forall>h<k. carried (cwnd (server n)) (unat (ssthresh (server n))) h < length rs \<Longrightarrow>
    \<exists>c' s'. net_run ec es (crossings i j k) n = Inr (n\<lparr>client := c', server := s'\<rparr>)
      \<and> crossed ec x y rc (carried (cwnd (client n)) (unat (ssthresh (client n))) k)
          rs (carried (cwnd (server n)) (unat (ssthresh (server n))) k) gc c'
      \<and> crossed es y x rs (carried (cwnd (server n)) (unat (ssthresh (server n))) k)
          rc (carried (cwnd (client n)) (unat (ssthresh (client n))) k) gs s'"
proof (induction k arbitrary: n x y rc rs gc gs i j)
  case 0
  then show ?case
    by - (rule exI [of _ "client n"], rule exI [of _ "server n"], simp add: facing_def crossed_def)
next
  case (Suc k)
  let ?f = "cwnd (client n)" and ?g = "cwnd (server n)"
  have some: "rc \<noteq> []" "rs \<noteq> []"
    using Suc.prems(7,8) by auto
  obtain c1 s1 where run: "net_run ec es [To_server i, To_client j, To_client (j + 1), To_server (i + 1)] n
      = Inr (n\<lparr>client := c1, server := s1\<rparr>)"
    and c1: "flying ec (x + of_nat (min ?f (length rc))) (y + of_nat (min ?g (length rs))) (drop ?f rc) c1"
      "ring_contents (recv_buffer c1) = gc @ take ?g rs"
    and s1: "flying es (y + of_nat (min ?g (length rs))) (x + of_nat (min ?f (length rc))) (drop ?g rs) s1"
      "ring_contents (recv_buffer s1) = gs @ take ?f rc"
    and c2: "drop ?f rc \<noteq> [] \<Longrightarrow> cwnd c1 = (if ?f < unat (ssthresh (client n)) then 2 * ?f else ?f + 1)
      \<and> ssthresh c1 = ssthresh (client n)
      \<and> facing ec (x + of_nat (min ?f (length rc))) (y + of_nat (min ?g (length rs))) (drop ?f rc) (gc @ take ?g rs) (i + 2) c1"
    and s2: "drop ?g rs \<noteq> [] \<Longrightarrow> cwnd s1 = (if ?g < unat (ssthresh (server n)) then 2 * ?g else ?g + 1)
      \<and> ssthresh s1 = ssthresh (server n)
      \<and> facing es (y + of_nat (min ?g (length rs))) (x + of_nat (min ?f (length rc))) (drop ?g rs) (gs @ take ?f rc) (j + 2) s1"
    using one_crossing [OF env Suc.prems(1,2) some Suc.prems(3-6)] by blast
  let ?n = "n\<lparr>client := c1, server := s1\<rparr>"
  have first: "net_run ec es (crossings i j (Suc k)) n = net_run ec es (crossings (i + 2) (j + 2) k) ?n"
    unfolding crossings.simps net_run_append run by simp
  show ?case
  proof (cases k)
    case 0
    then show ?thesis
      using c1 s1 unfolding first by - (rule exI [of _ c1], rule exI [of _ s1], simp add: crossed_def)
  next
    case (Suc l)
    have lt: "?f < length rc" "?g < length rs"
      using Suc.prems(7,8) [rule_format, of 1] Suc by simp_all
    then have ne: "drop ?f rc \<noteq> []" "drop ?g rs \<noteq> []"
      by simp_all
    note c2 = c2 [OF ne(1)] and s2 = s2 [OF ne(2)]
    note left = window_left [OF ne(1) Suc.prems(4,5)] window_left [OF ne(2) Suc.prems(3,6)]
    have room: "length (gc @ take ?g rs) + length (drop ?g rs) \<le> 1024" "length (gs @ take ?f rc) + length (drop ?f rc) \<le> 1024"
      using left(4,9) lt by simp_all
    have more: "\<forall>h<k. carried (cwnd c1) (unat (ssthresh c1)) h < length (drop ?f rc)"
      "\<forall>h<k. carried (cwnd s1) (unat (ssthresh s1)) h < length (drop ?g rs)"
      using carried_left [OF Suc.prems(7)] carried_left [OF Suc.prems(8)] c2 s2 by simp_all
    have sums: "carried ?f (unat (ssthresh (client n))) (Suc k) = ?f + carried (cwnd c1) (unat (ssthresh c1)) k"
      "carried ?g (unat (ssthresh (server n))) (Suc k) = ?g + carried (cwnd s1) (unat (ssthresh s1)) k"
      using c2 s2 by simp_all
    obtain c' s' where "net_run ec es (crossings (i + 2) (j + 2) k) ?n = Inr (?n\<lparr>client := c', server := s'\<rparr>)"
      and ends: "crossed ec (x + of_nat ?f) (y + of_nat ?g) (drop ?f rc) (carried (cwnd c1) (unat (ssthresh c1)) k)
          (drop ?g rs) (carried (cwnd s1) (unat (ssthresh s1)) k) (gc @ take ?g rs) c'"
        "crossed es (y + of_nat ?g) (x + of_nat ?f) (drop ?g rs) (carried (cwnd s1) (unat (ssthresh s1)) k)
          (drop ?f rc) (carried (cwnd c1) (unat (ssthresh c1)) k) (gs @ take ?f rc) s'"
      using Suc.IH [of "x + of_nat ?f" "y + of_nat ?g" "drop ?f rc" "gc @ take ?g rs" "i + 2" ?n "drop ?g rs" "gs @ take ?f rc" "j + 2"]
        c2 s2 lt room left(5,10) more by auto
    then have "net_run ec es (crossings i j (Suc k)) n = Inr (n\<lparr>client := c', server := s'\<rparr>)"
      using first by (cases n) (simp del: crossings.simps)
    then show ?thesis
      using crossed_first [OF ends(1) lt] crossed_first [OF ends(2) lt(2,1)] unfolding sums by blast
  qed
qed

lemma send_faces:
  assumes w: "idle e ESTABLISHED m t w" and dups: "dup_ack_count w = 0" and data: "data \<noteq> []" "length data \<le> 1024"
    and pos: "0 < cwnd w" and i: "i = length (udp_sends (udp w))"
  shows "\<exists>u. send e data w = Inr (length data, u) \<and> facing e m t data (ring_contents (recv_buffer w)) i u
    \<and> cwnd u = cwnd w \<and> ssthresh u = ssthresh w"
proof -
  obtain u where u: "send e data w = Inr (length data, u)" "flying e m t data u" "sends w u m t FLAG_ACK (take (cwnd w) data)"
    "cwnd u = cwnd w" "ssthresh u = ssthresh w"
    using send_flies [OF w dups data pos] by blast
  obtain p where "arrivals i u = Some p" "seg_is p m t FLAG_ACK (take (cwnd w) data)"
    by (rule sends_arrives [OF u(3) i])
  moreover have "recv_buffer u = recv_buffer w"
    using u(1) w data(1) by (auto simp: send_eq idle_def queued_def)
  ultimately have "facing e m t data (ring_contents (recv_buffer w)) i u"
    using u pos i sends_length [OF u(3)] by (simp add: facing_def)
  then show ?thesis
    using u by blast
qed

lemma crossed_end: "crossed e m t mine a theirs b got w \<Longrightarrow> length mine \<le> a \<Longrightarrow> length theirs \<le> b \<Longrightarrow>
    idle e ESTABLISHED (m + of_nat (length mine)) (t + of_nat (length theirs)) w"
  using flying_idle by (simp add: crossed_def)

section \<open>Property\<close>

text \<open>
  C7: Both directions at once. On an idle established connection both sides write. Their
  segments cross, each side takes in the other's while its own is unacknowledged and
  acknowledges it, and the acknowledgements let the next segments out: after \<open>k\<close> rounds,
  as long as both have something to send before each, each side has exactly the first bytes of
  the other that the other's first \<open>k\<close> windows carry, as many as if nothing came back; when that is
  everything, both are idle again. The conditions, on either side: the window is not zero and no
  duplicate acknowledgements have been counted; between one and 1024 bytes are written, and the
  other's receive buffer has room for them beside what it holds; their sequence numbers do not
  wrap, that is the next one plus their number stays below \<open>2 ^ 32\<close> (otherwise no
  acknowledgement is accepted any more; see \<open>wrapped_window_accepts_no_ack\<close>); and the callbacks
  leave the sessions alone. No datagram is lost.
\<close>

theorem both_directions:
  assumes "quiet_env ec" and "quiet_env es"
    and "idle ec ESTABLISHED x y (client n)" and "idle es ESTABLISHED y x (server n)"
    and "dup_ack_count (client n) = 0" and "dup_ack_count (server n) = 0" and "0 < cwnd (client n)" and "0 < cwnd (server n)"
    and "cdata \<noteq> []" and "length cdata \<le> 1024" and "sdata \<noteq> []" and "length sdata \<le> 1024"
    and "qsize (recv_buffer (client n)) + length sdata \<le> 1024" and "qsize (recv_buffer (server n)) + length cdata \<le> 1024"
    and "unat x + length cdata < 2 ^ 32" and "unat y + length sdata < 2 ^ 32"
  defines "tc \<equiv> carried (cwnd (client n)) (unat (ssthresh (client n)))"
    and "ts \<equiv> carried (cwnd (server n)) (unat (ssthresh (server n)))"
  assumes "\<forall>h<k. tc h < length cdata" and "\<forall>h<k. ts h < length sdata"
  shows "\<exists>n'. net_run ec es ([At_client (Ev_send cdata), At_server (Ev_send sdata)]
        @ crossings (length (udp_sends (udp (client n)))) (length (udp_sends (udp (server n)))) k) n = Inr n'
    \<and> ring_contents (recv_buffer (server n')) = ring_contents (recv_buffer (server n)) @ take (tc k) cdata
    \<and> ring_contents (recv_buffer (client n')) = ring_contents (recv_buffer (client n)) @ take (ts k) sdata
    \<and> ring_contents (send_buffer (client n')) = drop (tc k) cdata \<and> ring_contents (send_buffer (server n')) = drop (ts k) sdata
    \<and> (length cdata \<le> tc k \<and> length sdata \<le> ts k \<longrightarrow>
         idle ec ESTABLISHED (x + of_nat (length cdata)) (y + of_nat (length sdata)) (client n')
         \<and> idle es ESTABLISHED (y + of_nat (length sdata)) (x + of_nat (length cdata)) (server n'))"
proof -
  let ?i = "length (udp_sends (udp (client n)))" and ?j = "length (udp_sends (udp (server n)))"
  obtain c where c: "send ec cdata (client n) = Inr (length cdata, c)" "cwnd c = cwnd (client n)" "ssthresh c = ssthresh (client n)"
    "facing ec x y cdata (ring_contents (recv_buffer (client n))) ?i c"
    using send_faces [OF assms(3,5,9,10,7) refl] by blast
  obtain s where s: "send es sdata (server n) = Inr (length sdata, s)" "cwnd s = cwnd (server n)" "ssthresh s = ssthresh (server n)"
    "facing es y x sdata (ring_contents (recv_buffer (server n))) ?j s"
    using send_faces [OF assms(4,6,11,12,8) refl] by blast
  let ?n = "n\<lparr>client := c, client_wrote := client_wrote n @ cdata, server := s, server_wrote := server_wrote n @ sdata\<rparr>"
  have "net_run ec es [At_client (Ev_send cdata), At_server (Ev_send sdata)] n = Inr ?n"
    using c(1) s(1) by (cases n) (simp add: client_does_def server_does_def accepted_def)
  then have first: "net_run ec es ([At_client (Ev_send cdata), At_server (Ev_send sdata)] @ crossings ?i ?j k) n
      = net_run ec es (crossings ?i ?j k) ?n"
    unfolding net_run_append by simp
  have pre: "facing ec x y cdata (ring_contents (recv_buffer (client n))) ?i (client ?n)"
    "facing es y x sdata (ring_contents (recv_buffer (server n))) ?j (server ?n)"
    "length (ring_contents (recv_buffer (client n))) + length sdata \<le> 1024"
    "length (ring_contents (recv_buffer (server n))) + length cdata \<le> 1024"
    "carried (cwnd (client ?n)) (unat (ssthresh (client ?n))) = tc" "carried (cwnd (server ?n)) (unat (ssthresh (server ?n))) = ts"
    using c s assms(13,14) by (simp_all add: tc_def ts_def)
  obtain c' s' where run: "net_run ec es (crossings ?i ?j k) ?n = Inr (?n\<lparr>client := c', server := s'\<rparr>)"
    and ends: "crossed ec x y cdata (tc k) sdata (ts k) (ring_contents (recv_buffer (client n))) c'"
    "crossed es y x sdata (ts k) cdata (tc k) (ring_contents (recv_buffer (server n))) s'"
    using crossing_rounds [OF assms(1,2) pre(1-4) assms(15,16), unfolded pre(5,6), OF assms(19,20)] by blast
  show ?thesis
    unfolding first using run ends crossed_end [OF ends(1)] crossed_end [OF ends(2)]
    by (intro exI [of _ "?n\<lparr>client := c', server := s'\<rparr>"]) (simp add: crossed_def flying_defs)
qed

theorem both_directions_witness:
  "\<exists>n'. net_run example_env example_env ([At_client (Ev_send (replicate 12 7)), At_server (Ev_send (replicate 20 9))]
        @ crossings 0 0 2) (example_net 1000 2000) = Inr n'
    \<and> ring_contents (recv_buffer (server n')) = replicate 12 7 \<and> ring_contents (recv_buffer (client n')) = replicate 17 9"
proof -
  let ?n = "example_net 1000 2000"
  have n: "udp_sends (udp (client ?n)) = []" "udp_sends (udp (server ?n)) = []" "cwnd (client ?n) = 8" "cwnd (server ?n) = 8"
    "ssthresh (client ?n) = 8" "ssthresh (server ?n) = 8" "dup_ack_count (client ?n) = 0" "dup_ack_count (server ?n) = 0"
    "qsize (recv_buffer (client ?n)) = 0" "qsize (recv_buffer (server ?n)) = 0"
    "ring_contents (recv_buffer (client ?n)) = []" "ring_contents (recv_buffer (server ?n)) = []"
    by (simp_all add: example_net_def example_established_def enter_world_new new_driver_def cwnd_def ring_simps)
      (simp_all add: ring_new_def)
  have t: "carried 8 8 2 = 17" "\<forall>h<2. carried 8 8 h < 12" "\<forall>h<2. carried 8 8 h < 20"
    by (simp_all add: numeral_2_eq_2 less_Suc_eq)
  show ?thesis
    using both_directions [OF example_quiet example_quiet example_net_idle n(7,8), of "replicate 12 7" "replicate 20 9" 2] n t
    by (auto simp: take_replicate simp del: net_run.simps)
qed

end
