(* ===== verification/Resending.thy ===== *)
theory Resending
  imports Congestion
begin

text \<open>
  A segment that is sent again until it is answered: what the expiries of its timer put on the
  wire, and the exchange with a peer that answers every copy while its answers are lost.
\<close>

section \<open>The last datagram\<close>

definition last_arrival :: "world \<Rightarrow> tcp_packet option" where
  "last_arrival w = arrivals (length (udp_sends (udp w)) - 1) w"

text \<open>The same, where only datagrams to the given address arrive.\<close>

definition last_arrival_at :: "sock_addr \<Rightarrow> world \<Rightarrow> tcp_packet option" where
  "last_arrival_at addr w =
     (if udp_sends (udp w) \<noteq> [] \<and> snd (last (udp_sends (udp w))) = addr then last_arrival w else None)"

lemma last_arrivalI:
  assumes "udp_sends (udp w) = xs @ [(raw_data q, dest)]" and "seg_is q seq ack fl data"
  shows "last_arrival w = Some q" and "last_arrival_at dest w = Some q"
proof -
  show "last_arrival w = Some q"
    unfolding last_arrival_def by (rule arrivals_last [where xs = xs and ys = "[]"]) (use assms in \<open>simp_all add: seg_is_def\<close>)
  then show "last_arrival_at dest w = Some q"
    by (simp add: last_arrival_at_def assms(1))
qed

lemma sends_last: "sends w w' seq ack fl data \<Longrightarrow> \<exists>q. last_arrival w' = Some q \<and> seg_is q seq ack fl data"
  unfolding sends_def using last_arrivalI(1) by metis

section \<open>One expiry\<close>

lemma resent_parsed:
  assumes "resent p ack q" and "seg_is p seq a fl data"
  shows "parse_datagram (raw_data q) = Some (q\<lparr>options := []\<rparr>)" and "seg_is (q\<lparr>options := []\<rparr>) seq ack fl data"
proof -
  have raw: "raw_data q = raw_data (q\<lparr>options := []\<rparr>)"
    by (simp add: raw_data_def)
  show "parse_datagram (raw_data q) = Some (q\<lparr>options := []\<rparr>)"
    unfolding raw by (rule wire.law_dec_enc) simp
  have "verify_checksum (q\<lparr>options := []\<rparr>) = verify_checksum q"
    by (simp add: verify_checksum_def)
  then show "seg_is (q\<lparr>options := []\<rparr>) seq ack fl data"
    using assms by (simp add: resent_def seg_is_def)
qed

text \<open>
  While the count of retransmissions is below four, the expiry of a segment's timer sends it again
  to the address stored with it, leaves the connection as it is, and reduces the congestion
  window to one byte.
\<close>

lemma waiting_resends:
  assumes w: "waiting e p dest k w0 w" and k: "k < 4" and base: "base_inv w"
    and p: "seg_is p seq t fl data" "recv_next (rwnd w0) = t" and short: "length data \<le> 65535"
  shows "\<exists>w' q xs. timer_expires e seq w = Inr w' \<and> waiting e p dest (Suc k) w0 w' \<and> base_inv w'
    \<and> same_connection w w' \<and> cwnd w' = 1 \<and> udp_sends (udp w') = xs @ [(raw_data q, dest)] \<and> seg_is q seq t fl data"
proof -
  have p': "ntohl (seq_num (header p)) = seq" "length (payload p) \<le> 65535"
    using p short by (simp_all add: seg_is_def)
  obtain w' where w': "timer_expires e seq w = Inr w'" "waiting e p dest (Suc k) w0 w'"
    using waiting_expires [OF w k p'(2)] p'(1) by auto
  obtain c u where c: "armed_closure (tmgr w) seq = Some (c, u)" "rt_count c = of_nat k"
    using w p'(1) unfolding waiting_def by blast
  then have run: "w' = run_retransmit_closure e c w"
    using w'(1) timer_expires_armed by fastforce
  then have "base_inv w'"
    using base by (simp add: run_retransmit_closure_def base_inv_retransmit)
  moreover have "rt_count c + 1 < MAX_RETRANSMIT_COUNT"
    using count_limit [of k] k c(2) by (simp add: not_le [symmetric] del: not_le)
  then have "cwnd w' = 1"
    unfolding run by (rule expiry_window)
  moreover have "same_connection w w'"
    using w w'(2) by (simp add: waiting_def same_connection_def)
  moreover obtain qs where qs: "udp_sends (udp w') = udp_sends (udp w0) @ map (\<lambda>q. (raw_data q, dest)) qs"
    "length qs = Suc k" "\<forall>q\<in>set qs. resent p t q"
    using w'(2) p(2) unfolding waiting_def resent_times_def by blast
  then obtain ys q where y: "qs = ys @ [q]"
    by (metis length_Suc_conv_rev)
  then have "seg_is (q\<lparr>options := []\<rparr>) seq t fl data" and "raw_data q = raw_data (q\<lparr>options := []\<rparr>)"
    using qs(3) resent_parsed(2) [OF _ p(1)] by (simp_all add: raw_data_def)
  moreover have "udp_sends (udp w') = (udp_sends (udp w0) @ map (\<lambda>q. (raw_data q, dest)) ys) @ [(raw_data q, dest)]"
    using qs(1) y by simp
  ultimately show ?thesis
    using w' by metis
qed

section \<open>Expiries and answers\<close>

text \<open>
  The timer expires and the segment it sends again is answered; \<open>n\<close> times in a row, each
  answer but the last being lost. \<open>hear\<close> is what arrives of the datagrams sent.
\<close>

fun asked_again :: "(world \<Rightarrow> tcp_packet option) \<Rightarrow> env \<Rightarrow> env \<Rightarrow> u32 \<Rightarrow> nat \<Rightarrow> world \<times> world \<Rightarrow> (world \<times> world) result" where
  "asked_again hear e e' seq 0 (w, v) = Inr (w, v)"
| "asked_again hear e e' seq (Suc n) (w, v) =
     bind_res (timer_expires e seq w) (\<lambda>w.
       case hear w of
         None \<Rightarrow> Inr (w, v)
       | Some p \<Rightarrow> bind_res (input e' p v) (\<lambda>v. asked_again hear e e' seq n (w, v)))"

text \<open>
  A sender whose segment is outstanding for the \<open>k\<close>-th time: each of its datagrams that arrives is
  a good one, and below four it sends another.
\<close>

locale resending =
  fixes e :: env and seq :: u32 and hear :: "world \<Rightarrow> tcp_packet option"
    and out :: "nat \<Rightarrow> world \<Rightarrow> bool" and good :: "tcp_packet \<Rightarrow> bool"
  assumes again: "out k w \<Longrightarrow> k < 4 \<Longrightarrow> \<exists>w'. timer_expires e seq w = Inr w' \<and> out (Suc k) w'"
    and heard: "out k w \<Longrightarrow> \<exists>q. hear w = Some q \<and> good q"
begin

lemma expires:
  assumes "out 0 w"
  shows "k \<le> 4 \<Longrightarrow> \<exists>w'. expiries e seq k w = Inr w' \<and> out k w'"
proof (induction k)
  case (Suc k)
  then obtain w' where "expiries e seq k w = Inr w'" "out k w'"
    by auto
  then show ?case
    using again [of k w'] Suc.prems by auto
qed (use assms in simp)

lemma asked:
  assumes "\<And>p v. R v \<Longrightarrow> good p \<Longrightarrow> \<exists>v'. input e' p v = Inr v' \<and> R v'"
  shows "out k w \<Longrightarrow> R v \<Longrightarrow> k + n \<le> 4 \<Longrightarrow>
    \<exists>w' v'. asked_again hear e e' seq n (w, v) = Inr (w', v') \<and> out (k + n) w' \<and> R v'"
proof (induction n arbitrary: k w v)
  case (Suc n)
  obtain w1 where w1: "timer_expires e seq w = Inr w1" "out (Suc k) w1"
    using again [OF Suc.prems(1)] Suc.prems(3) by auto
  obtain p where p: "hear w1 = Some p" "good p"
    using heard [OF w1(2)] by blast
  obtain v1 where v1: "input e' p v = Inr v1" "R v1"
    using assms [OF Suc.prems(2) p(2)] by blast
  then show ?case
    using Suc.IH [OF w1(2) v1(2)] Suc.prems(3) w1(1) p(1) by simp
qed auto

text \<open>
  The first \<open>k\<close> copies are lost, the next one is answered, and so are \<open>a\<close> more, of which all
  answers but the last are lost.
\<close>

lemma answered:
  assumes "\<And>p v. R v \<Longrightarrow> good p \<Longrightarrow> \<exists>v'. input e' p v = Inr v' \<and> R v'"
    and "\<And>p. good p \<Longrightarrow> \<exists>v'. input e' p v = Inr v' \<and> R v'" and "out 0 w" and "k + a \<le> 4"
  shows "\<exists>w1 p v1 w2 v2. expiries e seq k w = Inr w1 \<and> hear w1 = Some p \<and> input e' p v = Inr v1
    \<and> asked_again hear e e' seq a (w1, v1) = Inr (w2, v2) \<and> out (k + a) w2 \<and> R v2"
proof -
  have "k \<le> 4"
    using assms(4) by simp
  then obtain w1 where w1: "expiries e seq k w = Inr w1" "out k w1"
    using expires [OF assms(3)] by blast
  obtain p where p: "hear w1 = Some p" "good p"
    using heard [OF w1(2)] by blast
  obtain v1 where v1: "input e' p v = Inr v1" "R v1"
    using assms(2) [OF p(2)] by blast
  show ?thesis
    using asked [OF assms(1) w1(2) v1(2) assms(4)] w1(1) p(1) v1(1) by blast
qed

end

section \<open>Control segments\<close>

text \<open>The last datagram is a control segment that is kept for retransmission to the same address.\<close>

definition outstanding :: "world \<Rightarrow> u32 \<Rightarrow> u32 \<Rightarrow> u8 \<Rightarrow> bool" where
  "outstanding w seq ack fl \<longleftrightarrow> (\<exists>p xs ip port t. udp_sends (udp w) = xs @ [(raw_data p, (ip, port))]
     \<and> seg_is p seq ack fl []
     \<and> armed_closure (tmgr w) seq = Some (\<lparr>rt_packet = p, rt_count = 0, rt_ip = ip, rt_port = port\<rparr>, t))"

text \<open>The session's last segment took one sequence number and has been sent \<open>k\<close> times again.\<close>

definition pending :: "env \<Rightarrow> tcp_state \<Rightarrow> u32 \<Rightarrow> u32 \<Rightarrow> u8 \<Rightarrow> nat \<Rightarrow> world \<Rightarrow> bool" where
  "pending e s seq t fl k w \<longleftrightarrow> ends e s seq (seq + 1) t w
     \<and> (\<exists>p dest w0. waiting e p dest k w0 w \<and> seg_is p seq t fl [] \<and> recv_next (rwnd w0) = t)
     \<and> (\<exists>q. last_arrival w = Some q \<and> seg_is q seq t fl [])"

lemma pending_start:
  assumes "ends e s seq (seq + 1) t w" and "outstanding w seq t fl"
  shows "pending e s seq t fl 0 w"
proof -
  obtain p xs ip port tm where p: "udp_sends (udp w) = xs @ [(raw_data p, (ip, port))]" "seg_is p seq t fl []"
    "armed_closure (tmgr w) seq = Some (\<lparr>rt_packet = p, rt_count = 0, rt_ip = ip, rt_port = port\<rparr>, tm)"
    using assms(2) unfolding outstanding_def by blast
  have "timers_ok (tmgr w)" "reliable e (udp w)" "ntohl (seq_num (header p)) = seq"
    using assms(1) p(2) by (simp_all add: ends_def seg_is_def base_inv_def base_ok_def)
  then have "waiting e p (ip, port) 0 w w"
    using p(3) by (intro sent_is_waiting) auto
  then show ?thesis
    using assms(1) p(2) last_arrivalI(1) [OF p(1,2)] unfolding pending_def ends_def by blast
qed

lemma pending_expires:
  assumes w: "pending e s seq t fl k w" and k: "k < 4"
  shows "\<exists>w'. timer_expires e seq w = Inr w' \<and> pending e s seq t fl (Suc k) w' \<and> send_buffer w' = send_buffer w"
proof -
  obtain p dest w0 where wt: "waiting e p dest k w0 w" and p: "seg_is p seq t fl []" "recv_next (rwnd w0) = t"
    and ends: "ends e s seq (seq + 1) t w"
    using w unfolding pending_def by blast
  have base: "base_inv w"
    using ends by (simp add: ends_def)
  obtain w' q xs where w': "timer_expires e seq w = Inr w'" "waiting e p dest (Suc k) w0 w'" "base_inv w'"
    "same_connection w w'" and q: "udp_sends (udp w') = xs @ [(raw_data q, dest)]" "seg_is q seq t fl []"
    using waiting_resends [OF wt k base p] by auto
  have "reliable e (udp w')"
    using w'(2) by (simp add: waiting_def)
  then have "ends e s seq (seq + 1) t w'" "send_buffer w' = send_buffer w"
    using ends w'(3,4) by (simp_all add: ends_def same_connection_def)
  then show ?thesis
    using w'(1,2) p last_arrivalI(1) [OF q] q(2) unfolding pending_def by blast
qed

interpretation control: resending e seq last_arrival "pending e s seq t fl" "\<lambda>q. seg_is q seq t fl []" for e s seq t fl
  using pending_expires by unfold_locales (blast, simp add: pending_def)

end
