(* ===== verification/Opening_Losses.thy ===== *)
theory Opening_Losses
  imports Resending
begin

text \<open>
  Opening a connection over a network that loses datagrams: what the retransmissions of the
  SYN and of the SYN+ACK repair, and what the loss of the last acknowledgement does, which
  nothing retransmits.
\<close>

section \<open>A control segment whose timer runs\<close>

lemma control_outstanding:
  assumes "base_inv w" and "reliable e (udp w)" and "fl AND FLAG_SYN \<noteq> 0 \<or> fl AND FLAG_FIN \<noteq> 0"
  shows "outstanding (send_control_packet e fl w) (send_next (swnd w)) (recv_next (rwnd w)) fl"
proof -
  let ?p = "segment e (recv_next (rwnd w)) fl [] w"
  let ?c = "\<lparr>rt_packet = ?p, rt_count = 0, rt_ip = remote_ip w, rt_port = remote_port w\<rparr>"
  have "timers_ok (tmgr w)"
    using assms(1) by (simp add: base_inv_def base_ok_def)
  from tm.law_start [OF this, of "send_next (swnd w)" "(?c, get_timeout_ms w)"]
  have "armed_closure (tmgr (send_control_packet e fl w)) (send_next (swnd w)) = Some (?c, get_timeout_ms w)"
    using assms(3) by (simp add: send_control_packet_def Let_def segment_def has_flag_def make_header_def)
  then show ?thesis
    using control_sends [OF assms(2), of fl] segment_is [of "[]" e "recv_next (rwnd w)" fl w] unfolding outstanding_def by auto
qed

lemma connect_outstanding:
  assumes "base_inv w" and "reliable e (udp w)"
  shows "outstanding (connect e w) (gen_initial_seq e (iss_calls w)) (recv_next (rwnd w)) FLAG_SYN"
proof -
  let ?isn = "gen_initial_seq e (iss_calls w)"
  let ?w = "(transition_to SYN_SENT w)\<lparr>udp := set_on_receive (Session_input (self_ptr w)) (udp w),
      iss_calls := iss_calls w + 1, swnd := (swnd w)\<lparr>send_next := ?isn, send_unack := ?isn\<rparr>\<rparr>"
  have "base_inv ?w" "reliable e (udp ?w)"
    using assms by (simp_all add: base_inv_def transition_to_def)
  from control_outstanding [OF this, of FLAG_SYN] have "outstanding (send_control_packet e FLAG_SYN ?w) ?isn (recv_next (rwnd w)) FLAG_SYN"
    by (simp add: flag_values transition_to_def)
  then show ?thesis
    by (simp add: connect_def Let_def transition_to_def outstanding_def)
qed

lemma listen_outstanding:
  assumes w: "base_inv w" "state w = LISTEN" "reliable e (udp w)" and p: "seg_is p seq a FLAG_SYN []"
    and i: "input e p w = Inr w'"
  shows "outstanding w' (gen_initial_seq e (iss_calls w)) (seq + 1) (FLAG_SYN OR FLAG_ACK)"
proof -
  let ?v = "transition_to SYN_RECEIVED (w\<lparr>peer_usable_window_size := ucast (ntohs (window_size (header p))),
      iss_calls := iss_calls w + 1,
      swnd := (swnd w)\<lparr>send_next := gen_initial_seq e (iss_calls w), send_unack := gen_initial_seq e (iss_calls w)\<rparr>,
      rwnd := (rwnd w)\<lparr>recv_next := seq + 1\<rparr>\<rparr>)"
  have "base_inv ?v" "reliable e (udp ?v)"
    using w by (simp_all add: base_inv_def transition_to_def)
  from control_outstanding [OF this, of "FLAG_SYN OR FLAG_ACK"]
  have "outstanding (send_control_packet e (FLAG_SYN OR FLAG_ACK) ?v) (gen_initial_seq e (iss_calls w)) (seq + 1) (FLAG_SYN OR FLAG_ACK)"
    by (simp add: flag_values transition_to_def)
  moreover have "w' = (send_control_packet e (FLAG_SYN OR FLAG_ACK) ?v)
      \<lparr>swnd := (swnd (send_control_packet e (FLAG_SYN OR FLAG_ACK) ?v))\<lparr>send_next := gen_initial_seq e (iss_calls w) + 1\<rparr>\<rparr>"
    using i unfolding input_listen_eq(1) [OF w(2) p, of e] input_listen_eq(2) [OF w(2) p, of e] by simp
  ultimately show ?thesis
    by (simp add: outstanding_def)
qed

text \<open>A SYN or SYN+ACK that is sent until it is answered.\<close>

definition syn_pending :: "env \<Rightarrow> tcp_state \<Rightarrow> u32 \<Rightarrow> u32 \<Rightarrow> u8 \<Rightarrow> nat \<Rightarrow> world \<Rightarrow> bool" where
  "syn_pending e s isn t fl k w \<longleftrightarrow> pending e s isn t fl k w \<and> qsize (send_buffer w) = 0"

interpretation syn: resending e isn last_arrival "syn_pending e s isn t fl" "\<lambda>q. seg_is q isn t fl []" for e s isn t fl
proof unfold_locales
  fix k w
  assume "syn_pending e s isn t fl k w" and "k < 4"
  then show "\<exists>w'. timer_expires e isn w = Inr w' \<and> syn_pending e s isn t fl (Suc k) w'"
    using pending_expires unfolding syn_pending_def by metis
qed (simp add: syn_pending_def pending_def)

lemma syn_pending_start: "syn_out e s isn w \<Longrightarrow> outstanding w isn (recv_next (rwnd w)) fl \<Longrightarrow> syn_pending e s isn (recv_next (rwnd w)) fl 0 w"
  by (simp add: syn_pending_def syn_out_def pending_start ends_def)

lemma syn_pending_out: "syn_pending e s isn t fl k w \<Longrightarrow> syn_out e s isn w \<and> recv_next (rwnd w) = t"
  by (simp add: syn_pending_def syn_out_def pending_def ends_def)

section \<open>Properties\<close>

text \<open>
  C8: The opening survives losses. When the first \<open>k\<close> SYNs and the first \<open>j\<close> answers are lost,
  up to four of each, the retransmission timers send them again with the same numbers, and
  the handshake goes through all the same: both sides are established and agree on the
  sequence numbers.
\<close>

theorem handshake_survives_loss:
  assumes "quiet_env ec" and "quiet_env es" and "reliable ec dc" and "udp_sends dc = []"
    and "reliable es ds" and "udp_sends ds = []" and "k \<le> 4" and "j \<le> 4"
  shows "\<exists>c1 p s1 s2 q c2 r s3.
      expiries ec (gen_initial_seq ec nc) k (connect ec (enter_world (new_session pc ic rc lc kc) dc nc)) = Inr c1
    \<and> last_arrival c1 = Some p \<and> input es p (listen (enter_world (new_session ps is rs ls ks) ds ns)) = Inr s1
    \<and> expiries es (gen_initial_seq es ns) j s1 = Inr s2
    \<and> last_arrival s2 = Some q \<and> input ec q c1 = Inr c2
    \<and> last_arrival c2 = Some r \<and> input es r s2 = Inr s3
    \<and> state c2 = ESTABLISHED \<and> state s3 = ESTABLISHED
    \<and> send_unack (swnd c2) = send_next (swnd c2) \<and> send_unack (swnd s3) = send_next (swnd s3)
    \<and> recv_next (rwnd s3) = send_next (swnd c2) \<and> recv_next (rwnd c2) = send_next (swnd s3)"
proof -
  let ?x = "gen_initial_seq ec nc" and ?y = "gen_initial_seq es ns"
  let ?wc = "enter_world (new_session pc ic rc lc kc) dc nc" and ?ws = "enter_world (new_session ps is rs ls ks) ds ns"
  have wc: "base_inv ?wc" "reliable ec (udp ?wc)" "iss_calls ?wc = nc" "recv_next (rwnd ?wc) = 0" "udp_sends (udp ?wc) = []"
    using base_inv_new [of pc ic rc lc kc dc nc] assms(3,4) by (simp_all add: enter_world_new)
  have c0: "syn_out ec SYN_SENT ?x (connect ec ?wc)"
    using connect_opens [OF assms(3,4)] by simp
  moreover have "recv_next (rwnd (connect ec ?wc)) = 0"
    using wc(4) by (simp add: connect_def Let_def send_control_packet_def transition_to_def)
  ultimately have "syn_pending ec SYN_SENT ?x 0 FLAG_SYN 0 (connect ec ?wc)"
    using syn_pending_start connect_outstanding [OF wc(1,2)] wc(3,4) by metis
  from syn.expires [OF this assms(7)] obtain c1 p where c1: "expiries ec ?x k (connect ec ?wc) = Inr c1" "syn_out ec SYN_SENT ?x c1"
    and p: "last_arrival c1 = Some p" "seg_is p ?x 0 FLAG_SYN []"
    using syn.heard syn_pending_out by blast
  let ?s0 = "listen ?ws"
  have s0: "base_inv ?s0" "state ?s0 = LISTEN" "qsize (send_buffer ?s0) = 0" "reliable es (udp ?s0)" "iss_calls ?s0 = ns"
    using base_inv_listen [OF base_inv_new [of ps "is" rs ls ks ds ns]] assms(5)
    by simp_all (simp_all add: listen_def enter_world_new transition_to_def ring_new_def)
  obtain s1 where s1: "input es p ?s0 = Inr s1" "syn_out es SYN_RECEIVED ?y s1" "recv_next (rwnd s1) = ?x + 1"
    using input_listen [OF s0(1-4) p(2)] s0(5) by auto
  have "syn_pending es SYN_RECEIVED ?y (?x + 1) (FLAG_SYN OR FLAG_ACK) 0 s1"
    using syn_pending_start [OF s1(2)] listen_outstanding [OF s0(1,2,4) p(2) s1(1)] s0(5) s1(3) by simp
  from syn.expires [OF this assms(8)] obtain s2 q where s2: "expiries es ?y j s1 = Inr s2"
    "syn_out es SYN_RECEIVED ?y s2" "recv_next (rwnd s2) = ?x + 1"
    and q: "last_arrival s2 = Some q" "seg_is q ?y (?x + 1) (FLAG_SYN OR FLAG_ACK) []"
    using syn.heard syn_pending_out by blast
  obtain c2 where c2: "input ec q c1 = Inr c2" "idle ec ESTABLISHED (?x + 1) (?y + 1) c2"
    and y2: "sends c1 c2 (?x + 1) (?y + 1) FLAG_ACK []"
    using input_syn_sent [OF assms(1) c1(2) q(2)] by blast
  obtain r where r: "last_arrival c2 = Some r" "seg_is r (?x + 1) (?y + 1) FLAG_ACK []"
    using sends_last [OF y2] by blast
  obtain s3 where s3: "input es r s2 = Inr s3" "idle es ESTABLISHED (?y + 1) (?x + 1) s3"
    using input_syn_received [OF assms(2) s2(2) r(2)] s2(3) by auto
  have "state c2 = ESTABLISHED" "state s3 = ESTABLISHED"
    "send_unack (swnd c2) = send_next (swnd c2)" "send_unack (swnd s3) = send_next (swnd s3)"
    "recv_next (rwnd s3) = send_next (swnd c2)" "recv_next (rwnd c2) = send_next (swnd s3)"
    using c2(2) s3(2) by (simp_all add: idle_def)
  then show ?thesis
    using c1(1) p(1) s1(1) s2(1) q(1) c2(1) r(1) s3(1) by blast
qed

theorem handshake_survives_loss_witness:
  "\<exists>c1 p s1. expiries example_env 100 3 (connect example_env (enter_world (new_session 0 1 2 3 4) new_driver 0)) = Inr c1
    \<and> last_arrival c1 = Some p \<and> input example_env p (listen (enter_world (new_session 5 6 7 8 9) new_driver 1)) = Inr s1"
proof -
  have "gen_initial_seq example_env 0 = 100"
    by (simp add: example_env_def session_env_def set_on_data_def set_on_closed_def set_on_recv_three_dup_ack_def Let_def)
  then show ?thesis
    using handshake_survives_loss [OF example_quiet example_quiet example_reliable new_driver_sends
        example_reliable new_driver_sends, of 3 2 0 0 1 2 3 4 5 6 7 8 9 1] by auto
qed

text \<open>
  C40: A lost last acknowledgement loses data. When the acknowledgement that ends the handshake
  is lost, the client is established and the server is not. The client does not answer the
  SYN+ACK that the server sends again: nothing repeats the lost acknowledgement. The first
  data segment takes its place and establishes the server, which drops the data it carries
  without a word: it is not received, not kept and not acknowledged.
\<close>

theorem lost_ack_loses_data:
  assumes "quiet_env es" and "idle ec ESTABLISHED (x + 1) (y + 1) c" and "syn_out es SYN_RECEIVED y s"
    and "recv_next (rwnd s) = x + 1" and "seg_is q y (x + 1) (FLAG_SYN OR FLAG_ACK) []"
    and "seg_is p (x + 1) (y + 1) FLAG_ACK data"
  shows "(\<exists>c'. input ec q c = Inr c' \<and> idle ec ESTABLISHED (x + 1) (y + 1) c' \<and> udp c' = udp c)
    \<and> (\<exists>s'. input es p s = Inr s' \<and> state s' = ESTABLISHED \<and> recv_next (rwnd s') = x + 1
          \<and> recv_buffer s' = recv_buffer s \<and> udp_sends (udp s') = udp_sends (udp s))"
proof
  let ?c = "c\<lparr>peer_usable_window_size := ucast (ntohs (window_size (header q)))\<rparr>"
  have "verify_checksum q" "ntohl (ack_num (header q)) = x + 1" "payload q = []" "send_unack (swnd c) = x + 1" "state c = ESTABLISHED"
    using assms(2,5) by (simp_all add: seg_is_def idle_def)
  then have "input ec q c = Inr ?c"
    using idle_try_send [of ec ESTABLISHED "x + 1" "y + 1" ?c ec] assms(2)
    by (simp add: input_accepted handle_established_def stale_ack seg_is_flag [OF assms(5)] flag_values flag_defs)
  then show "\<exists>c'. input ec q c = Inr c' \<and> idle ec ESTABLISHED (x + 1) (y + 1) c' \<and> udp c' = udp c"
    using assms(2) by simp
  obtain s' where s': "input es p s = Inr s'" "idle es ESTABLISHED (y + 1) (x + 1) s'" "udp_sends (udp s') = udp_sends (udp s)"
    "meters s' = meters s"
    using input_syn_received [OF assms(1,3,6)] assms(4) by auto
  then show "\<exists>s'. input es p s = Inr s' \<and> state s' = ESTABLISHED \<and> recv_next (rwnd s') = x + 1
      \<and> recv_buffer s' = recv_buffer s \<and> udp_sends (udp s') = udp_sends (udp s)"
    by (auto simp: idle_def meters_def)
qed

theorem lost_ack_loses_data_witness:
  "\<exists>s'. input example_env (segment example_env 2000 FLAG_ACK [7] (example_established 1000 2000))
        ((example_established 1999 1000)\<lparr>state := SYN_RECEIVED,
            swnd := \<lparr>send_unack = 1999, send_next = 2000, send_window_size = 1, initial_send_seq = 1\<rparr>\<rparr>) = Inr s'
    \<and> state s' = ESTABLISHED \<and> recv_next (rwnd s') = 1000"
proof -
  let ?s = "(example_established 1999 1000)\<lparr>state := SYN_RECEIVED,
      swnd := \<lparr>send_unack = 1999, send_next = 2000, send_window_size = 1, initial_send_seq = 1\<rparr>\<rparr>"
  have c: "idle example_env ESTABLISHED (999 + 1) (1999 + 1) (example_established 1000 2000)"
    using example_established_idle by simp
  have s: "syn_out example_env SYN_RECEIVED 1999 ?s" "recv_next (rwnd ?s) = 999 + 1"
    using example_established_idle [of 1999 1000] by (simp_all add: syn_out_def idle_def base_inv_def)
  have q: "seg_is (segment example_env 1000 (FLAG_SYN OR FLAG_ACK) [] (example_established 1999 0)) 1999 (999 + 1) (FLAG_SYN OR FLAG_ACK) []"
    using segment_is [of "[]" example_env 1000 "FLAG_SYN OR FLAG_ACK" "example_established 1999 0"]
    by (simp add: example_established_def)
  have p: "seg_is (segment example_env 2000 FLAG_ACK [7] (example_established 1000 2000)) (999 + 1) (1999 + 1) FLAG_ACK [7]"
    using segment_is [of "[7]" example_env 2000 FLAG_ACK "example_established 1000 2000"]
    by (simp add: example_established_def)
  show ?thesis
    using lost_ack_loses_data [OF example_quiet c s q p] by auto
qed

end
