(* ===== verification/Closing.thy ===== *)
theory Closing
  imports Opening_Losses Slow_Start
begin

text \<open>
  Closing a connection when things go wrong: what the retransmissions of the two FINs repair,
  what becomes of data sent into a half-closed connection, and how two closes that cross, or
  an answer that is lost, leave a side behind for good.
\<close>

section \<open>The two sides while closing\<close>

lemma close_outstanding:
  assumes w: "idle e ESTABLISHED m t w"
  shows "\<exists>w'. close e w = Inr w' \<and> pending e FIN_WAIT_1 m t FLAG_FIN 0 w'"
proof -
  let ?v = "transition_to FIN_WAIT_1 (w\<lparr>tmgr := stop_all_timers (tmgr w)\<rparr>)"
  let ?u = "(send_control_packet e FLAG_FIN ?v)\<lparr>user_want_to_close := True\<rparr>"
  have v: "base_inv ?v" "reliable e (udp ?v)" "send_next (swnd ?v) = m" "recv_next (rwnd ?v) = t"
    using w by (simp_all add: idle_def base_inv_stop_all) (simp_all add: transition_to_def)
  have c: "close e w = Inr ?u"
    using w idle_try_send [OF w, of e] by (simp add: close_def Let_def idle_def)
  obtain w' where "close e w = Inr w'" "ends e FIN_WAIT_1 m (m + 1) t w'"
    using close_active [OF w] by blast
  moreover have "outstanding ?u m t FLAG_FIN"
    using control_outstanding [OF v(1,2), of FLAG_FIN] flag_values v by (simp add: outstanding_def)
  ultimately show ?thesis
    using pending_start [of e FIN_WAIT_1 m t ?u FLAG_FIN] c by auto
qed

lemma close_again_outstanding:
  assumes w: "idle e CLOSE_WAIT m t w"
  shows "\<exists>w'. close e w = Inr w' \<and> pending e LAST_ACK m t (FLAG_FIN OR FLAG_ACK) 0 w'"
proof -
  let ?v = "transition_to LAST_ACK w"
  let ?u = "(send_control_packet e (FLAG_FIN OR FLAG_ACK) ?v)\<lparr>user_want_to_close := True\<rparr>"
  have v: "base_inv ?v" "reliable e (udp ?v)" "send_next (swnd ?v) = m" "recv_next (rwnd ?v) = t"
    using w by (simp_all add: idle_def) (simp_all add: transition_to_def)
  have c: "close e w = Inr ?u"
    using w by (simp add: close_def Let_def idle_def)
  obtain w' where "close e w = Inr w'" "ends e LAST_ACK m (m + 1) t w'"
    using close_passive [OF w] by blast
  moreover have "outstanding ?u m t (FLAG_FIN OR FLAG_ACK)"
    using control_outstanding [OF v(1,2), of "FLAG_FIN OR FLAG_ACK"] flag_values v by (simp add: outstanding_def)
  ultimately show ?thesis
    using pending_start [of e LAST_ACK m t ?u "FLAG_FIN OR FLAG_ACK"] c by auto
qed

text \<open>In \<open>CLOSE_WAIT\<close> every segment is answered with the same acknowledgement.\<close>

lemma close_wait_answers:
  assumes w: "ends e CLOSE_WAIT m n t w" and empty: "qsize (send_buffer w) = 0"
    and stay: "user_want_to_close w \<longrightarrow> m \<noteq> n"
    and p: "verify_checksum p" "\<not> has_flag p FLAG_RST" "has_flag p FLAG_ACK \<or> has_flag p FLAG_SYN \<or> has_flag p FLAG_FIN"
  shows "\<exists>w'. input e p w = Inr w' \<and> ends e CLOSE_WAIT m n t w' \<and> qsize (send_buffer w') = 0
    \<and> user_want_to_close w' = user_want_to_close w \<and> sends w w' n t FLAG_ACK [] \<and> tmgr w' = tmgr w \<and> recv_buffer w' = recv_buffer w"
proof -
  let ?w = "w\<lparr>peer_usable_window_size := ucast (ntohs (window_size (header p)))\<rparr>"
  let ?v = "send_pure_ack e t ?w"
  have v: "base_inv ?v" "qsize (send_buffer ?v) = 0" "ends e CLOSE_WAIT m n t ?v"
    "user_want_to_close ?v = user_want_to_close w" "tmgr ?v = tmgr w" "recv_buffer ?v = recv_buffer w"
    using w empty by (simp_all add: ends_def)
  have "handle_try_send e ?v = Inr ?v"
    using v by (simp add: handle_try_send_eq try_send_data_empty)
  then have "input e p w = Inr ?v"
    using w v stay by (cases "user_want_to_close w") (simp_all add: input_accepted [OF p] handle_close_wait_def Let_def ends_def)
  moreover have "sends w ?v n t FLAG_ACK []"
    using sends_pure_ack [of e ?w w t] w by (simp add: ends_def)
  ultimately show ?thesis
    using v by blast
qed

lemma time_wait_answers:
  assumes w: "ends e TIME_WAIT m m (t + 1) w" and p: "seg_is p t m (FLAG_FIN OR FLAG_ACK) []"
  shows "\<exists>w'. input e p w = Inr w' \<and> ends e TIME_WAIT m m (t + 1) w' \<and> sends w w' m (t + 1) FLAG_ACK [] \<and> tmgr w' = tmgr w"
proof -
  let ?w = "w\<lparr>peer_usable_window_size := ucast (ntohs (window_size (header p)))\<rparr>"
  let ?u = "?w\<lparr>rwnd := (rwnd w)\<lparr>recv_next := t + 1\<rparr>\<rparr>"
  have "verify_checksum p" "ntohl (seq_num (header p)) = t"
    using p by (simp_all add: seg_is_def)
  then have "input e p w = Inr (send_pure_ack e (t + 1) ?u)"
    using w by (simp add: input_accepted seg_is_flag [OF p] flag_values ends_def handle_timed_wait_def Let_def)
  moreover have "sends w (send_pure_ack e (t + 1) ?u) m (t + 1) FLAG_ACK []"
    using sends_pure_ack [of e ?u w "t + 1"] w by (simp add: ends_def)
  moreover have "ends e TIME_WAIT m m (t + 1) (send_pure_ack e (t + 1) ?u)"
    using w by (simp add: ends_def) (simp add: base_inv_def)
  moreover have "tmgr (send_pure_ack e (t + 1) ?u) = tmgr w"
    by (simp add: send_pure_ack_def Let_def)
  ultimately show ?thesis
    by blast
qed

text \<open>The side that closed first answers the FIN of the other, once or more often.\<close>

definition closing :: "env \<Rightarrow> u32 \<Rightarrow> u32 \<Rightarrow> world \<Rightarrow> bool" where
  "closing e m t w \<longleftrightarrow> ends e TIME_WAIT m m (t + 1) w \<and> armed (tmgr w) Two_msl = Some (On_2msl, 2 * 60 * 1000)
     \<and> (\<exists>q. last_arrival w = Some q \<and> seg_is q m (t + 1) FLAG_ACK [])"

lemma closing_answers:
  assumes "closing e m t w" and "seg_is p t m (FLAG_FIN OR FLAG_ACK) []"
  shows "\<exists>w'. input e p w = Inr w' \<and> closing e m t w'"
  using time_wait_answers [OF _ assms(2), of e w] assms(1) sends_last unfolding closing_def by metis

text \<open>The side that has taken the FIN of the other and answered it.\<close>

definition half_closed :: "env \<Rightarrow> u32 \<Rightarrow> u32 \<Rightarrow> world \<Rightarrow> bool" where
  "half_closed e m t w \<longleftrightarrow> idle e CLOSE_WAIT m t w \<and> \<not> user_want_to_close w
     \<and> (\<exists>q. last_arrival w = Some q \<and> seg_is q m t FLAG_ACK [])"

lemma half_closed_answers:
  assumes "half_closed e m t w" and p: "seg_is p s a FLAG_FIN []"
  shows "\<exists>w'. input e p w = Inr w' \<and> half_closed e m t w'"
proof -
  have w: "ends e CLOSE_WAIT m m t w" "qsize (send_buffer w) = 0" "\<not> user_want_to_close w"
    using assms(1) by (simp_all add: half_closed_def idle_def ends_def)
  have "verify_checksum p"
    using p by (simp add: seg_is_def)
  then obtain w' where w': "input e p w = Inr w'" "ends e CLOSE_WAIT m m t w'" "qsize (send_buffer w') = 0"
    "\<not> user_want_to_close w'" "sends w w' m t FLAG_ACK []"
    using close_wait_answers [OF w(1,2), of p] w(3) by (auto simp: seg_is_flag [OF p] flag_values)
  from sends_last [OF w'(5)] w' show ?thesis
    unfolding half_closed_def idle_def ends_def by blast
qed

section \<open>Properties\<close>

text \<open>
  C9: Closing survives losses. On an idle connection the client closes, and then the server
  does. When the first \<open>k\<close> FINs of the client are lost and then the first \<open>a\<close> answers to it
  (\<open>k + a\<close> at most four), and likewise \<open>j\<close> FINs of the server and \<open>b\<close> answers of the client,
  the timers send the FINs again, every copy is answered, and both sides end CLOSED.
\<close>

theorem close_survives_loss:
  assumes "quiet_env ec" and "quiet_env es"
    and "idle ec ESTABLISHED x y c" and "idle es ESTABLISHED y x s" and "\<not> user_want_to_close s"
    and "k + a \<le> 4" and "j + b \<le> 4"
  shows "\<exists>c1 c2 p s1 c3 s2 q c4 s3 s4 r c5 s5 c6 u s6 c7.
      close ec c = Inr c1 \<and> expiries ec x k c1 = Inr c2
    \<and> last_arrival c2 = Some p \<and> input es p s = Inr s1 \<and> asked_again last_arrival ec es x a (c2, s1) = Inr (c3, s2)
    \<and> last_arrival s2 = Some q \<and> input ec q c3 = Inr c4 \<and> state c4 = FIN_WAIT_2
    \<and> close es s2 = Inr s3 \<and> expiries es y j s3 = Inr s4
    \<and> last_arrival s4 = Some r \<and> input ec r c4 = Inr c5 \<and> asked_again last_arrival es ec y b (s4, c5) = Inr (s5, c6)
    \<and> last_arrival c6 = Some u \<and> input es u s5 = Inr s6 \<and> state s6 = CLOSED
    \<and> expire ec Two_msl c6 = Inr c7 \<and> state c7 = CLOSED"
proof -
  obtain c1 where c1: "close ec c = Inr c1" "pending ec FIN_WAIT_1 x y FLAG_FIN 0 c1"
    using close_outstanding [OF assms(3)] by blast
  have first: "seg_is p x y FLAG_FIN [] \<Longrightarrow> \<exists>s'. input es p s = Inr s' \<and> half_closed es y (x + 1) s'" for p
    using input_fin [OF assms(2,4), of p x] assms(5) sends_last unfolding half_closed_def by metis
  obtain c2 p s1 c3 s2
    where c2: "expiries ec x k c1 = Inr c2" "last_arrival c2 = Some p" "input es p s = Inr s1"
    "asked_again last_arrival ec es x a (c2, s1) = Inr (c3, s2)"
    and c3: "pending ec FIN_WAIT_1 x y FLAG_FIN (k + a) c3" and s2: "half_closed es y (x + 1) s2"
    using control.answered [where R = "half_closed es y (x + 1)", OF _ _ c1(2) assms(6)] half_closed_answers first by blast
  obtain q where q: "last_arrival s2 = Some q" "seg_is q y (x + 1) FLAG_ACK []"
    using s2 unfolding half_closed_def by blast
  obtain c4 where c4: "input ec q c3 = Inr c4" "ends ec FIN_WAIT_2 (x + 1) (x + 1) y c4"
    using input_fin_acked [OF _ q(2)] c3 unfolding pending_def by blast
  obtain s3 where s3: "close es s2 = Inr s3" "pending es LAST_ACK y (x + 1) (FLAG_FIN OR FLAG_ACK) 0 s3"
    using close_again_outstanding s2 unfolding half_closed_def by blast
  have second: "seg_is r y (x + 1) (FLAG_FIN OR FLAG_ACK) [] \<Longrightarrow> \<exists>c'. input ec r c4 = Inr c' \<and> closing ec (x + 1) y c'" for r
    using input_last_fin [OF c4(2)] sends_last unfolding closing_def by metis
  obtain s4 r c5 s5 c6
    where s4: "expiries es y j s3 = Inr s4" "last_arrival s4 = Some r" "input ec r c4 = Inr c5"
    "asked_again last_arrival es ec y b (s4, c5) = Inr (s5, c6)"
    and s5: "pending es LAST_ACK y (x + 1) (FLAG_FIN OR FLAG_ACK) (j + b) s5" and c6: "closing ec (x + 1) y c6"
    using control.answered [where R = "closing ec (x + 1) y", OF _ _ s3(2) assms(7)] closing_answers second by blast
  obtain u where u: "last_arrival c6 = Some u" "seg_is u (x + 1) (y + 1) FLAG_ACK []"
    using c6 unfolding closing_def by blast
  obtain s6 where s6: "input es u s5 = Inr s6" "state s6 = CLOSED"
    using input_last_ack [OF assms(2) _ u(2)] s5 unfolding pending_def by blast
  obtain c7 where c7: "expire ec Two_msl c6 = Inr c7" "state c7 = CLOSED"
    using handle_2msl_state [OF assms(1), of c6] c6 by (auto simp: expire_def returns_def in_state_def closing_def ends_def)
  have "state c4 = FIN_WAIT_2"
    using c4(2) by (simp add: ends_def)
  then show ?thesis
    using c1(1) c2 q(1) c4(1) s3(1) s4 u(1) s6 c7 by blast
qed

theorem close_survives_loss_witness:
  "\<exists>c1 c2 p s1 c3 s2 q c4. close example_env (example_established 1000 2000) = Inr c1 \<and> expiries example_env 1000 2 c1 = Inr c2
    \<and> last_arrival c2 = Some p \<and> input example_env p (example_established 2000 1000) = Inr s1
    \<and> asked_again last_arrival example_env example_env 1000 1 (c2, s1) = Inr (c3, s2)
    \<and> last_arrival s2 = Some q \<and> input example_env q c3 = Inr c4 \<and> state c4 = FIN_WAIT_2"
proof -
  have s: "\<not> user_want_to_close (example_established 2000 1000)"
    by (simp add: example_established_def enter_world_new)
  show ?thesis
    using close_survives_loss [OF example_quiet example_quiet example_established_idle example_established_idle s,
        of 2 1 4 0] by auto
qed

section \<open>Closes that cross\<close>

lemma close_active_empty:
  assumes w: "idle e ESTABLISHED m t w"
  shows "\<exists>w'. close e w = Inr w' \<and> ends e FIN_WAIT_1 m (m + 1) t w' \<and> sends w w' m t FLAG_FIN [] \<and> qsize (send_buffer w') = 0"
proof -
  obtain w' where w': "close e w = Inr w'" "ends e FIN_WAIT_1 m (m + 1) t w'" "sends w w' m t FLAG_FIN []"
    using close_active [OF w] by blast
  have "qsize (send_buffer w') = 0"
    using w' w idle_try_send [OF w, of e] by (auto simp: close_def Let_def idle_def transition_to_def)
  then show ?thesis
    using w' by blast
qed

lemma input_fin_crossing:
  assumes w: "ends e FIN_WAIT_1 m (m + 1) t w" and empty: "qsize (send_buffer w) = 0" and p: "seg_is p s a FLAG_FIN []"
  shows "\<exists>w'. input e p w = Inr w' \<and> ends e CLOSE_WAIT m (m + 1) (s + 1) w' \<and> qsize (send_buffer w') = 0
    \<and> sends w w' (m + 1) (s + 1) FLAG_ACK []"
proof -
  let ?w = "w\<lparr>peer_usable_window_size := ucast (ntohs (window_size (header p))), rwnd := (rwnd w)\<lparr>recv_next := s + 1\<rparr>\<rparr>"
  let ?v = "transition_to CLOSE_WAIT (send_pure_ack e (s + 1) ?w)"
  have "verify_checksum p" "ntohl (seq_num (header p)) = s"
    using p by (simp_all add: seg_is_def)
  then have "input e p w = Inr ?v"
    using w by (simp add: input_accepted seg_is_flag [OF p] flag_values ends_def handle_fin_wait_1_def Let_def)
  moreover have "ends e CLOSE_WAIT m (m + 1) (s + 1) ?v" "qsize (send_buffer ?v) = 0"
    using w empty by (simp_all add: ends_def) (simp_all add: transition_to_def base_inv_def)
  moreover have "sends w ?v (m + 1) (s + 1) FLAG_ACK []"
    using sends_pure_ack [of e ?w w "s + 1"] w by (simp add: ends_def sends_def transition_to_def)
  ultimately show ?thesis
    by blast
qed

text \<open>A side that is left in \<open>CLOSE_WAIT\<close> with its FIN unacknowledged, and whose last segment acknowledges the other's FIN.\<close>

definition left_behind :: "env \<Rightarrow> u32 \<Rightarrow> u32 \<Rightarrow> nat \<Rightarrow> world \<Rightarrow> bool" where
  "left_behind e m t n w \<longleftrightarrow> ends e CLOSE_WAIT m (m + 1) t w \<and> qsize (send_buffer w) = 0
     \<and> length (udp_sends (udp w)) = Suc n \<and> (\<exists>q. arrivals n w = Some q \<and> seg_is q (m + 1) t FLAG_ACK [])"

lemma left_behindI:
  assumes "ends e CLOSE_WAIT m (m + 1) t w" and "qsize (send_buffer w) = 0" and "sends v w (m + 1) t FLAG_ACK []"
  shows "left_behind e m t (length (udp_sends (udp v))) w"
  using assms sends_arrives [OF assms(3) refl] by (auto simp: left_behind_def sends_length)

lemma left_behind_answers:
  assumes w: "left_behind e m t n w" and p: "seg_is p s a FLAG_ACK []"
  shows "\<exists>w'. input e p w = Inr w' \<and> left_behind e m t (Suc n) w' \<and> arrivals n w' = arrivals n w"
proof -
  have "verify_checksum p"
    using p by (simp add: seg_is_def)
  then obtain w' where w': "input e p w = Inr w'" "ends e CLOSE_WAIT m (m + 1) t w'" "qsize (send_buffer w') = 0"
    "sends w w' (m + 1) t FLAG_ACK []"
    using close_wait_answers [of e m "m + 1" t w p] w by (auto simp: left_behind_def seg_is_flag [OF p] flag_values)
  then have "left_behind e m t (Suc n) w'" "arrivals n w' = arrivals n w"
    using left_behindI [OF w'(2-4)] w by (auto simp: left_behind_def sends_def arrivals_def nth_append)
  then show ?thesis
    using w'(1) by blast
qed

text \<open>Each delivers the other's last acknowledgement, \<open>r\<close> times in a row.\<close>

definition ack_rounds :: "nat \<Rightarrow> nat \<Rightarrow> nat \<Rightarrow> action list" where
  "ack_rounds i j r = concat (map (\<lambda>k. [To_client (j + k), To_server (i + k)]) [0..<r])"

lemma ack_storm:
  assumes "left_behind ec x t i (client n)" and "left_behind es y u j (server n)"
  shows "\<exists>c s. net_run ec es (ack_rounds i j r) n = Inr (n\<lparr>client := c, server := s\<rparr>)
    \<and> left_behind ec x t (i + r) c \<and> left_behind es y u (j + r) s"
proof (induction r)
  case 0
  have "n = n\<lparr>client := client n, server := server n\<rparr>"
    by simp
  then show ?case
    using assms by (intro exI [of _ "client n"] exI [of _ "server n"]) (simp add: ack_rounds_def)
next
  case (Suc r)
  obtain c s where run: "net_run ec es (ack_rounds i j r) n = Inr (n\<lparr>client := c, server := s\<rparr>)"
    and c: "left_behind ec x t (i + r) c" and s: "left_behind es y u (j + r) s"
    using Suc by blast
  obtain q where q: "arrivals (j + r) s = Some q" "seg_is q (y + 1) u FLAG_ACK []"
    using s unfolding left_behind_def by blast
  obtain p where p: "arrivals (i + r) c = Some p" "seg_is p (x + 1) t FLAG_ACK []"
    using c unfolding left_behind_def by blast
  obtain c' where c': "input ec q c = Inr c'" "left_behind ec x t (Suc (i + r)) c'" "arrivals (i + r) c' = Some p"
    using left_behind_answers [OF c q(2)] p(1) by auto
  obtain s' where s': "input es p s = Inr s'" "left_behind es y u (Suc (j + r)) s'"
    using left_behind_answers [OF s p(2)] by blast
  have "ack_rounds i j (Suc r) = ack_rounds i j r @ [To_client (j + r), To_server (i + r)]"
    by (simp add: ack_rounds_def)
  then have "net_run ec es (ack_rounds i j (Suc r)) n = Inr (n\<lparr>client := c', server := s'\<rparr>)"
    using run q(1) c' s'(1) deliver_client [of "j + r" "n\<lparr>client := c, server := s\<rparr>" q ec c' es]
      deliver_server [of "i + r" "n\<lparr>client := c', server := s\<rparr>" p es s' ec]
    by (cases n) (simp add: net_run_append del: net_step.simps)
  then show ?case
    using c'(2) s'(2) by auto
qed

text \<open>
  C31: Closes that cross never end. When both sides close before either has the other's FIN,
  both are left in CLOSE_WAIT with their own FIN unacknowledged: an acknowledgement is not
  taken in there, but answered with another one. So the acknowledgements go back and forth
  for as many rounds as the network delivers them, one datagram of each side per round.
\<close>

theorem crossing_closes_never_end:
  assumes "quiet_env ec" and "quiet_env es"
    and "idle ec ESTABLISHED x y (client n)" and "idle es ESTABLISHED y x (server n)"
    and "i = length (udp_sends (udp (client n)))" and "j = length (udp_sends (udp (server n)))"
  shows "\<exists>n'. net_run ec es ([At_client Ev_close, At_server Ev_close, To_server i, To_client j]
        @ ack_rounds (i + 1) (j + 1) r) n = Inr n'
    \<and> state (client n') = CLOSE_WAIT \<and> state (server n') = CLOSE_WAIT
    \<and> send_unack (swnd (client n')) = x \<and> send_unack (swnd (server n')) = y
    \<and> length (udp_sends (udp (client n'))) = i + 2 + r \<and> length (udp_sends (udp (server n'))) = j + 2 + r"
proof -
  obtain c1 where c1: "close ec (client n) = Inr c1" "ends ec FIN_WAIT_1 x (x + 1) y c1" "sends (client n) c1 x y FLAG_FIN []"
    "qsize (send_buffer c1) = 0"
    using close_active_empty [OF assms(3)] by blast
  obtain s1 where s1: "close es (server n) = Inr s1" "ends es FIN_WAIT_1 y (y + 1) x s1" "sends (server n) s1 y x FLAG_FIN []"
    "qsize (send_buffer s1) = 0"
    using close_active_empty [OF assms(4)] by blast
  obtain p where p: "arrivals i c1 = Some p" "seg_is p x y FLAG_FIN []"
    by (rule sends_arrives [OF c1(3) assms(5)])
  obtain q where q: "arrivals j s1 = Some q" "seg_is q y x FLAG_FIN []"
    by (rule sends_arrives [OF s1(3) assms(6)])
  obtain s2 where s2: "input es p s1 = Inr s2" "ends es CLOSE_WAIT y (y + 1) (x + 1) s2" "qsize (send_buffer s2) = 0"
    "sends s1 s2 (y + 1) (x + 1) FLAG_ACK []"
    using input_fin_crossing [OF s1(2,4) p(2)] by blast
  obtain c2 where c2: "input ec q c1 = Inr c2" "ends ec CLOSE_WAIT x (x + 1) (y + 1) c2" "qsize (send_buffer c2) = 0"
    "sends c1 c2 (x + 1) (y + 1) FLAG_ACK []"
    using input_fin_crossing [OF c1(2,4) q(2)] by blast
  let ?n = "n\<lparr>client := c2, server := s2\<rparr>"
  have "arrivals j s2 = Some q"
    using q(1) s2(4) by (auto simp: arrivals_def sends_def nth_append split: if_splits)
  then have first: "net_run ec es [At_client Ev_close, At_server Ev_close, To_server i, To_client j] n = Inr ?n"
    using does_close_client [OF c1(1), of es] does_close_server [of es "n\<lparr>client := c1\<rparr>" s1 ec] s1(1)
      deliver_server [of i "n\<lparr>client := c1, server := s1\<rparr>" p es s2 ec] p(1) s2(1)
      deliver_client [of j "n\<lparr>client := c1, server := s2\<rparr>" q ec c2 es] c2(1)
    by (cases n) (simp del: net_step.simps)
  have "left_behind ec x (y + 1) (i + 1) (client ?n)" "left_behind es y (x + 1) (j + 1) (server ?n)"
    using left_behindI [OF c2(2-4)] left_behindI [OF s2(2-4)] sends_length [OF c1(3)] sends_length [OF s1(3)] assms(5,6)
    by simp_all
  from ack_storm [OF this, of r] obtain c s where
    rest: "net_run ec es (ack_rounds (i + 1) (j + 1) r) ?n = Inr (?n\<lparr>client := c, server := s\<rparr>)"
    and ends: "left_behind ec x (y + 1) (i + 1 + r) c" "left_behind es y (x + 1) (j + 1 + r) s"
    by blast
  have "net_run ec es ([At_client Ev_close, At_server Ev_close, To_server i, To_client j]
      @ ack_rounds (i + 1) (j + 1) r) n = Inr (?n\<lparr>client := c, server := s\<rparr>)"
    unfolding net_run_append first bind_res_Inr by (rule rest)
  then show ?thesis
    using ends by - (rule exI, intro conjI, assumption, simp_all add: left_behind_def ends_def)
qed

theorem crossing_closes_never_end_witness:
  "\<exists>n'. net_run example_env example_env ([At_client Ev_close, At_server Ev_close, To_server 0, To_client 0] @ ack_rounds 1 1 100)
      (example_net 1000 2000) = Inr n'
    \<and> state (client n') = CLOSE_WAIT \<and> length (udp_sends (udp (client n'))) = 102"
proof -
  have n: "udp_sends (udp (client (example_net 1000 2000))) = []" "udp_sends (udp (server (example_net 1000 2000))) = []"
    by (simp_all add: example_net_def example_established_def enter_world_new new_driver_def)
  show ?thesis
    using crossing_closes_never_end [OF example_quiet example_quiet example_net_idle, of 0 1000 2000 0 100]
    by (auto simp add: n simp del: net_run.simps)
qed

section \<open>A half-closed connection\<close>

text \<open>A side that waits for the other's FIN takes in nothing else.\<close>

lemma fin_wait_2_deaf:
  assumes "state w = FIN_WAIT_2" and p: "seg_is p s a FLAG_ACK data"
  shows "input e p w = Inr (w\<lparr>peer_usable_window_size := ucast (ntohs (window_size (header p)))\<rparr>)"
proof -
  have "verify_checksum p"
    using p by (simp add: seg_is_def)
  then show ?thesis
    using assms(1) by (simp add: input_accepted seg_is_flag [OF p] flag_values handle_fin_wait_2_def)
qed

text \<open>And a side in \<open>CLOSE_WAIT\<close> never takes in an acknowledgement, whatever arrives.\<close>

definition keeps_data :: "u8 ring_queue \<Rightarrow> u32 \<Rightarrow> world \<Rightarrow> bool" where
  "keeps_data sb u w \<longleftrightarrow> base_inv w \<and> state w = CLOSE_WAIT \<and> send_buffer w = sb \<and> send_unack (swnd w) = u"

lemma close_wait_keeps_data:
  assumes w: "keeps_data sb u w" and sb: "qsize sb \<noteq> 0" and q: "\<not> has_flag q FLAG_RST"
  shows "returns (keeps_data sb u) (input e q w)"
proof -
  let ?w = "w\<lparr>peer_usable_window_size := ucast (ntohs (window_size (header q)))\<rparr>"
  let ?v = "send_pure_ack e (recv_next (rwnd w)) ?w"
  have v: "keeps_data sb u ?v" "keeps_data sb u ?w"
    using w by (simp_all add: keeps_data_def)
  then have "handle_try_send e ?v = Inr (send_payload_packet e (try_send_data ?v) FLAG_ACK ?v)"
    by (intro handle_try_send_eq) (simp add: keeps_data_def)
  moreover have "keeps_data sb u (send_payload_packet e (try_send_data ?v) FLAG_ACK ?v)"
    using v by (simp add: keeps_data_def base_inv_payload)
  ultimately show ?thesis
    using w v q sb by (auto simp: input_def Let_def handle_close_wait_def keeps_data_def ring_empty_def)
qed

lemma close_wait_run_keeps_data:
  assumes "keeps_data sb u w" and "qsize sb \<noteq> 0" and "\<forall>q\<in>set qs. \<not> has_flag q FLAG_RST"
  shows "returns (\<lambda>(_, w'). keeps_data sb u w') (session_run e (map Ev_input qs) w)"
proof -
  have "returns (\<lambda>r. keeps_data sb u (snd r)) (session_run e (map Ev_input qs) w)"
  proof (rule session.run_returns [where ok = "\<lambda>ev. \<exists>q. ev = Ev_input q \<and> \<not> has_flag q FLAG_RST"])
    fix ev v
    assume "\<exists>q. ev = Ev_input q \<and> \<not> has_flag q FLAG_RST" and "keeps_data sb u v"
    then show "returns (\<lambda>r. keeps_data sb u (snd r)) (session_step e ev v)"
      by (auto intro!: returns_bind [OF close_wait_keeps_data [OF _ assms(2)]])
  qed (use assms in \<open>auto simp: list_all_iff\<close>)
  then show ?thesis
    by (simp add: case_prod_unfold)
qed

text \<open>
  C32: Data sent into a half-closed connection is lost, and stays in the way. When the client
  has closed and waits for the server's FIN, data that the server sends arrives and is dropped
  without an acknowledgement. And no acknowledgement would help: in CLOSE_WAIT the server
  never takes one in, so whatever segments arrive, a reset excepted, the data stays in the send
  buffer as unacknowledged and the session in CLOSE_WAIT.
\<close>

theorem half_closed_data_is_lost:
  assumes "ends ec FIN_WAIT_2 x x y c" and "idle es CLOSE_WAIT y x s"
    and "data \<noteq> []" and "length data \<le> 1024" and "length data \<le> unat (send_window_size (swnd s))"
  shows "\<exists>s1 p c1. send es data s = Inr (length data, s1) \<and> last_arrival s1 = Some p \<and> payload p = data
    \<and> input ec p c = Inr c1 \<and> recv_buffer c1 = recv_buffer c \<and> rwnd c1 = rwnd c \<and> udp c1 = udp c
    \<and> (\<forall>qs. (\<forall>q\<in>set qs. \<not> has_flag q FLAG_RST) \<longrightarrow>
        (\<exists>bs s2. session_run es (map Ev_input qs) s1 = Inr (bs, s2) \<and> state s2 = CLOSE_WAIT
          \<and> ring_contents (send_buffer s2) = data \<and> send_unack (swnd s2) = y))"
proof -
  let ?s = "send_payload_packet es data FLAG_ACK (queued data s)"
  have "sends_data CLOSE_WAIT"
    by (simp add: sends_data_def)
  note out = send_out [OF assms(2) this assms(3-5)]
  obtain p where p: "last_arrival ?s = Some p" "seg_is p y x FLAG_ACK data"
    using sends_last [OF out(3)] by blast
  have "input ec p c = Inr (c\<lparr>peer_usable_window_size := ucast (ntohs (window_size (header p)))\<rparr>)"
    using fin_wait_2_deaf [OF _ p(2)] assms(1) by (simp add: ends_def)
  moreover have k: "keeps_data (send_buffer ?s) y ?s" and d: "ring_contents (send_buffer ?s) = data"
    using out(2) by (simp_all add: keeps_data_def)
  have "qsize (send_buffer ?s) \<noteq> 0"
    using arg_cong [OF d, of length] assms(3) by (simp add: ring_contents_def del: length_greater_0_conv)
  from close_wait_run_keeps_data [OF k this] d
  have "\<exists>bs s2. session_run es (map Ev_input qs) ?s = Inr (bs, s2) \<and> state s2 = CLOSE_WAIT
      \<and> ring_contents (send_buffer s2) = data \<and> send_unack (swnd s2) = y"
    if "\<forall>q\<in>set qs. \<not> has_flag q FLAG_RST" for qs
    using that by (fastforce simp: returns_def keeps_data_def)
  ultimately show ?thesis
    using out(1) p by (intro exI [of _ ?s] exI [of _ p] exI [of _ "c\<lparr>peer_usable_window_size := ucast (ntohs (window_size (header p)))\<rparr>"])
      (simp add: seg_is_def)
qed

theorem half_closed_data_is_lost_witness:
  "\<exists>s1 p c1. send example_env [7, 8, 9] ((example_established 2000 1000)\<lparr>state := CLOSE_WAIT\<rparr>) = Inr (3, s1)
    \<and> last_arrival s1 = Some p \<and> input example_env p ((example_established 1000 2000)\<lparr>state := FIN_WAIT_2\<rparr>) = Inr c1
    \<and> recv_buffer c1 = recv_buffer (example_established 1000 2000)"
proof -
  have c: "ends example_env FIN_WAIT_2 1000 1000 2000 ((example_established 1000 2000)\<lparr>state := FIN_WAIT_2\<rparr>)"
    and s: "idle example_env CLOSE_WAIT 2000 1000 ((example_established 2000 1000)\<lparr>state := CLOSE_WAIT\<rparr>)"
    using example_established_idle by (simp_all add: ends_def idle_def base_inv_def)
  have "send_window_size (swnd ((example_established 2000 1000)\<lparr>state := CLOSE_WAIT\<rparr>)) = 8"
    by (simp add: example_established_def enter_world_new)
  with half_closed_data_is_lost [OF c s, of "[7, 8, 9]"] show ?thesis
    by auto
qed

section \<open>A lost answer to the first FIN\<close>

lemma close_one_timer:
  assumes w: "idle e ESTABLISHED m t w" and "close e w = Inr w'"
  shows "s \<noteq> m \<Longrightarrow> armed_seq (tmgr w') s = None"
proof -
  let ?v = "transition_to FIN_WAIT_1 (w\<lparr>tmgr := stop_all_timers (tmgr w)\<rparr>)"
  assume s: "s \<noteq> m"
  have w': "w' = (send_control_packet e FLAG_FIN ?v)\<lparr>user_want_to_close := True\<rparr>"
    using assms idle_try_send [OF w, of e] by (simp add: close_def Let_def idle_def)
  have ok: "timers_ok (tmgr w)" and nx: "send_next (swnd w) = m"
    using w by (simp_all add: idle_def base_inv_def base_ok_def)
  then show ?thesis
    using start_timer_armed_seq [OF stop_all_timers_ok [OF ok]] stop_all_timers_armed [OF ok] flag_values s
    by (simp add: w') (simp add: send_control_packet_def Let_def has_flag_def make_header_def transition_to_def)
qed

lemma input_fin_ack_crossing:
  assumes w: "ends e FIN_WAIT_1 m (m + 1) t w" and one: "\<And>s. s \<noteq> m \<Longrightarrow> armed_seq (tmgr w) s = None"
    and p: "seg_is p t (m + 1) (FLAG_FIN OR FLAG_ACK) []"
  shows "\<exists>w'. input e p w = Inr w' \<and> ends e CLOSE_WAIT (m + 1) (m + 1) (t + 1) w' \<and> (\<forall>s. armed_seq (tmgr w') s = None)
    \<and> sends w w' (m + 1) (t + 1) FLAG_ACK []"
proof -
  let ?w = "w\<lparr>peer_usable_window_size := ucast (ntohs (window_size (header p)))\<rparr>"
  let ?u = "(transition_to FIN_WAIT_2 ?w)\<lparr>swnd := (swnd w)\<lparr>send_unack := m + 1\<rparr>, tmgr := stop_timer m (tmgr w),
      rwnd := (rwnd w)\<lparr>recv_next := t + 1\<rparr>\<rparr>"
  let ?v = "transition_to CLOSE_WAIT (send_pure_ack e (t + 1) ?u)"
  have pf: "verify_checksum p" "ntohl (seq_num (header p)) = t" "ntohl (ack_num (header p)) = m + 1"
    using p by (simp_all add: seg_is_def)
  then have i: "input e p w = Inr (handle_fin_wait_1 e p ?w)"
    using w by (simp add: input_accepted seg_is_flag [OF p] flag_values ends_def)
  have h: "handle_fin_wait_1 e p ?w = ?v"
    using w pf by (simp add: handle_fin_wait_1_def Let_def seg_is_flag [OF p] flag_values ends_def transition_to_def)
  have ok: "timers_ok (tmgr w)"
    using w by (simp add: ends_def base_inv_def base_ok_def)
  have "base_inv ?v"
    using base_inv_handle_fin_wait_1 [of ?w e p] w unfolding h by (simp add: ends_def)
  then have "ends e CLOSE_WAIT (m + 1) (m + 1) (t + 1) ?v"
    using w by (simp add: ends_def) (simp add: transition_to_def)
  moreover have "armed_seq (tmgr ?v) s = None" for s
    using stop_timer_armed_seq [OF ok, of m] one by (simp add: transition_to_def send_pure_ack_def Let_def)
  moreover have "sends w ?v (m + 1) (t + 1) FLAG_ACK []"
    using sends_pure_ack [of e ?u w "t + 1"] w by (simp add: ends_def sends_def transition_to_def)
  ultimately show ?thesis
    using i h by auto
qed

lemma closed_is_silent:
  assumes "quiet_env e" and w: "state w = CLOSED" and i: "input e p w = Inr w'"
  shows "udp w' = udp w"
proof -
  obtain ps b where "call_if_set (on_closed_cb e) (transition_to CLOSED (w\<lparr>tmgr := stop_all_timers (tmgr w)\<rparr>))
      = Inr ((transition_to CLOSED (w\<lparr>tmgr := stop_all_timers (tmgr w)\<rparr>))\<lparr>posts := ps, is_in_ready_queue := b\<rparr>)"
    by (rule quiet_call [of "on_closed_cb e"]) (use assms(1) in \<open>auto simp: quiet_env_def\<close>)
  then show ?thesis
    using i w by (auto simp: input_def Let_def handle_reset_def transition_to_def split: if_splits)
qed

text \<open>
  A lost answer strands the side that closed first. When the acknowledgement of its FIN is
  lost and the server closes before the FIN is sent again, the server's FIN arrives in
  FIN_WAIT_1 and takes the client to CLOSE_WAIT instead of TIME_WAIT. The client's
  acknowledgement ends the server, which answers nothing any more; the client has no timer
  left that would ever end it.
\<close>

theorem lost_answer_strands_client:
  assumes "quiet_env es" and "idle ec ESTABLISHED x y c" and "idle es ESTABLISHED y x s"
  shows "\<exists>c1 p s1 s2 q c2 r s3. close ec c = Inr c1 \<and> last_arrival c1 = Some p \<and> input es p s = Inr s1
    \<and> close es s1 = Inr s2 \<and> last_arrival s2 = Some q \<and> input ec q c1 = Inr c2
    \<and> last_arrival c2 = Some r \<and> input es r s2 = Inr s3
    \<and> state c2 = CLOSE_WAIT \<and> (\<forall>seq. armed_seq (tmgr c2) seq = None)
    \<and> state s3 = CLOSED \<and> (\<forall>t s4. input es t s3 = Inr s4 \<longrightarrow> udp s4 = udp s3)"
proof -
  obtain c1 where c1: "close ec c = Inr c1" "ends ec FIN_WAIT_1 x (x + 1) y c1" "sends c c1 x y FLAG_FIN []"
    using close_active [OF assms(2)] by blast
  obtain p where p: "last_arrival c1 = Some p" "seg_is p x y FLAG_FIN []"
    using sends_last [OF c1(3)] by blast
  obtain s1 where s1: "input es p s = Inr s1" "idle es CLOSE_WAIT y (x + 1) s1"
    using input_fin [OF assms(1,3) p(2)] by blast
  obtain s2 where s2: "close es s1 = Inr s2" "ends es LAST_ACK y (y + 1) (x + 1) s2" "sends s1 s2 y (x + 1) (FLAG_FIN OR FLAG_ACK) []"
    using close_passive [OF s1(2)] by blast
  obtain q where q: "last_arrival s2 = Some q" "seg_is q y (x + 1) (FLAG_FIN OR FLAG_ACK) []"
    using sends_last [OF s2(3)] by blast
  obtain c2 where c2: "input ec q c1 = Inr c2" "ends ec CLOSE_WAIT (x + 1) (x + 1) (y + 1) c2" "\<forall>s. armed_seq (tmgr c2) s = None"
    "sends c1 c2 (x + 1) (y + 1) FLAG_ACK []"
    using input_fin_ack_crossing [OF c1(2) close_one_timer [OF assms(2) c1(1)] q(2)] by blast
  obtain r where r: "last_arrival c2 = Some r" "seg_is r (x + 1) (y + 1) FLAG_ACK []"
    using sends_last [OF c2(4)] by blast
  obtain s3 where s3: "input es r s2 = Inr s3" "state s3 = CLOSED"
    using input_last_ack [OF assms(1) s2(2) r(2)] by blast
  have "state c2 = CLOSE_WAIT"
    using c2(2) by (simp add: ends_def)
  moreover have "udp s4 = udp s3" if "input es t s3 = Inr s4" for t s4
    using closed_is_silent [OF assms(1) s3(2) that] .
  ultimately show ?thesis
    using c1(1) p(1) s1(1) s2(1) q(1) c2(1,3) r(1) s3 by blast
qed

theorem lost_answer_strands_client_witness:
  "\<exists>c1 p s1 s2 q c2. close example_env (example_established 1000 2000) = Inr c1 \<and> last_arrival c1 = Some p
    \<and> input example_env p (example_established 2000 1000) = Inr s1 \<and> close example_env s1 = Inr s2
    \<and> last_arrival s2 = Some q \<and> input example_env q c1 = Inr c2 \<and> state c2 = CLOSE_WAIT"
  using lost_answer_strands_client [OF example_quiet example_established_idle [of 1000 2000] example_established_idle [of 2000 1000]]
  by blast

end
