(* ===== verification/Data_Losses.thy ===== *)
theory Data_Losses
  imports Resending Slow_Start Corner_Cases
begin

text \<open>
  Data over a network that loses segments and acknowledgements. What a session sends again goes
  to port 9999 of the local host: a peer that listens there gets everything, exactly once and in
  order, as long as no segment and its acknowledgements are lost more than four times; a peer
  anywhere else never gets a byte again.
\<close>

definition default_peer :: sock_addr where
  "default_peer = (''127.0.0.1'', 9999)"

section \<open>The sender\<close>

text \<open>
  The first \<open>f\<close> bytes of \<open>rest\<close> are in flight in one segment, which has been sent again \<open>k\<close> times,
  to the peer each time. If there is more to send, the window is as it was or one byte.
\<close>

definition unacked :: "env \<Rightarrow> u32 \<Rightarrow> u32 \<Rightarrow> u8 list \<Rightarrow> nat \<Rightarrow> nat \<Rightarrow> world \<Rightarrow> bool" where
  "unacked e m t rest f k w \<longleftrightarrow> aloft e m t rest f w \<and> (remote_ip w, remote_port w) = default_peer
     \<and> (f < length rest \<longrightarrow> cwnd w = f \<or> cwnd w = 1)
     \<and> (\<exists>p w0. waiting e p default_peer k w0 w \<and> seg_is p m t FLAG_ACK (take f rest) \<and> recv_next (rwnd w0) = t)
     \<and> (\<exists>q. last_arrival_at default_peer w = Some q \<and> seg_is q m t FLAG_ACK (take f rest))"

lemma aloft_length: "aloft e m t rest f w \<Longrightarrow> length rest \<le> 1024"
  using ring_ok_bound [of "send_buffer w"] by (auto simp: aloft_def base_inv_def base_ok_def)

lemma first_waits:
  assumes w: "aloft e m t rest 0 w" and some: "take (cwnd w) rest \<noteq> []"
  defines "u \<equiv> send_payload_packet e (try_send_data w) FLAG_ACK w"
  shows "\<exists>p. waiting e p default_peer 0 u u \<and> seg_is p m t FLAG_ACK (take (min (cwnd w) (length rest)) rest)
    \<and> udp_sends (udp u) = udp_sends (udp w) @ [(raw_data p, remote_ip w, remote_port w)]"
proof -
  let ?f = "min (cwnd w) (length rest)" and ?d = "take (cwnd w) rest"
  let ?p = "segment e t FLAG_ACK ?d w"
  note fill = fill_window [OF w refl, folded u_def]
  have d: "?d = take ?f rest" "length ?d \<le> 65535"
    using aloft_length [OF w] by (simp_all add: min_def)
  have base: "base_inv w" and rel: "reliable e (udp w)" and nx: "send_next (swnd w) = m" and rn: "recv_next (rwnd w) = t"
    using w by (simp_all add: aloft_def)
  have p: "seg_is ?p m t FLAG_ACK (take ?f rest)"
    using segment_is [OF d(2), of e t FLAG_ACK w] nx d(1) by simp
  have arm: "armed_closure (tmgr u) m = Some (\<lparr>rt_packet = ?p, rt_count = 0, rt_ip = ''127.0.0.1'', rt_port = 9999\<rparr>, get_timeout_ms w)"
    using send_arms [OF base some, of e FLAG_ACK] nx rn by (simp add: u_def fill(1))
  have ok: "timers_ok (tmgr u)" "reliable e (udp u)"
    using fill(2) by (simp_all add: flying_defs base_inv_def base_ok_def)
  have "ntohl (seq_num (header ?p)) = m"
    using p by (simp add: seg_is_def)
  then have "waiting e ?p default_peer 0 u u"
    using sent_is_waiting [OF ok, of ?p] arm by (simp add: default_peer_def)
  moreover have "udp_sends (udp u) = udp_sends (udp w) @ [(raw_data ?p, remote_ip w, remote_port w)]"
    using payload_sends [OF rel some, of FLAG_ACK] rn by (simp add: u_def fill(1))
  ultimately show ?thesis
    using p by blast
qed

lemma unacked_start:
  assumes w: "aloft e m t rest 0 w" and some: "take (cwnd w) rest \<noteq> []" and home: "(remote_ip w, remote_port w) = default_peer"
  defines "u \<equiv> send_payload_packet e (try_send_data w) FLAG_ACK w"
  shows "unacked e m t rest (min (cwnd w) (length rest)) 0 u"
proof -
  note fill = fill_window [OF w refl, folded u_def]
  obtain p where p: "waiting e p default_peer 0 u u" "seg_is p m t FLAG_ACK (take (min (cwnd w) (length rest)) rest)"
    "udp_sends (udp u) = udp_sends (udp w) @ [(raw_data p, default_peer)]"
    using first_waits [OF w some, folded u_def] home by auto
  have "(remote_ip u, remote_port u) = default_peer" "recv_next (rwnd u) = t"
    using home w by (simp_all add: u_def send_payload_packet_def Let_def aloft_def)
  then show ?thesis
    using fill(2,3) last_arrivalI(2) [OF p(3,2)] p(1,2) unfolding unacked_def flying_def by auto
qed

lemma unacked_expires:
  assumes w: "unacked e m t rest f k w" and k: "k < 4"
  shows "\<exists>w'. timer_expires e m w = Inr w' \<and> unacked e m t rest f (Suc k) w'"
proof -
  obtain p w0 where wt: "waiting e p default_peer k w0 w" and p: "seg_is p m t FLAG_ACK (take f rest)" "recv_next (rwnd w0) = t"
    and air: "aloft e m t rest f w" and home: "(remote_ip w, remote_port w) = default_peer"
    using w unfolding unacked_def by blast
  have base: "base_inv w" and short: "length (take f rest) \<le> 65535"
    using air aloft_length [OF air] by (simp_all add: aloft_def)
  obtain w' q xs where w': "timer_expires e m w = Inr w'" "waiting e p default_peer (Suc k) w0 w'" "base_inv w'"
    "same_connection w w'" "cwnd w' = 1" and q: "udp_sends (udp w') = xs @ [(raw_data q, default_peer)]" "seg_is q m t FLAG_ACK (take f rest)"
    using waiting_resends [OF wt k base p short] by auto
  have "reliable e (udp w')"
    using w'(2) by (simp add: waiting_def)
  then have "aloft e m t rest f w'" "(remote_ip w', remote_port w') = default_peer"
    using air home w'(3,4) by (simp_all add: aloft_def same_connection_def)
  then show ?thesis
    using w'(1,2,5) p last_arrivalI(2) [OF q] q(2) unfolding unacked_def by blast
qed

interpretation data: resending e m "last_arrival_at default_peer" "unacked e m t rest f"
    "\<lambda>q. seg_is q m t FLAG_ACK (take f rest)" for e m t rest f
  by unfold_locales (rule unacked_expires, assumption+, simp add: unacked_def)

text \<open>The acknowledgement of the segment brings out the next one, if there is more to send.\<close>

definition sending :: "env \<Rightarrow> u32 \<Rightarrow> u32 \<Rightarrow> u8 list \<Rightarrow> world \<Rightarrow> bool" where
  "sending e m t rest w \<longleftrightarrow>
     (if rest = [] then idle e ESTABLISHED m t w else \<exists>f. 0 < f \<and> f \<le> length rest \<and> unacked e m t rest f 0 w)"

lemma unacked_answered:
  assumes w: "unacked e m t rest f k w" and f: "0 < f" "f \<le> length rest" and nowrap: "unat m + length rest < 2 ^ 32"
    and p: "seg_is p seq (m + of_nat f) FLAG_ACK []"
  shows "\<exists>u. input e p w = Inr u \<and> sending e (m + of_nat f) t (drop f rest) u"
proof -
  let ?g = "acked (m + of_nat f) p w"
  let ?u = "send_payload_packet e (try_send_data ?g) FLAG_ACK ?g"
  have air: "aloft e m t rest f w"
    using w by (simp add: unacked_def)
  note g = input_acks(1) [OF air f nowrap p]
  have "sending e (m + of_nat f) t (drop f rest) ?u"
  proof (cases "f < length rest")
    case True
    then have c: "cwnd w = f \<or> cwnd w = 1"
      using w by (simp add: unacked_def)
    have "2 * cwnd w < 2 ^ 32"
      using c True aloft_length [OF air] by auto
    from grow_cwnd_unat [OF this] have pos: "0 < cwnd ?g"
      using c f(1) by auto
    then have "take (cwnd ?g) (drop f rest) \<noteq> []"
      using True by simp
    moreover have "(remote_ip ?g, remote_port ?g) = default_peer"
      using w by (simp add: unacked_def)
    ultimately have "unacked e (m + of_nat f) t (drop f rest) (min (cwnd ?g) (length (drop f rest))) 0 ?u"
      by (rule unacked_start [OF g])
    moreover have "0 < min (cwnd ?g) (length (drop f rest))" "min (cwnd ?g) (length (drop f rest)) \<le> length (drop f rest)"
      using pos True by simp_all
    moreover have "drop f rest \<noteq> []"
      using True by simp
    ultimately show ?thesis
      unfolding sending_def by (simp only: if_False) blast
  next
    case False
    then show ?thesis
      using flying_idle fill_window(2) [OF g refl] by (simp add: sending_def)
  qed
  then show ?thesis
    using input_aloft [OF air f nowrap p] by blast
qed

section \<open>The receiver\<close>

text \<open>The bytes received so far, acknowledged by the last datagram; a copy of what is acknowledged is acknowledged again.\<close>

definition took :: "env \<Rightarrow> u32 \<Rightarrow> u32 \<Rightarrow> u8 list \<Rightarrow> world \<Rightarrow> bool" where
  "took e m t bs w \<longleftrightarrow> idle e ESTABLISHED m t w \<and> ring_contents (recv_buffer w) = bs
     \<and> (\<exists>q. last_arrival w = Some q \<and> seg_is q m t FLAG_ACK [])"

text \<open>Data that is not the next, with an acknowledgement of nothing new, is answered by an acknowledgement.\<close>

lemma stray_data:
  assumes w: "base_inv w" "state w = ESTABLISHED" "recv_next (rwnd w) = t" "reliable e (udp w)"
    and full: "try_send_data w = []" and old: "\<not> ack_acceptable a w"
    and p: "seg_is p s a FLAG_ACK data" "data \<noteq> []" "s \<noteq> t"
  defines "v \<equiv> send_pure_ack e t (w\<lparr>peer_usable_window_size := ucast (ntohs (window_size (header p)))\<rparr>)"
  shows "input e p w = Inr v" and "sends w v (send_next (swnd w)) t FLAG_ACK []"
proof -
  let ?w = "w\<lparr>peer_usable_window_size := ucast (ntohs (window_size (header p)))\<rparr>"
  have base: "base_inv ?w"
    using w(1) by (simp add: base_inv_def)
  have inc: "handle_incoming_packet e p ?w = Inr (False, v)"
    using p w(3) by (simp add: handle_incoming_eq [OF base] seg_is_def v_def)
  have "try_send_data ?w = try_send_data w"
    by (simp add: try_send_data_def Let_def)
  then have "try_send_data ?w = []"
    using full by simp
  then have "handle_try_send e ?w = Inr ?w"
    using base by (simp add: handle_try_send_eq)
  moreover have f: "verify_checksum p" "ntohl (ack_num (header p)) = a" "payload p = data"
    using p(1) by (simp_all add: seg_is_def)
  then have "handle_ack e p ?w = Inr (False, ?w)"
    using old by (auto simp: handle_ack_def ack_acceptable_def Let_def)
  ultimately show "input e p w = Inr v"
    using w(2) f p(2) inc
    by (simp add: input_accepted handle_established_def seg_is_flag [OF p(1)] flag_values)
  show "sends w v (send_next (swnd w)) t FLAG_ACK []"
    using sends_pure_ack [of e ?w w t] w(4) by (simp add: v_def)
qed

lemma took_again:
  assumes w: "took e m t bs w" and p: "seg_is p s m FLAG_ACK data" "data \<noteq> []" "s \<noteq> t"
  shows "\<exists>w'. input e p w = Inr w' \<and> took e m t bs w'"
proof -
  let ?v = "send_pure_ack e t (w\<lparr>peer_usable_window_size := ucast (ntohs (window_size (header p)))\<rparr>)"
  have i: "base_inv w" "state w = ESTABLISHED" "recv_next (rwnd w) = t" "reliable e (udp w)" "try_send_data w = []"
    "\<not> ack_acceptable m w" "send_next (swnd w) = m"
    using w by (simp_all add: took_def idle_def try_send_data_empty ack_acceptable_def)
  note v = stray_data [OF i(1-6) p, unfolded i(7)]
  have "idle e ESTABLISHED m t ?v"
    using w by (simp add: took_def idle_def)
  moreover have "recv_buffer ?v = recv_buffer w"
    by (simp add: send_pure_ack_def Let_def)
  ultimately show ?thesis
    using w v(1) sends_last [OF v(2)] by (auto simp: took_def)
qed

lemma takes:
  assumes q: "quiet_env e" and w: "idle e ESTABLISHED m t w" and p: "seg_is p t m FLAG_ACK data" "data \<noteq> []"
    and room: "qsize (recv_buffer w) + length data \<le> 1024"
  shows "\<exists>w'. input e p w = Inr w' \<and> took e m (t + of_nat (length data)) (ring_contents (recv_buffer w) @ data) w'"
  using input_data [OF q w p room] sends_last unfolding took_def by metis

section \<open>Rounds\<close>

text \<open>
  One segment: its first \<open>k\<close> copies are lost, the next one arrives, the acknowledgements of that
  one and of the following copies are lost but for the last, after \<open>j\<close> more copies.
\<close>

fun lossy_round :: "env \<Rightarrow> env \<Rightarrow> nat \<times> nat \<Rightarrow> world \<times> world \<Rightarrow> (world \<times> world) result" where
  "lossy_round ec es (k, j) (c, s) =
     bind_res (expiries ec (send_unack (swnd c)) k c) (\<lambda>c.
       case last_arrival_at default_peer c of
         None \<Rightarrow> Inr (c, s)
       | Some p \<Rightarrow> bind_res (input es p s) (\<lambda>s.
           bind_res (asked_again (last_arrival_at default_peer) ec es (send_unack (swnd c)) j (c, s)) (\<lambda>(c, s).
             case last_arrival s of
               None \<Rightarrow> Inr (c, s)
             | Some q \<Rightarrow> bind_res (input ec q c) (\<lambda>c. Inr (c, s)))))"

text \<open>As many rounds as there is something in flight, with the given losses.\<close>

fun lossy_rounds :: "env \<Rightarrow> env \<Rightarrow> (nat \<times> nat) list \<Rightarrow> world \<times> world \<Rightarrow> (world \<times> world) result" where
  "lossy_rounds ec es [] (c, s) = Inr (c, s)"
| "lossy_rounds ec es (l # ls) (c, s) =
     (if send_unack (swnd c) = send_next (swnd c) then Inr (c, s)
      else bind_res (lossy_round ec es l (c, s)) (lossy_rounds ec es ls))"

lemma unacked_number: "unacked e m t rest f k w \<Longrightarrow> send_unack (swnd w) = m"
  by (simp add: unacked_def aloft_def)

lemma one_lossy_round:
  assumes qs: "quiet_env es" and c: "unacked ec x y rest f 0 c" and f: "0 < f" "f \<le> length rest"
    and s: "idle es ESTABLISHED y x s" and room: "qsize (recv_buffer s) + length rest \<le> 1024"
    and nowrap: "unat x + length rest < 2 ^ 32" and l: "k + j \<le> 4"
  shows "\<exists>c' s'. lossy_round ec es (k, j) (c, s) = Inr (c', s') \<and> sending ec (x + of_nat f) y (drop f rest) c'
    \<and> idle es ESTABLISHED y (x + of_nat f) s'
    \<and> ring_contents (recv_buffer s') = ring_contents (recv_buffer s) @ take f rest"
proof -
  let ?d = "take f rest" and ?R = "took es y (x + of_nat f) (ring_contents (recv_buffer s) @ take f rest)"
  have d: "?d \<noteq> []" "length ?d = f" "qsize (recv_buffer s) + length ?d \<le> 1024"
    using f room by auto
  have "unat x + f < 2 ^ 32"
    using nowrap f by simp
  then have ne: "x \<noteq> x + of_nat f"
    using ack_advances f(1) by fastforce
  have first: "seg_is p x y FLAG_ACK ?d \<Longrightarrow> \<exists>s'. input es p s = Inr s' \<and> ?R s'" for p
    using takes [OF qs s _ d(1,3)] d(2) by simp
  have again: "?R v \<Longrightarrow> seg_is p x y FLAG_ACK ?d \<Longrightarrow> \<exists>v'. input es p v = Inr v' \<and> ?R v'" for p v
    using took_again [OF _ _ d(1) ne] .
  obtain c1 p s1 c2 s2 where c1: "expiries ec x k c = Inr c1" "last_arrival_at default_peer c1 = Some p"
    "input es p s = Inr s1" and c2: "asked_again (last_arrival_at default_peer) ec es x j (c1, s1) = Inr (c2, s2)"
    "unacked ec x y rest f (k + j) c2" and s2: "?R s2"
    using data.answered [where R = ?R, OF _ _ c l] again first by blast
  have "send_unack (swnd c1) = x"
    using data.expires [OF c, of k] l c1(1) unacked_number by force
  moreover obtain q where q: "last_arrival s2 = Some q" "seg_is q y (x + of_nat f) FLAG_ACK []"
    using s2 unfolding took_def by blast
  moreover obtain c3 where "input ec q c2 = Inr c3" "sending ec (x + of_nat f) y (drop f rest) c3"
    using unacked_answered [OF c2(2) f nowrap q(2)] by blast
  ultimately show ?thesis
    using c1 c2(1) s2 unacked_number [OF c] by (auto simp: took_def)
qed

lemma lossy_rounds_deliver:
  assumes qs: "quiet_env es"
  shows "sending ec x y rest c \<Longrightarrow> idle es ESTABLISHED y x s \<Longrightarrow> qsize (recv_buffer s) + length rest \<le> 1024 \<Longrightarrow>
    unat x + length rest < 2 ^ 32 \<Longrightarrow> \<forall>(k, j)\<in>set ls. k + j \<le> 4 \<Longrightarrow> length rest \<le> length ls \<Longrightarrow>
    \<exists>c' s'. lossy_rounds ec es ls (c, s) = Inr (c', s') \<and> idle ec ESTABLISHED (x + of_nat (length rest)) y c'
      \<and> idle es ESTABLISHED y (x + of_nat (length rest)) s'
      \<and> ring_contents (recv_buffer s') = ring_contents (recv_buffer s) @ rest"
proof (induction ls arbitrary: x rest c s)
  case Nil
  then show ?case
    by (simp add: sending_def)
next
  case (Cons l ls)
  show ?case
  proof (cases "rest = []")
    case True
    then show ?thesis
      using Cons.prems by (simp add: sending_def idle_def)
  next
    case False
    obtain f where f: "0 < f" "f \<le> length rest" and c: "unacked ec x y rest f 0 c"
      using Cons.prems(1) False by (auto simp: sending_def)
    obtain k j where l: "l = (k, j)" "k + j \<le> 4"
      using Cons.prems(5) by (cases l) auto
    obtain c1 s1 where r: "lossy_round ec es l (c, s) = Inr (c1, s1)"
      and c1: "sending ec (x + of_nat f) y (drop f rest) c1" and s1: "idle es ESTABLISHED y (x + of_nat f) s1"
      and b1: "ring_contents (recv_buffer s1) = ring_contents (recv_buffer s) @ take f rest"
      using one_lossy_round [OF qs c f Cons.prems(2-4) l(2)] unfolding l(1) by blast
    have "length (ring_contents (recv_buffer s1)) = qsize (recv_buffer s) + f"
      using b1 f by simp
    then have room: "qsize (recv_buffer s1) + length (drop f rest) \<le> 1024"
      using Cons.prems(3) f by simp
    have wrap: "unat (x + of_nat f) + length (drop f rest) < 2 ^ 32"
      using Cons.prems(4) f unat_plus_small [of x f] by simp
    have more: "\<forall>(k, j)\<in>set ls. k + j \<le> 4" "length (drop f rest) \<le> length ls"
      using Cons.prems(5,6) f by auto
    have "x < x + of_nat f"
      using Cons.prems(4) f by (intro ack_advances) simp_all
    then have "x \<noteq> x + of_nat f"
      by (rule less_imp_neq)
    then have fly: "send_unack (swnd c) \<noteq> send_next (swnd c)"
      using c by (simp only: unacked_def aloft_def) blast
    have len: "x + of_nat f + of_nat (length (drop f rest)) = x + of_nat (length rest)"
      using f by (simp flip: of_nat_add)
    show ?thesis
      using Cons.IH [OF c1 s1 room wrap more] r fly b1 unfolding len by auto
  qed
qed

section \<open>Property\<close>

text \<open>
  C6: Data survives losses. On an idle connection whose peer is at port 9999 of the local host,
  data that fits the peer's buffer is written at once. Of every segment it goes out in, the
  first \<open>k\<close> copies and then the first \<open>j\<close> acknowledgements may be lost, \<open>k + j\<close> at most four and
  different for every segment: the retransmissions get all of it across, exactly once and in
  order, and both sides are idle again at the next sequence number. The conditions: the
  sender's window is not zero and it has counted no duplicate acknowledgements; between one and
  1024 bytes are written; their sequence numbers do not wrap, that is \<open>send_next\<close> plus their
  number stays below \<open>2 ^ 32\<close> (otherwise no acknowledgement is accepted any more; see
  \<open>wrapped_window_accepts_no_ack\<close>); losses are given for at least as many segments as there are
  bytes; and the peer's callbacks leave its session alone.
\<close>

theorem data_survives_loss:
  assumes "quiet_env es" and "idle ec ESTABLISHED x y c" and "idle es ESTABLISHED y x s"
    and "(remote_ip c, remote_port c) = default_peer" and "dup_ack_count c = 0" and "0 < cwnd c"
    and "data \<noteq> []" and "length data \<le> 1024" and "qsize (recv_buffer s) + length data \<le> 1024"
    and "unat x + length data < 2 ^ 32" and "\<forall>(k, j)\<in>set losses. k + j \<le> 4" and "length data \<le> length losses"
  shows "\<exists>c1 c2 s2. send ec data c = Inr (length data, c1) \<and> lossy_rounds ec es losses (c1, s) = Inr (c2, s2)
    \<and> ring_contents (recv_buffer s2) = ring_contents (recv_buffer s) @ data
    \<and> idle ec ESTABLISHED (x + of_nat (length data)) y c2 \<and> idle es ESTABLISHED y (x + of_nat (length data)) s2"
proof -
  let ?q = "queued data c"
  let ?u = "send_payload_packet ec (try_send_data ?q) FLAG_ACK ?q"
  note q = queued_aloft [OF assms(2,5,8)]
  have same: "cwnd ?q = cwnd c" "(remote_ip ?q, remote_port ?q) = default_peer"
    using assms(4) by (simp_all add: queued_def cwnd_def)
  have "unacked ec x y data (min (cwnd c) (length data)) 0 ?u"
    using unacked_start [OF q(1) _ same(2)] assms(6,7) same(1) by simp
  then have "sending ec x y data ?u"
    using assms(6,7) unfolding sending_def by (auto intro!: exI [of _ "min (cwnd c) (length data)"])
  from lossy_rounds_deliver [OF assms(1) this assms(3,9-12)] show ?thesis
    using assms(2,7) q(2) by (auto simp: send_eq idle_def)
qed

theorem data_survives_loss_witness:
  "\<exists>c1 c2 s2. send example_env [7, 8, 9] ((example_established 1000 2000)\<lparr>remote_ip := ''127.0.0.1'', remote_port := 9999\<rparr>)
      = Inr (3, c1)
    \<and> lossy_rounds example_env example_env [(2, 1), (0, 4), (4, 0)] (c1, example_established 2000 1000) = Inr (c2, s2)
    \<and> ring_contents (recv_buffer s2) = [7, 8, 9]"
proof -
  let ?c = "(example_established 1000 2000)\<lparr>remote_ip := ''127.0.0.1'', remote_port := 9999\<rparr>"
  have c: "idle example_env ESTABLISHED 1000 2000 ?c"
    using example_established_idle [of 1000 2000] by (simp add: idle_def base_inv_def)
  have f: "(remote_ip ?c, remote_port ?c) = default_peer" "dup_ack_count ?c = 0" "0 < cwnd ?c"
    "qsize (recv_buffer (example_established 2000 1000)) = 0"
    "ring_contents (recv_buffer (example_established 2000 1000)) = []"
    by (simp_all add: default_peer_def example_established_def enter_world_new cwnd_def ring_simps)
      (simp add: ring_new_def)
  show ?thesis
    using data_survives_loss [OF example_quiet c example_established_idle [of 2000 1000] f(1-3),
        of "[7, 8, 9]" "[(2, 1), (0, 4), (4, 0)]"] f(4,5)
    by (auto simp del: lossy_rounds.simps)
qed

end
