(* ===== verification/Wire_Format.thy ===== *)
theory Wire_Format
  imports Emission Side_Conditions
begin

text \<open>
  What goes out on the wire: every segment that a session hands to the driver, for the first
  time or again, is well formed, and where it is sent to is known.
\<close>

section \<open>Well-formed segments\<close>

definition well_formed :: "tcp_packet \<Rightarrow> bool" where
  "well_formed p \<longleftrightarrow> options p = [] \<and> verify_checksum p \<and> data_offset_and_reserved (header p) = 80
     \<and> unat (ntohs (window_size (header p))) \<le> 1024 \<and> length (payload p) \<le> 1024
     \<and> flags (header p) \<in> insert FLAG_ACK control_flags
     \<and> (payload p \<noteq> [] \<longrightarrow> flags (header p) = FLAG_ACK)"

text \<open>Where a segment goes: to the peer, or, for data sent again, to the default address.\<close>

definition posted :: "sock_addr \<Rightarrow> tcp_packet \<Rightarrow> sock_addr \<Rightarrow> bool" where
  "posted peer p dest \<longleftrightarrow> well_formed p \<and> (dest = peer \<or> dest = (''127.0.0.1'', 9999) \<and> payload p \<noteq> [])"

lemma usable_window_bound:
  assumes "base_inv w"
  shows "unat (ucast (get_usable_recv_window_size w) :: u16) \<le> 1024"
proof -
  have "capacity (recv_buffer w) = 1024"
    using assms by (simp add: base_inv_def base_ok_def)
  then have "get_usable_recv_window_size w = of_nat (1024 - qsize (recv_buffer w))"
    by (simp add: get_usable_recv_window_size_def)
  then show ?thesis
    by (simp add: unsigned_ucast_eq unsigned_of_nat take_bit_nat_eq_self)
qed

lemma well_formed_new:
  assumes "base_inv w" and "length data \<le> 1024" and "fl \<in> insert FLAG_ACK control_flags" and "data \<noteq> [] \<longrightarrow> fl = FLAG_ACK"
  shows "well_formed (calculate_checksum \<lparr>header = make_header e a fl w, options = [], payload = data\<rparr>)"
  using assms usable_window_bound [OF assms(1)]
  by (simp add: well_formed_def frame_simps checksum_accepts) (simp add: make_header_def)

lemma well_formed_again:
  assumes "base_inv w" and "well_formed p"
  shows "well_formed (calculate_checksum (p\<lparr>header := (header p)\<lparr>ack_num := a,
      window_size := htons (ucast (get_usable_recv_window_size w))\<rparr>\<rparr>))"
  using assms usable_window_bound [OF assms(1)] by (simp add: well_formed_def frame_simps checksum_accepts)

section \<open>The condition on a session\<close>

text \<open>
  Besides what the session posts, the driver may have sent datagrams of its other users,
  which satisfy \<open>D\<close>.
\<close>

definition mail :: "(u8 list \<times> sock_addr \<Rightarrow> bool) \<Rightarrow> sock_addr \<Rightarrow> u8 list \<times> sock_addr \<Rightarrow> bool" where
  "mail D peer x \<longleftrightarrow> D x \<or> (\<exists>p. fst x = raw_data p \<and> posted peer p (snd x))"

definition posting :: "(u8 list \<times> sock_addr \<Rightarrow> bool) \<Rightarrow> sock_addr \<Rightarrow> world \<Rightarrow> bool" where
  "posting D peer w \<longleftrightarrow> (remote_ip w, remote_port w) = peer
     \<and> (\<forall>x\<in>set (inflight_packets w). flags (header (snd x)) = FLAG_ACK \<and> length (payload (snd x)) \<le> 1024)
     \<and> (\<forall>c\<in>closures (tmgr w). posted peer (rt_packet c) (rt_ip c, rt_port c))
     \<and> (\<forall>x\<in>set (udp_sends (udp w)). mail D peer x)"

lemma posting_fewer:
  "posting D peer w \<Longrightarrow> closures m \<subseteq> closures (tmgr w) \<Longrightarrow> posting D peer (w\<lparr>tmgr := m\<rparr>)"
  by (auto simp: posting_def)

lemma posting_send:
  assumes "posting D peer w" and "posted peer p dest"
  shows "\<forall>x\<in>set (udp_sends (send_packet r p dest (udp w))). mail D peer x"
  using assms by (auto simp: posting_def send_packet_sends mail_def)

lemma posting_start:
  assumes "posting D peer w" and "posted peer (rt_packet c) (rt_ip c, rt_port c)"
  shows "\<forall>c\<in>closures (start_timer s t c (tmgr w)). posted peer (rt_packet c) (rt_ip c, rt_port c)"
  using assms closures_start [of s t c "tmgr w"] by (auto simp: posting_def)

lemma posting_ack:
  assumes "kept (posting D peer) w"
  shows "posting D peer (send_pure_ack e a w)"
proof -
  let ?p = "calculate_checksum \<lparr>header = make_header e a FLAG_ACK w, options = [], payload = []\<rparr>"
  have w: "posting D peer w" and "well_formed ?p"
    using assms by (auto simp: kept_def intro!: well_formed_new)
  then have "posted peer ?p (remote_ip w, remote_port w)"
    by (simp add: posted_def posting_def)
  from posting_send [OF w this, of "draw e"] show ?thesis
    using w by (simp add: posting_def send_pure_ack_def Let_def)
qed

lemma posting_control:
  assumes "kept (posting D peer) w" and "fl \<in> control_flags"
  shows "posting D peer (send_control_packet e fl w)"
proof -
  let ?p = "calculate_checksum \<lparr>header = make_header e (recv_next (rwnd w)) fl w, options = [], payload = []\<rparr>"
  have w: "posting D peer w" and "well_formed ?p"
    using assms by (auto simp: kept_def intro!: well_formed_new)
  then have p: "posted peer ?p (remote_ip w, remote_port w)"
    by (simp add: posted_def posting_def)
  have "\<forall>c\<in>closures (tmgr (send_control_packet e fl w)). posted peer (rt_packet c) (rt_ip c, rt_port c)"
  proof -
    let ?c = "\<lparr>rt_packet = ?p, rt_count = 0, rt_ip = remote_ip w, rt_port = remote_port w\<rparr>"
    have "\<forall>c\<in>closures (start_timer s t ?c (tmgr w)). posted peer (rt_packet c) (rt_ip c, rt_port c)" for s t
      by (rule posting_start [OF w]) (simp add: p)
    moreover have "\<forall>c\<in>closures (tmgr w). posted peer (rt_packet c) (rt_ip c, rt_port c)"
      using w by (simp add: posting_def)
    ultimately show ?thesis
      by (simp add: send_control_packet_def Let_def)
  qed
  then show ?thesis
    using posting_send [OF w p, of "draw e"] w by (simp add: posting_def send_control_packet_def Let_def)
qed

lemma emplaced: "x \<in> set (map_try_emplace k v m) \<Longrightarrow> x = (k, v) \<or> x \<in> set m"
  using map_assign_set [of k v m] by (auto simp: map_try_emplace_def split: if_splits)

lemma posting_data:
  assumes "kept (posting D peer) w" and "length data \<le> 1024"
  shows "posting D peer (send_payload_packet e data FLAG_ACK w)"
proof (cases "data = []")
  case False
  let ?r = "\<lparr>header = make_header e (recv_next (rwnd w)) FLAG_ACK w, options = [], payload = data\<rparr>"
  let ?p = "calculate_checksum ?r"
  have w: "posting D peer w" and wf: "well_formed ?p"
    using assms by (auto simp: kept_def intro!: well_formed_new)
  then have p: "posted peer ?p (remote_ip w, remote_port w)" and q: "posted peer ?p (''127.0.0.1'', 9999)"
    using False by (simp_all add: posted_def posting_def frame_simps)
  have "\<forall>c\<in>closures (start_timer s t \<lparr>rt_packet = ?p, rt_count = 0, rt_ip = ''127.0.0.1'', rt_port = 9999\<rparr> (tmgr w)).
      posted peer (rt_packet c) (rt_ip c, rt_port c)" for s t
    by (rule posting_start [OF w]) (simp add: q)
  moreover have "x \<in> set (map_try_emplace k ?r (inflight_packets w)) \<Longrightarrow>
      flags (header (snd x)) = FLAG_ACK \<and> length (payload (snd x)) \<le> 1024" for x k
    using w assms(2) by (auto simp: posting_def make_header_def dest!: emplaced)
  ultimately show ?thesis
    using False posting_send [OF w p, of "draw e"] w by (simp add: posting_def send_payload_packet_def Let_def)
qed (use assms in \<open>simp add: kept_def\<close>)

text \<open>What a retransmission sends is the stored segment with a new acknowledgement and window.\<close>

lemma posting_retransmit:
  assumes w: "kept (posting D peer) w" and "posted peer p (ip, port)"
  shows "posting D peer (snd (handle_retransmit e p k s t ip port w))"
proof -
  let ?q = "calculate_checksum (p\<lparr>header := (header p)\<lparr>ack_num := htonl (recv_next (rwnd w)),
      window_size := htons (ucast (get_usable_recv_window_size w))\<rparr>\<rparr>)"
  let ?w = "w\<lparr>tmgr := stop_timer s (tmgr w)\<rparr>"
  have q: "posted peer ?q (ip, port)"
    using assms well_formed_again [of w p] by (simp add: posted_def kept_def frame_simps)
  have w': "posting D peer ?w"
    using w closures_stop [of s "tmgr w"] by (simp add: kept_def posting_fewer)
  have "\<forall>c\<in>closures (start_timer s t' \<lparr>rt_packet = ?q, rt_count = k', rt_ip = ip, rt_port = port\<rparr> (tmgr ?w)).
      posted peer (rt_packet c) (rt_ip c, rt_port c)" for t' k'
    by (rule posting_start [OF w']) (simp add: q)
  then show ?thesis
    using posting_send [OF w' q, of "draw e"] w' by (simp add: handle_retransmit_def Let_def posting_def)
qed

lemma posting_expire:
  assumes "kept (posting D peer) w" and "armed (tmgr w) h = Some (On_timer_uv_tick c, t)"
  shows "posting D peer (run_retransmit_closure e c w)"
proof -
  have "c \<in> closures (tmgr w)"
    using assms(2) by (auto simp: closures_def)
  then show ?thesis
    using assms(1) posting_retransmit [OF assms(1), of "rt_packet c" "rt_ip c" "rt_port c"]
    by (simp add: run_retransmit_closure_def kept_def posting_def)
qed

lemma posting_accept:
  assumes "posting D peer w"
  shows "posting D peer (accept_ack a w)"
  using assms closures_drop_up_to [of "a - 1" "tmgr w"] erase_below_subset [of a "inflight_packets w"]
  by (auto simp: accept_ack_def Let_def posting_def)

interpretation posting: session_condition "posting D peer" for D peer
proof unfold_locales
  fix w w' :: world
  assume "wire_view w' = wire_view w"
  then show "posting D peer w' = posting D peer w"
    by (simp add: wire_view_def side_view_def posting_def)
next
  fix w :: world and fl :: u8 and e
  show "kept (posting D peer) w \<Longrightarrow> fl \<in> control_flags \<Longrightarrow> posting D peer (send_control_packet e fl w)"
    by (rule posting_control)
qed (simp_all add: posting_fewer closures_subset posting_ack posting_data posting_expire posting_accept kept_def)

lemma posting_env:
  assumes "quiet_env e"
  shows "env_keeps (kept (posting D peer)) e"
proof (rule quiet_env_keeps [OF assms])
  fix w ps b
  show "kept (posting D peer) w \<Longrightarrow> kept (posting D peer) (w\<lparr>posts := ps, is_in_ready_queue := b\<rparr>)"
    by (simp add: kept_def posting_def)
next
  fix e' a w
  assume w: "kept (posting D peer) w"
  then have "(a, p) \<in> set (inflight_packets w) \<Longrightarrow> flags (header p) = FLAG_ACK \<and> length (payload p) \<le> 1024" for p
    by (fastforce simp: kept_def posting_def)
  then have "map_find a (inflight_packets w) = Some p \<Longrightarrow> flags (header p) = FLAG_ACK \<and> length (payload p) \<le> 1024" for p
    by (auto simp: map_find_def dest: map_of_SomeD)
  then show "returns (kept (posting D peer)) (default_three_dup_ack e' a w)"
    using w by (auto simp: default_three_dup_ack_def Let_def posting.kept_data posting.kept_stop split: option.split)
qed

lemma mail_read:
  assumes "mail D peer x"
  shows "D x \<or> (\<exists>p. parse_datagram (fst x) = Some p \<and> posted peer p (snd x))"
  using assms by (fastforce simp: mail_def posted_def well_formed_def wire.law_dec_enc)

lemma enter_world_remote:
  "enter_world (set_remote_addr ip port s) d n = (enter_world s d n)\<lparr>remote_ip := ip, remote_port := port\<rparr>"
  by (simp add: enter_world_def set_remote_addr_def tcp_session.defs)

lemma posting_new:
  "kept (posting (\<lambda>x. x \<in> set (udp_sends d)) (ip, port))
     (enter_world (set_remote_addr ip port (new_session ptr i0 r0 lp rp)) d n)"
  using base_inv_new [of ptr i0 r0 lp rp d n]
  by (simp add: enter_world_remote kept_def posting_def base_inv_def)
    (simp add: enter_world_new mail_def new_timer_manager_def closures_def armed_def)

section \<open>Property\<close>

text \<open>
  C17: Every datagram is a segment. Whatever a session is asked to do and whatever arrives, each
  datagram it hands to the driver parses to a segment without options whose checksum verifies,
  whose data offset says five words, which advertises at most the buffer of 1024 bytes, carries
  at most as many, and has one of six sets of flags, the plain acknowledgement if it carries
  data; and it goes to the peer, except that data sent again goes to port 9999 of the local
  host.
\<close>

theorem datagrams_well_formed:
  assumes "quiet_env e"
  shows "\<exists>bytes w'. session_run e evs
      (enter_world (set_remote_addr ip port (new_session ptr i0 r0 lp rp)) d n) = Inr (bytes, w')
    \<and> (\<forall>x\<in>set (udp_sends (udp w')). x \<in> set (udp_sends d)
        \<or> (\<exists>p. parse_datagram (fst x) = Some p \<and> well_formed p
            \<and> (snd x = (ip, port) \<or> snd x = (''127.0.0.1'', 9999) \<and> payload p \<noteq> [])))"
proof -
  obtain bytes w' where run: "session_run e evs
        (enter_world (set_remote_addr ip port (new_session ptr i0 r0 lp rp)) d n) = Inr (bytes, w')"
    and sent: "\<forall>x\<in>set (udp_sends (udp w')). mail (\<lambda>x. x \<in> set (udp_sends d)) (ip, port) x"
    using posting.kept_run [OF posting_env [OF assms] posting_new, of d ip port evs ptr i0 r0 lp rp n]
    by (auto simp: returns_def kept_def posting_def)
  have "x \<in> set (udp_sends d) \<or> (\<exists>p. parse_datagram (fst x) = Some p \<and> well_formed p
      \<and> (snd x = (ip, port) \<or> snd x = (''127.0.0.1'', 9999) \<and> payload p \<noteq> []))"
    if "x \<in> set (udp_sends (udp w'))" for x
    using mail_read [OF bspec [OF sent that]] by (simp add: posted_def)
  with run show ?thesis
    by blast
qed

theorem datagrams_well_formed_witness:
  "\<exists>bytes w'. session_run example_env [Ev_connect, Ev_timer (Seq_timer 0)]
      (enter_world (set_remote_addr ''10.0.0.2'' 80 (new_session 0 5 6 0 0)) new_driver 0) = Inr (bytes, w')
    \<and> (\<forall>x\<in>set (udp_sends (udp w')). \<exists>p. parse_datagram (fst x) = Some p \<and> well_formed p)"
proof -
  have "quiet_env example_env"
    unfolding example_env_def by (rule session_env_quiet)
  moreover have "udp_sends new_driver = []"
    by (simp add: new_driver_def)
  ultimately show ?thesis
    using datagrams_well_formed [of example_env "[Ev_connect, Ev_timer (Seq_timer 0)]" "''10.0.0.2''" 80 0 5 6 0 0 new_driver 0]
    by (metis empty_iff list.set(1))
qed

end
