(* ===== verification/Stack_Addresses.thy ===== *)
theory Stack_Addresses
  imports Wire_Format Stack_Invariants
begin

text \<open>
  Where the stack's datagrams go. Every session in the map is under its own remote address,
  which a datagram came from or the application named; so whatever happens, segments go to
  those addresses only, and to the default address of the retransmission of data.
\<close>

section \<open>Sessions and datagrams\<close>

text \<open>A session without its driver: where it sends to, and what it may send again.\<close>

definition settled :: "session_key \<Rightarrow> tcp_session \<Rightarrow> bool" where
  "settled key s \<longleftrightarrow> (remote_ip s, remote_port s) = key
     \<and> (\<forall>x\<in>set (inflight_packets s). flags (header (snd x)) = FLAG_ACK \<and> length (payload (snd x)) \<le> 1024)
     \<and> (\<forall>c\<in>closures (tmgr s). posted key (rt_packet c) (rt_ip c, rt_port c))"

text \<open>A datagram that the stack may send when it was told the addresses \<open>K\<close>.\<close>

definition letter :: "session_key set \<Rightarrow> u8 list \<times> sock_addr \<Rightarrow> bool" where
  "letter K x \<longleftrightarrow> (\<exists>p. parse_datagram (fst x) = Some p \<and> (well_formed p \<or> p = stray_reset))
     \<and> snd x \<in> insert (''127.0.0.1'', 9999) K"

definition addressed :: "session_key set \<Rightarrow> stack \<Rightarrow> bool" where
  "addressed K st \<longleftrightarrow> (\<forall>key s. map_find key (tcp_sessions st) = Some s \<longrightarrow> key \<in> K \<and> settled key s)
     \<and> (\<forall>x\<in>set (udp_sends (driver st)). letter K x)"

lemma letter_mail:
  assumes "key \<in> K"
  shows "mail (letter K) key x \<longleftrightarrow> letter K x"
proof
  assume "mail (letter K) key x"
  from mail_read [OF this] show "letter K x"
    using assms by (auto simp: letter_def posted_def)
qed (simp add: mail_def)

lemma posting_enter:
  "key \<in> K \<Longrightarrow> posting (letter K) key (enter_world s d n) \<longleftrightarrow> settled key s \<and> (\<forall>x\<in>set (udp_sends d). letter K x)"
  by (simp add: posting_def settled_def letter_mail enter_world_def tcp_session.extend_def)

lemma posting_leave:
  "key \<in> K \<Longrightarrow> posting (letter K) key w \<longleftrightarrow> settled key (tcp_session.truncate w) \<and> (\<forall>x\<in>set (udp_sends (udp w)). letter K x)"
  by (simp add: posting_def settled_def letter_mail tcp_session.truncate_def)

section \<open>One call on a session\<close>

text \<open>Serving requests only takes sessions away.\<close>

lemma serve_fold_le:
  assumes "map_sorted (tcp_sessions st)"
  shows "driver (fold serve_post ps st) = driver st
    \<and> (map_find x (tcp_sessions (fold serve_post ps st)) = Some s \<longrightarrow> map_find x (tcp_sessions st) = Some s)"
  using assms
proof (induction ps arbitrary: st)
  case (Cons c ps)
  have "map_sorted (tcp_sessions (serve_post c st))"
    using Cons.prems by (cases c) (auto simp: enqueue_ready_session_def map_erase_sorted)
  from Cons.IH [OF this] show ?case
    using Cons.prems by (cases c) (auto simp: enqueue_ready_session_def map_find_erase split: if_splits)
qed simp

lemma call_addressed:
  assumes st: "stack_ok exempt batch st" and K: "addressed K st"
    and f: "\<And>key s. at_pointer p st = Some (key, s) \<Longrightarrow> key \<in> K \<Longrightarrow>
      kept (posting (letter K) key) (enter_world s (driver st) (iss_drawn st)) \<Longrightarrow>
      returns (kept (posting (letter K) key)) (f (session_env key (base_env se)) (enter_world s (driver st) (iss_drawn st)))"
  shows "safe (addressed K) (call_session se p f st)"
proof (cases "at_pointer p st")
  case (Some ks)
  obtain key s where at: "at_pointer p st = Some (key, s)"
    using Some by (cases ks) simp
  have srt: "map_sorted (tcp_sessions st)" and ok: "sessions_ok (tcp_sessions st) (next_object st)"
    using st by (simp_all add: stack_ok_def sessions_ok_def)
  have found: "map_find key (tcp_sessions st) = Some s"
    using at_pointer_find [OF srt at] by simp
  then have key: "key \<in> K" and s: "settled key s" "session_ok s"
    using K ok unfolding addressed_def sessions_ok_def by blast+
  then have "kept (posting (letter K) key) (enter_world s (driver st) (iss_drawn st))"
    using K by (simp add: kept_def posting_enter addressed_def)
  from f [OF at key this] obtain w
    where w: "f (session_env key (base_env se)) (enter_world s (driver st) (iss_drawn st)) = Inr w"
      and posting: "posting (letter K) key w"
    by (auto simp: returns_def kept_def)
  have srt': "map_sorted (tcp_sessions (store_session key w st))"
    using srt by (simp add: store_session_def map_assign_sorted)
  have "addressed K (store_session key w st)"
    using K posting key unfolding addressed_def posting_leave [OF key]
    by (auto simp: store_session_def map_find_assign simp del: split_paired_All)
  then have "addressed K (fold serve_post (posts w) (store_session key w st))"
    using serve_fold_le [OF srt', of "posts w"] unfolding addressed_def by metis
  then show ?thesis
    by (simp add: call_session_def at w)
qed (simp add: call_session_def)

text \<open>The application logic sends through the session's operations.\<close>

definition app_posts :: "stack_env \<Rightarrow> bool" where
  "app_posts se \<longleftrightarrow> (\<forall>app e D peer. app_logic_cb se = Some app \<longrightarrow> env_keeps (kept (posting D peer)) e \<longrightarrow>
     cb_keeps (kept (posting D peer)) (app e))"

lemma own_env: "env_keeps (kept (posting D peer)) (session_env key e)"
  by (rule posting_env [OF session_env_quiet])

lemma posting_event:
  assumes "kept (posting D peer) w"
  shows "returns (kept (posting D peer)) (bind_res (session_step (session_env key e) ev w) (\<lambda>(_, w). Inr w))"
  by (rule returns_bind [OF posting.kept_step [OF own_env assms]]) auto

lemma posting_ready:
  assumes "app_posts se" and "kept (posting D peer) w"
  shows "returns (kept (posting D peer)) (run_ready se (session_env key e) w)"
proof -
  have "kept (posting D peer) (w\<lparr>is_in_ready_queue := False\<rparr>)"
    using assms(2) by (simp add: kept_def posting_def base_inv_def)
  then show ?thesis
    using assms(1) own_env [of D peer key e]
    by (auto simp: run_ready_def Let_def app_posts_def cb_keeps_def returns_def simp del: split_paired_All split: option.split)
qed

section \<open>Every event\<close>

text \<open>The addresses that an event tells the stack.\<close>

fun named_addresses :: "stack_event \<Rightarrow> session_key set" where
  "named_addresses (Se_datagram buf (Some a)) = {a}"
| "named_addresses (Se_create key) = {key}"
| "named_addresses _ = {}"

lemma outcome_mono: "outcome E P r \<Longrightarrow> (\<And>x. P x \<Longrightarrow> Q x) \<Longrightarrow> outcome E Q r"
  by (cases r) auto

lemma outcome_conj: "outcome E P r \<Longrightarrow> outcome E Q r \<Longrightarrow> outcome E (\<lambda>x. P x \<and> Q x) r"
  by (cases r) auto

lemma batch_addressed:
  assumes "app_ok se" and "app_posts se"
  shows "stack_ok {} ps st \<and> addressed K st \<Longrightarrow> safe (\<lambda>st. stack_ok {} [] st \<and> addressed K st) (process_batch se ps st)"
proof (induction ps arbitrary: st)
  case (Cons p ps)
  have "safe (addressed K) (call_session se p (run_ready se) st)"
    by (rule call_addressed) (use Cons.prems posting_ready [OF assms(2)] in auto)
  from outcome_conj [OF dispatch_keeps [OF assms(1) Cons.prems [THEN conjunct1]] this] show ?case
    by (auto intro: outcome_bind Cons.IH)
qed simp

lemma idle_addressed:
  assumes "app_ok se" and "app_posts se" and "stack_inv st" and "addressed K st"
  shows "safe (addressed K) (on_idle_dispatch se st)"
proof -
  let ?st = "st\<lparr>idle_active := False, ready_queue := []\<rparr>"
  have "stack_ok {} (ready_queue st) ?st \<and> addressed K ?st"
    using assms(3,4) by (simp add: stack_inv_def stack_ok_def addressed_def)
  from batch_addressed [OF assms(1,2) this] have "safe (addressed K) (process_batch se (ready_queue st) ?st)"
    by (auto elim: outcome_mono)
  then show ?thesis
    using assms(4) by (auto simp: on_idle_dispatch_def Let_def addressed_def)
qed

lemma created_settled:
  "settled key (set_remote_addr (fst key) (snd key) (new_session n i r lp rp))"
  by (simp add: settled_def set_remote_addr_def new_session_def new_timer_manager_def closures_def armed_def)

lemma create_addressed: "key \<in> K \<Longrightarrow> addressed K st \<Longrightarrow> addressed K (snd (create_session se key st))"
  by (auto simp: addressed_def create_session_def Let_def map_try_emplace_def map_find_assign created_settled
      simp del: split_paired_All split: option.split if_splits)

lemma created_at:
  assumes "stack_inv st"
  shows "\<exists>q st' s. create_session se key st = (Some q, st') \<and> stack_ok {} [] st' \<and> at_pointer q st' = Some (key, s)"
proof -
  let ?st = "snd (create_session se key st)"
  have ok: "stack_ok {} [] ?st"
    using create_keeps(1) [where st = st and se = se and key = key and batch = "[]"] assms by (simp add: stack_inv_def)
  obtain s where s: "map_find key (tcp_sessions ?st) = Some s" "fst (create_session se key st) = Some (self_ptr s)"
    using create_keeps(2) [where st = st and se = se and key = key and batch = "[]"] assms by (auto simp: stack_inv_def)
  have "at_pointer (self_ptr s) ?st = Some (key, s)"
    by (rule find_at_pointer [OF _ s(1), of "next_object ?st"]) (use ok in \<open>simp add: stack_ok_def\<close>)
  with ok s(2) show ?thesis
    by (metis prod.collapse)
qed

lemma receive_addressed:
  assumes inv: "stack_inv st" and K: "addressed K st" and key: "key \<in> K"
  shows "safe (addressed K) (stack_receive se p key st)"
proof (cases "map_find key (tcp_sessions st)")
  case (Some s)
  have "safe (addressed K) (call_session se (self_ptr s) (\<lambda>e. input e p) st)"
    by (rule call_addressed [of "{}" "[]"]) (use inv K posting.kept_input [OF own_env] in \<open>simp_all add: stack_inv_def\<close>)
  then show ?thesis
    using Some by (simp add: stack_receive_def)
next
  case None
  show ?thesis
  proof (cases "flags (header p) = FLAG_SYN")
    case True
    obtain q st1 where c: "create_session se key st = (Some q, st1)" and "stack_ok {} [] st1" and "addressed K st1"
      and at: "\<exists>t. at_pointer q st1 = Some (key, t)"
      using created_at [OF inv, of se key] create_addressed [OF key K, of se] by (metis snd_conv)
    have "safe (addressed K) (call_session se q (\<lambda>e w. input e p
        (listen (w\<lparr>remote_ip := fst key, remote_port := snd key\<rparr>))) st1)"
    proof (rule call_addressed [OF \<open>stack_ok {} [] st1\<close> \<open>addressed K st1\<close>])
      fix k t
      let ?w = "enter_world t (driver st1) (iss_drawn st1)"
      let ?l = "listen (?w\<lparr>remote_ip := fst key, remote_port := snd key\<rparr>)"
      assume "at_pointer q st1 = Some (k, t)" and w: "kept (posting (letter K) k) ?w"
      then have "?w\<lparr>remote_ip := fst key, remote_port := snd key\<rparr> = ?w"
        using at by (auto simp: kept_def posting_def)
      then have "kept (posting (letter K) k) ?l"
        using w base_inv_listen [of ?w] by (simp add: kept_def)
      then show "returns (kept (posting (letter K) k)) (input (session_env k (base_env se)) p ?l)"
        by (rule posting.kept_input [OF own_env])
    qed
    then show ?thesis
      using None True c by (simp add: stack_receive_def)
  next
    case False
    have "parse_datagram (raw_data stray_reset) = Some stray_reset"
      by (rule wire.law_dec_enc) (simp add: stray_reset_def)
    then have "letter K (raw_data stray_reset, key)"
      using key by (simp add: letter_def)
    then show ?thesis
      using False None K by (auto simp: stack_receive_def addressed_def send_packet_sends)
  qed
qed

lemma datagram_addressed:
  assumes inv: "stack_inv st" and K: "addressed K st" and "named_addresses (Se_datagram buf addr) \<subseteq> K"
  shows "safe (addressed K) (stack_datagram se buf addr st)"
proof (cases "on_uv_recv buf addr (driver st)")
  case (Some x)
  obtain cb p a where x: "on_uv_recv buf addr (driver st) = Some (cb, p, a)"
    using Some by (cases x) auto
  then have "cb \<noteq> No_callback" and "a \<in> K"
    using assms(3) by (auto simp: on_uv_recv_def split: option.splits if_splits)
  moreover have "safe (addressed K) (call_session se q (\<lambda>e. input e p) st)" for q
    by (rule call_addressed [of "{}" "[]"]) (use inv K posting.kept_input [OF own_env] in \<open>simp_all add: stack_inv_def\<close>)
  ultimately show ?thesis
    using receive_addressed [OF inv K] x by (cases cb) (simp_all add: stack_datagram_def)
qed (use K in \<open>simp add: stack_datagram_def\<close>)

lemma step_addressed:
  assumes "app_ok se" and "app_posts se" and inv: "stack_inv st" and K: "addressed K st" and "named_addresses ev \<subseteq> K"
  shows "safe (addressed K) (stack_step se ev st)"
proof -
  have event: "safe (addressed K) (call_session se p (\<lambda>e w. bind_res (session_step e ev w) (\<lambda>(_, w). Inr w)) st)" for p ev
    by (rule call_addressed [of "{}" "[]"]) (use inv K posting_event in \<open>simp_all add: stack_inv_def\<close>)
  show ?thesis
  proof (cases ev)
    case (Se_datagram buf addr)
    then show ?thesis
      using datagram_addressed [OF inv K] assms(5) by simp
  next
    case Se_idle
    then show ?thesis
      using idle_addressed [OF assms(1-4)] K by simp
  next
    case (Se_timer p h)
    then show ?thesis
      using event [of p "Ev_timer h"] by (simp only: stack_step.simps)
  next
    case (Se_call p e)
    then show ?thesis
      using event [of p e] by (simp only: stack_step.simps)
  next
    case (Se_create key)
    then show ?thesis
      using create_addressed [of key K st se] assms(5) K by simp
  next
    case Se_listen
    then show ?thesis
      using K by (simp add: stack_listen_def set_on_receive_def addressed_def)
  qed
qed

lemma run_addressed:
  assumes "app_ok se" and "app_posts se" and "\<forall>ev\<in>set evs. named_addresses ev \<subseteq> K" and "stack_inv st \<and> addressed K st"
  shows "safe (\<lambda>st. stack_inv st \<and> addressed K st) (stack_run se evs st)"
  using stack.run_outcome [where ok = "\<lambda>ev. named_addresses ev \<subseteq> K" and good = "\<lambda>st. stack_inv st \<and> addressed K st"
      and E = "\<lambda>err. err = Use_after_free" and evs = evs and s = st and se = se]
    outcome_conj [OF stack_step_keeps [OF assms(1)] step_addressed [OF assms(1,2)]] assms(3,4)
  by (simp add: list_all_iff)

section \<open>Property\<close>

text \<open>
  C13: The stack sends to nobody it was not told about. Whatever happens to a stack, every
  session in its map is under the address it sends to, which a datagram came from or the
  application named; and every datagram it has sent is a well-formed segment, or the reset that
  answers a stray packet, to one of those addresses or to the default address of the
  retransmission of data.
\<close>

theorem stack_sends_to_known_addresses:
  assumes "app_ok se" and "app_posts se" and "stack_run se evs (new_stack ip port) = Inr st"
  shows "(\<forall>key s. map_find key (tcp_sessions st) = Some s \<longrightarrow>
       (remote_ip s, remote_port s) = key \<and> (\<exists>ev\<in>set evs. key \<in> named_addresses ev))
    \<and> (\<forall>x\<in>set (udp_sends (driver st)).
         (\<exists>p. parse_datagram (fst x) = Some p \<and> (well_formed p \<or> p = stray_reset))
         \<and> (snd x = (''127.0.0.1'', 9999) \<or> (\<exists>ev\<in>set evs. snd x \<in> named_addresses ev)))"
proof -
  define K where "K = (\<Union>ev\<in>set evs. named_addresses ev)"
  have "addressed K (new_stack ip port)"
    by (simp add: addressed_def new_stack_def driver_init_def new_driver_def)
  then have "addressed K st"
    using run_addressed [OF assms(1,2), of evs K "new_stack ip port"] new_stack_inv [of ip port] assms(3)
    by (auto simp: K_def)
  then show ?thesis
    unfolding addressed_def settled_def letter_def K_def by blast
qed

lemma example_app_posts: "app_posts example_stack_env"
proof -
  have "returns (kept (posting D peer)) (bind_res (session_step e Ev_read_all w) (\<lambda>(_, w). Inr w))"
    if "env_keeps (kept (posting D peer)) e" and "kept (posting D peer) w" for D peer e w
    by (rule returns_bind [OF posting.kept_step [OF that]]) auto
  then show ?thesis
    unfolding app_posts_def cb_keeps_def example_stack_env_def returns_def by auto
qed

theorem stack_sends_to_known_addresses_witness:
  "\<exists>st. stack_run example_stack_env [Se_create (''10.0.0.2'', 80), Se_call 0 Ev_connect] (new_stack ''0.0.0.0'' 1) = Inr st
    \<and> (\<forall>x\<in>set (udp_sends (driver st)). snd x = (''127.0.0.1'', 9999) \<or> snd x = (''10.0.0.2'', 80))"
proof -
  let ?evs = "[Se_create (''10.0.0.2'', 80), Se_call 0 Ev_connect]"
  obtain st where "stack_run example_stack_env ?evs (new_stack ''0.0.0.0'' 1) = Inr st"
    by (simp add: create_session_def Let_def new_stack_def map_try_emplace_def call_session_def at_pointer_def
        new_session_def set_remote_addr_def)
  from stack_sends_to_known_addresses [OF example_app_ok example_app_posts this] this show ?thesis
    by auto
qed

end
