(* ===== verification/Driver_Memory.thy ===== *)
theory Driver_Memory
  imports Udp_Driver Runs
begin

text \<open>
  The memory that \<open>UdpDriver\<close> shares with libuv (\<open>src/network/UdpDriver.cpp\<close>): the receive
  buffers it allocates on request and deletes when they come back, and the send contexts, which
  live until libuv reports that the datagram is out. libuv is the other side of the protocol:
  its calls are events, and what its documentation promises of them (a buffer comes back once,
  a send is reported once if it was accepted, and not at all otherwise) says which events may
  happen.
\<close>

section \<open>Blocks\<close>

text \<open>
  The heap as far as the driver uses it. \<open>blocks\<close> are allocated and not deleted, with their
  contents; \<open>lent\<close> are the buffers that libuv has not given back, \<open>in_transit\<close> the contexts
  whose completion it has not reported.
\<close>

record driver_heap =
  drv :: udp_driver
  blocks :: "nat \<Rightarrow> u8 list option"
  next_block :: nat
  lent :: "nat set"
  in_transit :: "nat set"

definition new_block :: "u8 list \<Rightarrow> driver_heap \<Rightarrow> nat \<times> driver_heap" where
  "new_block contents h =
     (next_block h, h\<lparr>blocks := (blocks h)(next_block h \<mapsto> contents), next_block := next_block h + 1\<rparr>)"

text \<open>Deleting or reading what is not there, and reading past the end, is undefined in the program.\<close>

definition delete_block :: "nat \<Rightarrow> driver_heap \<Rightarrow> driver_heap result" where
  "delete_block b h =
     (case blocks h b of None \<Rightarrow> Inl Use_after_free | Some _ \<Rightarrow> Inr (h\<lparr>blocks := (blocks h)(b := None)\<rparr>))"

definition read_block :: "nat option \<Rightarrow> nat \<Rightarrow> driver_heap \<Rightarrow> u8 list result" where
  "read_block base n h =
     (case base of
        None \<Rightarrow> Inl Use_after_free
      | Some b \<Rightarrow>
          (case blocks h b of
             None \<Rightarrow> Inl Use_after_free
           | Some contents \<Rightarrow> if n \<le> length contents then Inr (take n contents) else Inl Out_of_range))"

section \<open>The driver's functions\<close>

text \<open>
  What the driver relies on: the values of \<open>rand()\<close>, the return value of the \<open>n\<close>-th call of
  \<open>uv_udp_send\<close>, and the packets that the receive callback sends in answer to a packet.
\<close>

record driver_env =
  rand_draw :: "nat \<Rightarrow> rat"
  send_code :: "nat \<Rightarrow> int"
  answers :: "receiver \<Rightarrow> tcp_packet \<Rightarrow> sock_addr \<Rightarrow> udp_driver \<Rightarrow> (tcp_packet \<times> sock_addr) list"

text \<open>\<open>send_packet\<close> with the life of its context: deleted at once when the call fails, else left to libuv.\<close>

definition send_packet_ctx :: "driver_env \<Rightarrow> tcp_packet \<Rightarrow> sock_addr \<Rightarrow> driver_heap \<Rightarrow> driver_heap result" where
  "send_packet_ctx de p dest_addr h =
     (let d = send_packet (rand_draw de) p dest_addr (drv h)
      in if rand_draw de (rand_calls (drv h)) < loss_rate (drv h) then Inr (h\<lparr>drv := d\<rparr>)
         else let (ctx, h) = new_block (raw_data p) h;
                  r = send_code de (length (udp_sends (drv h)));
                  h = h\<lparr>drv := d\<rparr>
              in if r < 0 then delete_block ctx h else Inr (h\<lparr>in_transit := insert ctx (in_transit h)\<rparr>))"

fun send_all_ctx :: "driver_env \<Rightarrow> (tcp_packet \<times> sock_addr) list \<Rightarrow> driver_heap \<Rightarrow> driver_heap result" where
  "send_all_ctx de [] h = Inr h"
| "send_all_ctx de ((p, dest) # rest) h = bind_res (send_packet_ctx de p dest h) (send_all_ctx de rest)"

text \<open>The completion callback of \<open>uv_udp_send\<close>: the status is only logged.\<close>

definition on_sent :: "nat \<Rightarrow> int \<Rightarrow> driver_heap \<Rightarrow> driver_heap result" where
  "on_sent ctx status h = delete_block ctx h"

text \<open>\<open>new char[suggested_size]\<close> holds indeterminate bytes, here those of the argument.\<close>

definition on_uv_alloc :: "u8 list \<Rightarrow> driver_heap \<Rightarrow> nat \<times> driver_heap" where
  "on_uv_alloc garbage h = new_block garbage h"

text \<open>\<open>on_uv_recv\<close> from the buffer: what is read of it, the callback, and the deletion.\<close>

definition on_uv_recv_buf ::
  "driver_env \<Rightarrow> nat option \<Rightarrow> int \<Rightarrow> sock_addr option \<Rightarrow> driver_heap \<Rightarrow> driver_heap result" where
  "on_uv_recv_buf de base nread addr h =
     bind_res
       (case addr of
          None \<Rightarrow> Inr h
        | Some a \<Rightarrow>
            if nread > 0 \<and> on_receive_callback (drv h) \<noteq> No_callback \<and> nread \<ge> int header_size
            then bind_res (read_block base (nat nread) h) (\<lambda>bs.
                   let packet = \<lparr>header = header_of_bytes bs, options = [], payload = drop header_size bs\<rparr>
                   in send_all_ctx de (answers de (on_receive_callback (drv h)) packet a (drv h)) h)
            else Inr h)
       (\<lambda>h. case base of None \<Rightarrow> Inr h | Some b \<Rightarrow> delete_block b h)"

section \<open>The protocol with libuv\<close>

text \<open>
  libuv asks for a buffer; gives it back, after writing \<open>data\<close> to its front, or reports an error
  with none; reports that a datagram is out; and somebody sends a packet.
\<close>

datatype driver_event =
    De_alloc "u8 list"
  | De_recv "nat option" "u8 list" int "sock_addr option"
  | De_send tcp_packet sock_addr
  | De_sent nat int

definition fill :: "nat \<Rightarrow> u8 list \<Rightarrow> driver_heap \<Rightarrow> driver_heap" where
  "fill b data h = h\<lparr>blocks := (blocks h)(b := map_option (\<lambda>old. data @ drop (length data) old) (blocks h b))\<rparr>"

fun driver_step :: "driver_env \<Rightarrow> driver_event \<Rightarrow> driver_heap \<Rightarrow> driver_heap result" where
  "driver_step de (De_alloc garbage) h =
     (let (b, h) = on_uv_alloc garbage h in Inr (h\<lparr>lent := insert b (lent h)\<rparr>))"
| "driver_step de (De_recv (Some b) data nread addr) h =
     on_uv_recv_buf de (Some b) nread addr (fill b data (h\<lparr>lent := lent h - {b}\<rparr>))"
| "driver_step de (De_recv None data nread addr) h = on_uv_recv_buf de None nread addr h"
| "driver_step de (De_send p dest) h = send_packet_ctx de p dest h"
| "driver_step de (De_sent ctx status) h = on_sent ctx status (h\<lparr>in_transit := in_transit h - {ctx}\<rparr>)"

text \<open>What libuv documents of these calls.\<close>

fun uv_may :: "driver_event \<Rightarrow> driver_heap \<Rightarrow> bool" where
  "uv_may (De_recv (Some b) data nread addr) h \<longleftrightarrow> b \<in> lent h \<and> nread \<le> int (length data)
     \<and> (\<exists>old. blocks h b = Some old \<and> length data \<le> length old)"
| "uv_may (De_recv None data nread addr) h \<longleftrightarrow> nread \<le> 0"
| "uv_may (De_sent ctx status) h \<longleftrightarrow> ctx \<in> in_transit h"
| "uv_may _ h \<longleftrightarrow> True"

fun driver_run :: "driver_env \<Rightarrow> driver_event list \<Rightarrow> driver_heap \<Rightarrow> driver_heap result" where
  "driver_run de [] h = Inr h"
| "driver_run de (ev # evs) h = bind_res (driver_step de ev h) (driver_run de evs)"

text \<open>Every event of the run may happen when its turn comes.\<close>

fun uv_run :: "driver_env \<Rightarrow> driver_event list \<Rightarrow> driver_heap \<Rightarrow> bool" where
  "uv_run de [] h \<longleftrightarrow> True"
| "uv_run de (ev # evs) h \<longleftrightarrow> uv_may ev h \<and> (case driver_step de ev h of Inl _ \<Rightarrow> True | Inr h \<Rightarrow> uv_run de evs h)"

definition new_heap :: "udp_driver \<Rightarrow> driver_heap" where
  "new_heap d = \<lparr>drv = d, blocks = (\<lambda>_. None), next_block = 0, lent = {}, in_transit = {}\<rparr>"

section \<open>Ownership\<close>

text \<open>What is allocated is held by libuv, as a buffer or as a context, and by nobody else.\<close>

definition owned :: "nat set \<Rightarrow> driver_heap \<Rightarrow> bool" where
  "owned mine h \<longleftrightarrow> dom (blocks h) = mine \<union> lent h \<union> in_transit h \<and> lent h \<inter> in_transit h = {}
     \<and> mine \<inter> (lent h \<union> in_transit h) = {} \<and> (\<forall>b\<in>dom (blocks h). b < next_block h)"

lemma owned_delete:
  assumes "owned (insert b mine) h" and "b \<notin> mine"
  shows "returns (owned mine) (delete_block b h)"
proof -
  have "b \<in> dom (blocks h)"
    using assms(1) unfolding owned_def by blast
  then obtain c where c: "blocks h b = Some c"
    by blast
  have "owned mine (h\<lparr>blocks := (blocks h)(b := None)\<rparr>)"
    using assms by (auto simp: owned_def)
  then show ?thesis
    using c by (simp add: delete_block_def)
qed

lemma owned_new:
  assumes "owned mine h"
  shows "owned (insert (next_block h) mine) (snd (new_block c h))" and "next_block h \<notin> mine"
  using assms by (auto simp: owned_def new_block_def intro: less_SucI)

lemma owned_send: "owned mine h \<Longrightarrow> returns (owned mine) (send_packet_ctx de p dest h)"
proof -
  assume h: "owned mine h"
  let ?h = "(snd (new_block (raw_data p) h))\<lparr>drv := send_packet (rand_draw de) p dest (drv h)\<rparr>"
  have "owned (insert (next_block h) mine) ?h" "next_block h \<notin> mine"
    using owned_new(1) [OF h, of "raw_data p"] owned_new(2) [OF h] by (simp_all add: owned_def)
  then have "returns (owned mine) (delete_block (next_block h) ?h)"
    and "owned mine (?h\<lparr>in_transit := insert (next_block h) (in_transit ?h)\<rparr>)"
    using owned_delete h by (blast, auto simp: owned_def new_block_def)
  then show ?thesis
    using h by (simp add: send_packet_ctx_def Let_def new_block_def) (simp add: owned_def)
qed

lemma owned_send_all: "owned mine h \<Longrightarrow> returns (owned mine) (send_all_ctx de xs h)"
proof (induction xs arbitrary: h)
  case (Cons x xs)
  then show ?case
    by (cases x) (auto intro: returns_bind [OF owned_send])
qed simp

lemma owned_recv:
  assumes "owned mine h" and "nread > 0 \<longrightarrow> (\<exists>bs. read_block base (nat nread) h = Inr bs)"
    and "\<And>b. base = Some b \<Longrightarrow> b \<in> mine"
  shows "returns (owned (case base of None \<Rightarrow> mine | Some b \<Rightarrow> mine - {b})) (on_uv_recv_buf de base nread addr h)"
  unfolding on_uv_recv_buf_def
proof (rule returns_bind)
  show "returns (owned mine) (case addr of None \<Rightarrow> Inr h
      | Some a \<Rightarrow> if nread > 0 \<and> on_receive_callback (drv h) \<noteq> No_callback \<and> nread \<ge> int header_size
          then bind_res (read_block base (nat nread) h) (\<lambda>bs.
                 let packet = \<lparr>header = header_of_bytes bs, options = [], payload = drop header_size bs\<rparr>
                 in send_all_ctx de (answers de (on_receive_callback (drv h)) packet a (drv h)) h)
          else Inr h)"
    using assms(1,2) owned_send_all by (auto simp: Let_def split: option.split)
next
  fix h'
  assume h': "owned mine h'"
  show "returns (owned (case base of None \<Rightarrow> mine | Some b \<Rightarrow> mine - {b}))
      (case base of None \<Rightarrow> Inr h' | Some b \<Rightarrow> delete_block b h')"
  proof (cases base)
    case (Some b)
    then have "insert b (mine - {b}) = mine"
      using assms(3) by auto
    then show ?thesis
      using Some h' owned_delete [of b "mine - {b}" h'] by simp
  qed (use h' in simp)
qed

lemma owned_step:
  assumes "owned {} h" and "uv_may ev h"
  shows "returns (owned {}) (driver_step de ev h)"
proof (cases ev)
  case (De_alloc garbage)
  then show ?thesis
    using assms(1) by (auto simp: on_uv_alloc_def new_block_def owned_def intro: less_SucI)
next
  case (De_send p dest)
  then show ?thesis
    using owned_send [OF assms(1)] by simp
next
  case (De_sent ctx status)
  then have "owned {ctx} (h\<lparr>in_transit := in_transit h - {ctx}\<rparr>)"
    using assms by (auto simp: owned_def)
  then show ?thesis
    using De_sent owned_delete [of ctx "{}"] by (simp add: on_sent_def)
next
  case (De_recv base data nread addr)
  show ?thesis
  proof (cases base)
    case None
    then show ?thesis
      using De_recv assms owned_recv [of "{}" h nread None de addr] by simp
  next
    case (Some b)
    let ?h = "fill b data (h\<lparr>lent := lent h - {b}\<rparr>)"
    have ev: "b \<in> lent h" "nread \<le> int (length data)" "\<exists>old. blocks h b = Some old \<and> length data \<le> length old"
      using De_recv Some assms(2) by simp_all
    then have "owned {b} ?h"
      using assms(1) by (auto simp: owned_def fill_def)
    moreover have "nread > 0 \<longrightarrow> (\<exists>bs. read_block (Some b) (nat nread) ?h = Inr bs)"
      using ev by (auto simp: read_block_def fill_def)
    ultimately show ?thesis
      using De_recv Some owned_recv [of "{b}" ?h nread "Some b" de addr] by simp
  qed
qed

lemma owned_run: "owned {} h \<Longrightarrow> uv_run de evs h \<Longrightarrow> returns (owned {}) (driver_run de evs h)"
proof (induction evs arbitrary: h)
  case (Cons ev evs)
  then obtain h' where "driver_step de ev h = Inr h'" "owned {} h'"
    using owned_step [OF Cons.prems(1), of ev de] by (auto simp: returns_def)
  then show ?case
    using Cons by simp
qed simp

section \<open>The driver without its memory\<close>

text \<open>The same events on the driver of \<open>Udp_Driver\<close>.\<close>

definition plain_answers :: "driver_env \<Rightarrow> (tcp_packet \<times> sock_addr) list \<Rightarrow> udp_driver \<Rightarrow> udp_driver" where
  "plain_answers de xs d = fold (\<lambda>(p, dest). send_packet (rand_draw de) p dest) xs d"

fun plain_step :: "driver_env \<Rightarrow> driver_event \<Rightarrow> udp_driver \<Rightarrow> udp_driver" where
  "plain_step de (De_send p dest) d = send_packet (rand_draw de) p dest d"
| "plain_step de (De_recv (Some b) data nread addr) d =
     (case on_uv_recv (take (nat nread) data) addr d of
        None \<Rightarrow> d
      | Some (cb, packet, a) \<Rightarrow> plain_answers de (answers de cb packet a d) d)"
| "plain_step de _ d = d"

lemma drv_delete: "delete_block b h = Inr h' \<Longrightarrow> drv h' = drv h"
  by (auto simp: delete_block_def split: option.splits)

lemma drv_send: "send_packet_ctx de p dest h = Inr h' \<Longrightarrow> drv h' = send_packet (rand_draw de) p dest (drv h)"
  by (auto simp: send_packet_ctx_def Let_def new_block_def split: if_splits dest: drv_delete)

lemma drv_send_all: "send_all_ctx de xs h = Inr h' \<Longrightarrow> drv h' = plain_answers de xs (drv h)"
  by (induction xs arbitrary: h) (auto simp: plain_answers_def drv_send)

lemma drv_recv:
  assumes "on_uv_recv_buf de (Some b) nread addr h = Inr h'" and "blocks h b = Some contents" and "nread \<le> int (length contents)"
  shows "drv h' = (case on_uv_recv (take (nat nread) contents) addr (drv h) of
      None \<Rightarrow> drv h | Some (cb, packet, a) \<Rightarrow> plain_answers de (answers de cb packet a (drv h)) (drv h))"
proof (cases "nread > 0 \<and> on_receive_callback (drv h) \<noteq> No_callback \<and> nread \<ge> int header_size")
  case True
  then have "read_block (Some b) (nat nread) h = Inr (take (nat nread) contents)" and "take (nat nread) contents \<noteq> []"
    and "header_size \<le> length (take (nat nread) contents)"
    using assms(2,3) by (auto simp: read_block_def)
  then show ?thesis
    using True assms(1)
    by (auto simp: on_uv_recv_buf_def on_uv_recv_def parse_datagram_def Let_def drv_send_all split: option.splits dest: drv_delete)
next
  case False
  then have "on_uv_recv (take (nat nread) contents) addr (drv h) = None"
    using assms(3) by (auto simp: on_uv_recv_def parse_datagram_def split: option.split)
  then show ?thesis
    using False assms(1) by (auto simp: on_uv_recv_buf_def split: option.splits dest: drv_delete)
qed

lemma drv_step:
  assumes "uv_may ev h" and "driver_step de ev h = Inr h'"
  shows "drv h' = plain_step de ev (drv h)"
proof (cases ev)
  case (De_recv base data nread addr)
  show ?thesis
  proof (cases base)
    case None
    then show ?thesis
      using De_recv assms by (auto simp: on_uv_recv_buf_def split: option.splits)
  next
    case (Some b)
    let ?h = "fill b data (h\<lparr>lent := lent h - {b}\<rparr>)"
    obtain old where old: "blocks h b = Some old" and n: "nread \<le> int (length data)"
      using De_recv Some assms(1) by auto
    have d: "drv ?h = drv h"
      by (simp add: fill_def)
    have "blocks ?h b = Some (data @ drop (length data) old)"
      using old by (simp add: fill_def)
    moreover have "take (nat nread) (data @ drop (length data) old) = take (nat nread) data"
      using n by simp
    ultimately show ?thesis
      using De_recv Some assms(2) n drv_recv [of de b nread addr ?h h' "data @ drop (length data) old", unfolded d] by simp
  qed
next
  case (De_alloc garbage)
  then show ?thesis
    using assms(2) by (auto simp: on_uv_alloc_def new_block_def)
next
  case (De_sent ctx status)
  then show ?thesis
    using assms(2) by (auto simp: on_sent_def dest: drv_delete)
qed (use assms(2) drv_send in simp)

lemma drv_run: "uv_run de evs h \<Longrightarrow> driver_run de evs h = Inr h' \<Longrightarrow> drv h' = fold (plain_step de) evs (drv h)"
proof (induction evs arbitrary: h)
  case (Cons ev evs)
  obtain h1 where h1: "driver_step de ev h = Inr h1" "driver_run de evs h1 = Inr h'"
    using Cons.prems(2) by auto
  then show ?case
    using Cons.IH [of h1] Cons.prems(1) drv_step [of ev h de h1] by simp
qed simp

section \<open>Property\<close>

text \<open>
  C21: The driver's memory is safe. As long as libuv keeps its documented protocol, whatever the
  order of its calls: every buffer and every send context is deleted exactly once, nothing is
  read beyond the bytes received or after its deletion, and at any time the blocks that are
  allocated are those that libuv holds, so nothing leaks. Seen without its memory the driver
  does what the model of \<open>Udp_Driver\<close> does.
\<close>

theorem driver_memory_safe:
  assumes "uv_run de evs (new_heap d)"
  shows "\<exists>h. driver_run de evs (new_heap d) = Inr h
    \<and> dom (blocks h) = lent h \<union> in_transit h \<and> lent h \<inter> in_transit h = {}
    \<and> drv h = fold (plain_step de) evs d"
proof -
  have "owned {} (new_heap d)"
    by (simp add: owned_def new_heap_def)
  from owned_run [OF this assms] obtain h where h: "driver_run de evs (new_heap d) = Inr h" "owned {} h"
    by (auto simp: returns_def)
  then show ?thesis
    using drv_run [OF assms h(1)] by (auto simp: owned_def new_heap_def)
qed

definition example_driver_env :: driver_env where
  "example_driver_env = \<lparr>rand_draw = \<lambda>_. 1, send_code = \<lambda>n. if n = 0 then 0 else -1, answers = \<lambda>_ p a _. [(p, a), (p, a)]\<rparr>"

theorem driver_memory_safe_witness:
  "let evs = [De_alloc (replicate 32 0), De_recv (Some 0) (replicate 20 1) 20 (Some (''10.0.0.2'', 80)), De_sent 1 0];
       d = new_driver\<lparr>on_receive_callback := Stack_listen\<rparr>
   in \<exists>h. driver_run example_driver_env evs (new_heap d) = Inr h \<and> dom (blocks h) = lent h \<union> in_transit h"
proof -
  let ?d = "new_driver\<lparr>on_receive_callback := Stack_listen\<rparr>"
  have "uv_run example_driver_env [De_alloc (replicate 32 0), De_recv (Some 0) (replicate 20 1) 20 (Some (''10.0.0.2'', 80)), De_sent 1 0]
      (new_heap ?d)"
    by (simp add: new_heap_def on_uv_alloc_def new_block_def on_uv_recv_buf_def read_block_def fill_def Let_def
        example_driver_env_def send_packet_ctx_def send_packet_def delete_block_def new_driver_def header_size_def on_sent_def)
  from driver_memory_safe [OF this] show ?thesis
    unfolding Let_def by blast
qed

end
