(* ===== verification/Initial_Seq.thy ===== *)
theory Initial_Seq
  imports Prelude
begin

text \<open>
  The initial sequence numbers (\<open>include/myutcp/util/gen_iss.h\<close>): one \<open>std::mt19937\<close> for the
  whole program, seeded once from \<open>std::random_device\<close>. The engine is the one the C++ standard
  defines; the value of the device is a parameter. The distribution covers the whole range of
  the engine, so it passes the engine's values on.
\<close>

section \<open>The engine\<close>

text \<open>The state: the last 624 values of the recurrence, the oldest first.\<close>

type_synonym mt_state = "u32 list"

fun mt_init :: "nat \<Rightarrow> nat \<Rightarrow> u32 \<Rightarrow> mt_state" where
  "mt_init 0 i x = []"
| "mt_init (Suc n) i x = x # mt_init n (i + 1) (1812433253 * (x XOR drop_bit 30 x) + of_nat (i + 1))"

definition mt_seed :: "u32 \<Rightarrow> mt_state" where
  "mt_seed seed = mt_init 624 0 seed"

definition mt_twist :: "mt_state \<Rightarrow> u32" where
  "mt_twist xs =
     (let y = (xs ! 0 AND 0x80000000) OR (xs ! 1 AND 0x7FFFFFFF)
      in xs ! 397 XOR drop_bit 1 y XOR (if y AND 1 \<noteq> 0 then 0x9908B0DF else 0))"

definition mt_step :: "mt_state \<Rightarrow> mt_state" where
  "mt_step xs = tl xs @ [mt_twist xs]"

definition mt_temper :: "u32 \<Rightarrow> u32" where
  "mt_temper x =
     (let z = x XOR drop_bit 11 x;
          z = z XOR (push_bit 7 z AND 0x9D2C5680);
          z = z XOR (push_bit 15 z AND 0xEFC60000)
      in z XOR drop_bit 18 z)"

section \<open>The numbers\<close>

definition generate_initial_seq :: "mt_state \<Rightarrow> u32 \<times> mt_state" where
  "generate_initial_seq gen = (let gen = mt_step gen in (mt_temper (last gen), gen))"

text \<open>The \<open>k\<close>-th number that the program draws, counted from zero.\<close>

definition initial_seq :: "u32 \<Rightarrow> nat \<Rightarrow> u32" where
  "initial_seq rd k = fst (generate_initial_seq (((snd \<circ> generate_initial_seq) ^^ k) (mt_seed rd)))"

section \<open>What the numbers give away\<close>

lemma length_mt_init [simp]: "length (mt_init n i x) = n"
  by (induction n i x rule: mt_init.induct) simp_all

lemma length_mt_step [simp]: "xs \<noteq> [] \<Longrightarrow> length (mt_step xs) = length xs"
  by (cases xs) (simp_all add: mt_step_def)

text \<open>A word that is its own shift is zero.\<close>

lemma shift_right_zero:
  assumes "d = drop_bit k (d :: u32)" and "0 < k"
  shows "d = 0"
proof -
  have "d = drop_bit (k * n) d" for n
  proof (induction n)
    case (Suc n)
    have "d = drop_bit k (drop_bit (k * n) d)"
      using Suc assms(1) by simp
    then show ?case
      by (simp add: add.commute)
  qed simp
  then have "d = drop_bit (k * 32) d" .
  moreover have "drop_bit (k * 32) d = 0"
    using assms(2) by (intro bit_word_eqI) (auto simp: bit_simps dest: bit_imp_le_length)
  ultimately show ?thesis
    by simp
qed

lemma shift_left_zero:
  assumes d: "d = push_bit k (d :: u32) AND m" and "0 < k"
  shows "d = 0"
proof -
  have "\<not> bit d n" for n
  proof (induction n rule: less_induct)
    case (less n)
    have "bit d n = bit (push_bit k d AND m) n"
      using d by simp
    then show ?case
      using less [of "n - k"] assms(2) by (auto simp: bit_simps)
  qed
  then show ?thesis
    by (intro bit_word_eqI) simp
qed

lemma xor_zero_eq: "x XOR y = 0 \<Longrightarrow> x = (y :: u32)"
proof (rule bit_word_eqI)
  fix n
  assume "x XOR y = 0"
  then have "\<not> bit (x XOR y) n"
    by simp
  then show "bit x n = bit y n"
    by (simp add: bit_simps)
qed

lemma xor_shift_right: "x XOR drop_bit k x = y XOR drop_bit k y \<Longrightarrow> 0 < k \<Longrightarrow> x = (y :: u32)"
proof -
  assume eq: "x XOR drop_bit k x = y XOR drop_bit k y" and k: "0 < k"
  have "x XOR y = drop_bit k (x XOR y)"
  proof (rule bit_word_eqI)
    fix n
    have "bit (x XOR drop_bit k x) n = bit (y XOR drop_bit k y) n"
      using eq by simp
    then show "bit (x XOR y) n = bit (drop_bit k (x XOR y)) n"
      by (auto simp: bit_simps)
  qed
  then have "x XOR y = 0"
    using k by (rule shift_right_zero)
  then show "x = y"
    by (rule xor_zero_eq)
qed

lemma xor_shift_left: "x XOR (push_bit k x AND m) = y XOR (push_bit k y AND m) \<Longrightarrow> 0 < k \<Longrightarrow> x = (y :: u32)"
proof -
  assume eq: "x XOR (push_bit k x AND m) = y XOR (push_bit k y AND m)" and k: "0 < k"
  have "x XOR y = push_bit k (x XOR y) AND m"
  proof (rule bit_word_eqI)
    fix n
    have "bit (x XOR (push_bit k x AND m)) n = bit (y XOR (push_bit k y AND m)) n"
      using eq by simp
    then show "bit (x XOR y) n = bit (push_bit k (x XOR y) AND m) n"
      by (auto simp: bit_simps)
  qed
  then have "x XOR y = 0"
    using k by (rule shift_left_zero)
  then show "x = y"
    by (rule xor_zero_eq)
qed

lemma mt_temper_inject: "mt_temper x = mt_temper y \<Longrightarrow> x = y"
  unfolding mt_temper_def Let_def
  by (drule xor_shift_right, simp, drule xor_shift_left, simp, drule xor_shift_left, simp, drule xor_shift_right, simp)

text \<open>After as many steps as the state has words, the state is what was drawn.\<close>

definition drawn :: "mt_state \<Rightarrow> nat \<Rightarrow> u32" where
  "drawn xs k = last ((mt_step ^^ Suc k) xs)"

lemma mt_steps: "k \<le> length xs \<Longrightarrow> (mt_step ^^ k) xs = drop k xs @ map (drawn xs) [0..<k]"
proof (induction k)
  case (Suc k)
  have step: "(mt_step ^^ Suc k) xs = tl ((mt_step ^^ k) xs) @ [mt_twist ((mt_step ^^ k) xs)]"
    by (simp add: mt_step_def [of "(mt_step ^^ k) xs"])
  then have "drawn xs k = mt_twist ((mt_step ^^ k) xs)"
    by (simp only: drawn_def last_snoc)
  moreover have "drop k xs \<noteq> []" "(mt_step ^^ k) xs = drop k xs @ map (drawn xs) [0..<k]"
    using Suc by simp_all
  ultimately show ?case
    unfolding step by (simp add: drop_Suc tl_drop)
qed simp

lemma length_mt_steps: "length ((mt_step ^^ n) (mt_seed s)) = 624"
proof (induction n)
  case (Suc n)
  then have "(mt_step ^^ n) (mt_seed s) \<noteq> []"
    by auto
  then show ?case
    using Suc by simp
qed (simp add: mt_seed_def del: mt_init.simps)

lemma initial_seq_drawn: "initial_seq rd (i + k) = mt_temper (drawn ((mt_step ^^ i) (mt_seed rd)) k)"
proof -
  have "snd \<circ> generate_initial_seq = mt_step"
    by (rule ext) (simp add: generate_initial_seq_def Let_def)
  moreover have "(mt_step ^^ (i + k)) z = (mt_step ^^ k) ((mt_step ^^ i) z)" for z
    by (simp only: add.commute [of i] funpow_add comp_apply)
  ultimately show ?thesis
    by (simp add: initial_seq_def generate_initial_seq_def Let_def drawn_def)
qed

section \<open>Prediction\<close>

text \<open>
  The initial sequence numbers can be predicted. Whatever the random device gave, 624
  successive numbers determine all numbers that follow: a generator that agrees with the
  program's on that many successive draws agrees with it for ever after. A peer that opens
  that many connections in a row, and reads the numbers off the answers, knows those of every
  later connection.
\<close>

lemma initial_numbers_predictable:
  assumes "\<And>k. k < 624 \<Longrightarrow> initial_seq a (i + k) = initial_seq b (j + k)"
  shows "initial_seq a (i + k) = initial_seq b (j + k)"
proof -
  define N :: nat where "N = 624"
  let ?x = "(mt_step ^^ i) (mt_seed a)" and ?y = "(mt_step ^^ j) (mt_seed b)"
  have len: "length ?x = N" "length ?y = N"
    unfolding N_def by (rule length_mt_steps)+
  have same: "drawn ?x n = drawn ?y n" if "n < N" for n
    using assms [of n] that unfolding initial_seq_drawn N_def by (blast intro: mt_temper_inject)
  then have "map (drawn ?x) [0..<N] = map (drawn ?y) [0..<N]"
    by (intro map_cong refl) simp
  then have state: "(mt_step ^^ N) ?x = (mt_step ^^ N) ?y"
    using mt_steps [of N ?x] mt_steps [of N ?y] len by (simp only: le_refl drop_all append_Nil)
  show ?thesis
  proof (cases "k < N")
    case False
    then obtain n where "k = N + n"
      by (metis le_add_diff_inverse not_less)
    then have "Suc k = Suc n + N"
      by simp
    then have "(mt_step ^^ Suc k) z = (mt_step ^^ Suc n) ((mt_step ^^ N) z)" for z
      by (simp only: funpow_add comp_apply)
    then show ?thesis
      unfolding initial_seq_drawn drawn_def using state by (simp only:)
  next
    case True
    then show ?thesis
      unfolding N_def by (rule assms)
  qed
qed

end
