(* ===== verification/Early_Data.thy ===== *)
theory Early_Data
  imports Data_Losses
begin

text \<open>
  Data written before the connection is up. A session that has sent its SYN queues what it is
  given; the SYN+ACK of the peer is acknowledged, and the first window of the queue follows at
  once.
\<close>

definition early :: "env \<Rightarrow> u32 \<Rightarrow> u8 list \<Rightarrow> world \<Rightarrow> bool" where
  "early e isn data w \<longleftrightarrow> base_inv w \<and> state w = SYN_SENT \<and> ring_contents (send_buffer w) = data
     \<and> send_unack (swnd w) = isn \<and> send_next (swnd w) = isn + 1 \<and> reliable e (udp w) \<and> dup_ack_count w = 0"

lemma send_early:
  assumes w: "syn_out e SYN_SENT isn w" and dups: "dup_ack_count w = 0" and data: "data \<noteq> []" "length data \<le> 1024"
  shows "send e data w = Inr (length data, queued data w)" and "early e isn data (queued data w)"
    and "meters (queued data w) = meters w"
proof -
  have base: "base_inv w" and empty: "ring_contents (send_buffer w) = []"
    using w by (simp_all add: syn_out_def ring_contents_def)
  have qb: "queue_bytes data w = data"
    using w data by (simp add: queue_bytes_def syn_out_def base_inv_def base_ok_def)
  have "try_send_data (queued data w) = []"
    using w by (simp add: try_send_data_def Let_def queued_def syn_out_def sends_data_def)
  then show "send e data w = Inr (length data, queued data w)"
    using data qb by (simp add: send_eq [OF base])
  have "ring_contents (send_buffer (queued data w)) = data"
    using queued_contents [OF base, of data] empty qb by simp
  then show "early e isn data (queued data w)"
    using w dups base_inv_queued [OF base, of data] by (simp add: syn_out_def early_def) (simp add: queued_def)
  show "meters (queued data w) = meters w"
    by (simp add: meters_def queued_def)
qed

lemma input_syn_sent_data:
  assumes w: "early e isn data w" and cb: "on_established_cb e = None"
    and p: "seg_is p seq (isn + 1) (FLAG_SYN OR FLAG_ACK) []"
  shows "\<exists>v u. input e p w = Inr u \<and> sends w v (isn + 1) (seq + 1) FLAG_ACK [] \<and> place v = place w
    \<and> flying e (isn + 1) (seq + 1) data u \<and> cwnd u = cwnd w \<and> ssthresh u = ssthresh w \<and> place u = place w
    \<and> (take (cwnd w) data \<noteq> [] \<longrightarrow> sends v u (isn + 1) (seq + 1) FLAG_ACK (take (cwnd w) data)
         \<and> (\<exists>q. waiting e q default_peer 0 u u \<and> seg_is q (isn + 1) (seq + 1) FLAG_ACK (take (cwnd w) data)))"
proof -
  let ?w = "w\<lparr>peer_usable_window_size := ucast (ntohs (window_size (header p)))\<rparr>"
  let ?a = "?w\<lparr>rwnd := (rwnd w)\<lparr>recv_next := seq + 1\<rparr>, swnd := (swnd w)\<lparr>send_unack := isn + 1\<rparr>,
      tmgr := stop_timer isn (tmgr w)\<rparr>"
  let ?v = "transition_to ESTABLISHED (send_pure_ack e (seq + 1) ?a)"
  let ?u = "send_payload_packet e (try_send_data ?v) FLAG_ACK ?v"
  have f: "base_inv w" "state w = SYN_SENT" "send_unack (swnd w) = isn" "send_next (swnd w) = isn + 1" "reliable e (udp w)"
    "dup_ack_count w = 0" "ring_contents (send_buffer w) = data"
    using w by (simp_all add: early_def)
  have "base_inv (w\<lparr>tmgr := stop_timer isn (tmgr w)\<rparr>)"
    using f(1) by (rule base_inv_stop)
  then have "base_inv ?a"
    by (simp add: base_inv_def)
  then have v: "aloft e (isn + 1) (seq + 1) data 0 ?v"
    using f by (simp add: aloft_def) (simp add: transition_to_def send_pure_ack_def Let_def)
  have "ntohl (seq_num (header p)) = seq" "ntohl (ack_num (header p)) = isn + 1" "verify_checksum p"
    using p by (simp_all add: seg_is_def)
  then have "input e p w = handle_try_send e ?v"
    using f cb by (simp add: input_accepted handle_syn_sent_def Let_def seg_is_flag [OF p] flag_values call_if_set_def)
  then have "input e p w = Inr ?u"
    using v by (simp add: handle_try_send_eq aloft_def)
  moreover have "sends w (send_pure_ack e (seq + 1) ?a) (isn + 1) (seq + 1) FLAG_ACK []"
    using sends_pure_ack [of e ?a w "seq + 1"] f by simp
  then have "sends w ?v (isn + 1) (seq + 1) FLAG_ACK []"
    by (simp add: sends_def transition_to_def send_pure_ack_def Let_def)
  moreover have same: "cwnd ?v = cwnd w" "ssthresh ?v = ssthresh w"
    by (simp_all add: cwnd_def transition_to_def send_pure_ack_def Let_def)
  moreover note fill_window [OF v refl, unfolded same]
  moreover have "take (min (cwnd w) (length data)) data = take (cwnd w) data"
    by (simp add: min_def)
  then have "\<exists>q. waiting e q default_peer 0 ?u ?u \<and> seg_is q (isn + 1) (seq + 1) FLAG_ACK (take (cwnd w) data)" if "take (cwnd w) data \<noteq> []"
    using first_waits [OF v, unfolded same] that by auto
  moreover have "place ?v = place w" "place ?u = place w"
    by simp_all
  ultimately show ?thesis
    by (intro exI [of _ ?v] exI [of _ ?u]) blast
qed

end
