(* ===== verification/Programs.thy ===== *)
theory Programs
  imports Stack_Transfer Early_Data
begin

text \<open>
  The two programs of the repository, \<open>test/client_instance.cpp\<close> and
  \<open>test/server_instance.cpp\<close>: each a \<open>main\<close> over one stack, with what its lambdas capture.
  Both run on one host; a datagram goes to the program whose socket is bound to the address
  it was sent to.
\<close>

section \<open>The client\<close>

text \<open>
  The stack, and the timer on the stack's loop whose \<open>data\<close> is the raw pointer to the session.
  The timer does not repeat.
\<close>

record client_program =
  client_stack :: stack
  delay_data :: nat
  delay_active :: bool

definition client_addr :: sock_addr where
  "client_addr = (''127.0.0.1'', 9999)"

definition server_addr :: sock_addr where
  "server_addr = (''127.0.0.1'', 10000)"

definition message :: "u8 list" where
  "message = map (\<lambda>c. of_nat (of_char c)) ''Hello, Server!''"

definition client_main :: "stack_env \<Rightarrow> client_program result" where
  "client_main se =
     (let client = new_stack (fst client_addr) (snd client_addr)
      in (case create_session se server_addr client of
            (None, client) \<Rightarrow> Inl Use_after_free
          | (Some session, client) \<Rightarrow>
              bind_res (call_session se session (\<lambda>e w. Inr (connect e w)) client) (\<lambda>client.
              bind_res (call_session se session (\<lambda>e w. bind_res (send e message w) (\<lambda>(_, w). Inr w)) client) (\<lambda>client.
              Inr \<lparr>client_stack = client, delay_data = session, delay_active = True\<rparr>))))"

text \<open>The lambda of the timer: the session is closed through the pointer, wherever it points by then.\<close>

definition delay_expired :: "stack_env \<Rightarrow> client_program \<Rightarrow> client_program result" where
  "delay_expired se cp =
     (if \<not> delay_active cp then Inr cp
      else bind_res (call_session se (delay_data cp) close (client_stack cp)) (\<lambda>st.
             Inr (cp\<lparr>client_stack := st, delay_active := False\<rparr>)))"

section \<open>The server\<close>

text \<open>The stack, and the buffer that the application logic captures by reference.\<close>

record server_program =
  server_stack :: stack
  global_buffer :: "u8 list"

definition server_main :: server_program where
  "server_main =
     \<lparr>server_stack = stack_listen (new_stack (fst server_addr) (snd server_addr)), global_buffer = []\<rparr>"

definition server_logic :: "env \<Rightarrow> world \<Rightarrow> u8 list \<Rightarrow> (world \<times> u8 list) result" where
  "server_logic e s gathered = bind_res (read_all e s) (\<lambda>(data, s). Inr (s, gathered @ data))"

text \<open>
  The idle callback with this logic: \<open>_on_idle_dispatch\<close>, with the captured buffer handed from
  one call of the logic to the next.
\<close>

fun server_batch :: "stack_env \<Rightarrow> nat list \<Rightarrow> server_program \<Rightarrow> server_program result" where
  "server_batch se [] sp = Inr sp"
| "server_batch se (s # processing_batch) sp =
     (case at_pointer s (server_stack sp) of
        None \<Rightarrow> Inl Use_after_free
      | Some (key, x) \<Rightarrow>
          bind_res (server_logic (session_env key (base_env se))
              ((enter_world x (driver (server_stack sp)) (iss_drawn (server_stack sp)))\<lparr>is_in_ready_queue := False\<rparr>)
              (global_buffer sp))
            (\<lambda>(w, gathered). server_batch se processing_batch
               \<lparr>server_stack = fold serve_post (posts w) (store_session key w (server_stack sp)), global_buffer = gathered\<rparr>))"

definition server_idle :: "stack_env \<Rightarrow> server_program \<Rightarrow> server_program result" where
  "server_idle se sp =
     (let st = (server_stack sp)\<lparr>idle_active := False\<rparr>
      in if ready_queue st = [] then Inr (sp\<lparr>server_stack := st\<rparr>)
         else server_batch se (ready_queue st) (sp\<lparr>server_stack := st\<lparr>ready_queue := []\<rparr>\<rparr>))"

text \<open>Without the buffer it is the idle callback of a stack whose application reads everything.\<close>

definition reading_logic :: "env \<Rightarrow> world \<Rightarrow> world result" where
  "reading_logic e w = bind_res (read_all e w) (\<lambda>(_, w). Inr w)"

lemma server_batch_stack:
  "bind_res (server_batch se ps sp) (\<lambda>sp. Inr (server_stack sp))
     = process_batch (se\<lparr>app_logic_cb := Some reading_logic\<rparr>) ps (server_stack sp)"
proof (induction ps arbitrary: sp)
  case (Cons p ps)
  then show ?case
    by (auto simp: call_session_def run_ready_def server_logic_def reading_logic_def bind_res_assoc case_prod_beta
        split: option.splits)
qed simp

lemma server_idle_stack:
  "bind_res (server_idle se sp) (\<lambda>sp. Inr (server_stack sp))
     = on_idle_dispatch (se\<lparr>app_logic_cb := Some reading_logic\<rparr>) (server_stack sp)"
  using server_batch_stack [of se "ready_queue (server_stack sp)"
      "sp\<lparr>server_stack := (server_stack sp)\<lparr>idle_active := False, ready_queue := []\<rparr>\<rparr>"]
  by (simp add: server_idle_def on_idle_dispatch_def Let_def)

section \<open>Both on one host\<close>

record programs =
  client_side :: client_program
  server_side :: server_program

text \<open>A datagram that one of them sent arrives where it was sent to, if anything is bound there.\<close>

definition hand_over ::
  "stack_env \<Rightarrow> stack_env \<Rightarrow> sock_addr \<Rightarrow> u8 list \<times> sock_addr \<Rightarrow> programs \<Rightarrow> programs result" where
  "hand_over cse sse sender dgram P =
     (if snd dgram = server_addr
      then bind_res (stack_datagram sse (fst dgram) (Some sender) (server_stack (server_side P))) (\<lambda>st.
             Inr (P\<lparr>server_side := (server_side P)\<lparr>server_stack := st\<rparr>\<rparr>))
      else if snd dgram = client_addr
      then bind_res (stack_datagram cse (fst dgram) (Some sender) (client_stack (client_side P))) (\<lambda>st.
             Inr (P\<lparr>client_side := (client_side P)\<lparr>client_stack := st\<rparr>\<rparr>))
      else Inr P)"

text \<open>
  What happens next: the \<open>i\<close>-th datagram of one of the programs arrives, a timer of a session
  of the client expires, the delay is over, or the server's loop runs the idle callback.
\<close>

datatype occurrence = Client_sent nat | Server_sent nat | Client_timer nat uv_handle | Delay_over | Server_idles

definition sent_by :: "stack \<Rightarrow> nat \<Rightarrow> (u8 list \<times> sock_addr) option" where
  "sent_by st i = (let ds = udp_sends (driver st) in if i < length ds then Some (ds ! i) else None)"

fun program_step :: "stack_env \<Rightarrow> stack_env \<Rightarrow> occurrence \<Rightarrow> programs \<Rightarrow> programs result" where
  "program_step cse sse (Client_sent i) P =
     (case sent_by (client_stack (client_side P)) i of
        None \<Rightarrow> Inr P | Some dgram \<Rightarrow> hand_over cse sse client_addr dgram P)"
| "program_step cse sse (Server_sent i) P =
     (case sent_by (server_stack (server_side P)) i of
        None \<Rightarrow> Inr P | Some dgram \<Rightarrow> hand_over cse sse server_addr dgram P)"
| "program_step cse sse (Client_timer p h) P =
     bind_res (stack_step cse (Se_timer p h) (client_stack (client_side P))) (\<lambda>st.
       Inr (P\<lparr>client_side := (client_side P)\<lparr>client_stack := st\<rparr>\<rparr>))"
| "program_step cse sse Delay_over P =
     bind_res (delay_expired cse (client_side P)) (\<lambda>cp. Inr (P\<lparr>client_side := cp\<rparr>))"
| "program_step cse sse Server_idles P =
     (if idle_active (server_stack (server_side P))
      then bind_res (server_idle sse (server_side P)) (\<lambda>sp. Inr (P\<lparr>server_side := sp\<rparr>))
      else Inr P)"

fun program_run :: "stack_env \<Rightarrow> stack_env \<Rightarrow> occurrence list \<Rightarrow> programs \<Rightarrow> programs result" where
  "program_run cse sse [] P = Inr P"
| "program_run cse sse (ev # evs) P = bind_res (program_step cse sse ev P) (program_run cse sse evs)"

interpretation programs: machine "program_step cse sse" "program_run cse sse" id for cse sse
  by unfold_locales auto

lemma program_run_append:
  "program_run cse sse (as @ bs) P = bind_res (program_run cse sse as P) (program_run cse sse bs)"
proof (induction as arbitrary: P)
  case (Cons a as)
  then have "(\<lambda>P. program_run cse sse (as @ bs) P) = (\<lambda>P. bind_res (program_run cse sse as P) (program_run cse sse bs))"
    by (rule ext)
  then show ?case
    by (simp add: bind_res_assoc)
qed simp

text \<open>Both programs started, the server first.\<close>

definition programs_main :: "stack_env \<Rightarrow> programs result" where
  "programs_main cse = bind_res (client_main cse) (\<lambda>cp. Inr \<lparr>client_side = cp, server_side = server_main\<rparr>)"

end
