(* ===== verification/Program_Events.thy ===== *)
theory Program_Events
  imports Programs
begin

text \<open>
  What one event does to the two programs, when each has one session: a datagram that a session
  takes in, data and the end of the stream at the server, the idle callback, the end of a
  session.
\<close>

section \<open>The sessions of the two programs\<close>

abbreviation client_env :: "stack_env \<Rightarrow> env" where
  "client_env cse \<equiv> session_env server_addr (base_env cse)"

abbreviation server_env :: "stack_env \<Rightarrow> env" where
  "server_env sse \<equiv> session_env client_addr (base_env sse)"

text \<open>
  The client's session is the one its driver hands packets to; the server's is reached through
  the stack, and is in the ready queue or not.
\<close>

abbreviation client_place :: "(sock_addr \<times> receiver) \<times> nat \<times> bool \<times> post list \<times> bool" where
  "client_place \<equiv> ((server_addr, Session_input 0), 0, False, [], True)"

abbreviation server_place :: "bool \<Rightarrow> (sock_addr \<times> receiver) \<times> nat \<times> bool \<times> post list \<times> bool" where
  "server_place ready \<equiv> ((client_addr, Stack_listen), 0, ready, [], True)"

definition client_holds :: "world \<Rightarrow> programs \<Rightarrow> bool" where
  "client_holds c P \<longleftrightarrow> hosting_only server_addr c (client_stack (client_side P)) \<and> place c = client_place"

definition server_holds :: "world \<Rightarrow> programs \<Rightarrow> bool" where
  "server_holds s P \<longleftrightarrow> hosting_only client_addr s (server_stack (server_side P)) \<and> place s = server_place (is_in_ready_queue s)"

definition delay_of :: "programs \<Rightarrow> nat \<times> bool" where
  "delay_of P = (delay_data (client_side P), delay_active (client_side P))"

lemma addr_distinct [simp]: "client_addr \<noteq> server_addr" "server_addr \<noteq> client_addr"
  by (simp_all add: client_addr_def server_addr_def)

lemma placed:
  assumes "place w = ((to, cb), p, b, ps, ac)"
  shows "(remote_ip w, remote_port w) = to" and "on_receive_callback (udp w) = cb" and "self_ptr w = p"
    and "is_in_ready_queue w = b" and "posts w = ps" and "auto_close_on_eof w = ac"
  using assms by (simp_all add: place_def route_def)

text \<open>A flag raised or lowered.\<close>

lemma flag_frame [simp]:
  "idle e s m t (w\<lparr>is_in_ready_queue := b\<rparr>) = idle e s m t w"
  "sends v (w\<lparr>is_in_ready_queue := b\<rparr>) seq a fl data = sends v w seq a fl data"
  by (simp_all add: idle_def base_inv_def sends_def)

lemma place_flag: "place w = (r, p, b, ps, ac) \<Longrightarrow> place (w\<lparr>is_in_ready_queue := b'\<rparr>) = (r, p, b', ps, ac)"
  by (simp add: place_def route_def)

section \<open>Datagrams\<close>

lemma sent_by_hosted: "hosting_only key w st \<Longrightarrow> sent_by st i =
    (if i < length (udp_sends (udp w)) then Some (udp_sends (udp w) ! i) else None)"
  by (simp add: sent_by_def hosting_only_def hosting_def)

lemma sent_by_sides:
  "client_holds c P \<Longrightarrow> sent_by (client_stack (client_side P)) i =
     (if i < length (udp_sends (udp c)) then Some (udp_sends (udp c) ! i) else None)"
  "server_holds s P \<Longrightarrow> sent_by (server_stack (server_side P)) i =
     (if i < length (udp_sends (udp s)) then Some (udp_sends (udp s) ! i) else None)"
  by (simp_all add: client_holds_def server_holds_def sent_by_hosted [of server_addr c] sent_by_hosted [of client_addr s])

text \<open>The last datagram of a side is addressed to the other.\<close>

lemma client_sends:
  assumes "sends v c seq a fl data" and "client_holds c P" and "i = length (udp_sends (udp v))"
  obtains q where "sent_by (client_stack (client_side P)) i = Some (raw_data q, server_addr)" and "seg_is q seq a fl data"
proof -
  have "(remote_ip c, remote_port c) = server_addr"
    using assms(2) placed(1) unfolding client_holds_def by blast
  then show ?thesis
    using assms(1,3) that by (auto simp: sends_def sent_by_sides(1) [OF assms(2)])
qed

lemma server_sends:
  assumes "sends v s seq a fl data" and "server_holds s P" and "j = length (udp_sends (udp v))"
  obtains q where "sent_by (server_stack (server_side P)) j = Some (raw_data q, client_addr)" and "seg_is q seq a fl data"
proof -
  have "(remote_ip s, remote_port s) = client_addr"
    using assms(2) placed(1) unfolding server_holds_def by blast
  then show ?thesis
    using assms(1,3) that by (auto simp: sends_def sent_by_sides(2) [OF assms(2)])
qed

lemma client_sent_arrives:
  assumes "sent_by (client_stack (client_side P)) i = Some (b, server_addr)"
    and "stack_datagram sse b (Some client_addr) (server_stack (server_side P)) = Inr st"
  shows "program_step cse sse (Client_sent i) P = Inr (P\<lparr>server_side := (server_side P)\<lparr>server_stack := st\<rparr>\<rparr>)"
  using assms by (simp add: hand_over_def)

lemma server_sent_arrives:
  assumes "sent_by (server_stack (server_side P)) j = Some (b, client_addr)"
    and "stack_datagram cse b (Some server_addr) (client_stack (client_side P)) = Inr st"
  shows "program_step cse sse (Server_sent j) P = Inr (P\<lparr>client_side := (client_side P)\<lparr>client_stack := st\<rparr>\<rparr>)"
  using assms by (simp add: hand_over_def)

text \<open>A segment that the handlers take in without asking anything of the stack.\<close>

lemma client_hears:
  assumes c: "client_holds c P" and q: "sent_by (server_stack (server_side P)) j = Some (raw_data q, client_addr)" "seg_is q seq a fl data"
    and v: "input (client_env cse) q c = Inr v" "place v = place c"
  shows "\<exists>P'. program_step cse sse (Server_sent j) P = Inr P' \<and> client_holds v P' \<and> server_side P' = server_side P
    \<and> delay_of P' = delay_of P"
proof -
  have h: "hosting_only server_addr c (client_stack (client_side P))" and pl: "place c = client_place"
    using c by (simp_all add: client_holds_def)
  note pv = v(2) [unfolded pl]
  have "on_receive_callback (udp c) \<in> {Stack_listen, Session_input (self_ptr c)}"
    using placed [OF pl] by simp
  from hosting_only_datagram [OF h this seg_wire [OF q(2)] v(1) placed(5) [OF pv]]
  obtain st where st: "stack_datagram cse (raw_data q) (Some server_addr) (client_stack (client_side P)) = Inr st"
    "hosting_only server_addr v st"
    by blast
  then show ?thesis
    using server_sent_arrives [OF q(1) st(1), of sse] pv
    by (intro exI [of _ "P\<lparr>client_side := (client_side P)\<lparr>client_stack := st\<rparr>\<rparr>"]) (simp add: client_holds_def delay_of_def del: program_step.simps)
qed

lemma server_hears:
  assumes s: "server_holds s P" and q: "sent_by (client_stack (client_side P)) i = Some (raw_data q, server_addr)" "seg_is q seq a fl data"
    and v: "input (server_env sse) q s = Inr v" "place v = place s"
  shows "\<exists>P'. program_step cse sse (Client_sent i) P = Inr P' \<and> server_holds v P' \<and> client_side P' = client_side P
    \<and> global_buffer (server_side P') = global_buffer (server_side P)"
proof -
  have h: "hosting_only client_addr s (server_stack (server_side P))" and pl: "place s = server_place (is_in_ready_queue s)"
    using s by (simp_all add: server_holds_def)
  note pv = v(2) [unfolded pl]
  have "on_receive_callback (udp s) \<in> {Stack_listen, Session_input (self_ptr s)}"
    using placed [OF pl] by simp
  from hosting_only_datagram [OF h this seg_wire [OF q(2)] v(1) placed(5) [OF pv]]
  obtain st where st: "stack_datagram sse (raw_data q) (Some client_addr) (server_stack (server_side P)) = Inr st"
    "hosting_only client_addr v st"
    by blast
  then show ?thesis
    using client_sent_arrives [OF q(1) st(1), of cse] pv placed(4) [OF pv]
    by (intro exI [of _ "P\<lparr>server_side := (server_side P)\<lparr>server_stack := st\<rparr>\<rparr>"]) (simp add: server_holds_def del: program_step.simps)
qed

text \<open>A segment that brings the application something: the session is put into the ready queue.\<close>

lemma server_notified:
  assumes s: "server_holds s P" and q: "sent_by (client_stack (client_side P)) i = Some (raw_data q, server_addr)" "seg_is q seq a fl data"
    and v: "input (server_env sse) q s = call_if_set (map_option (\<lambda>cb. cb n) (on_data_cb (server_env sse))) v" "place v = place s"
  shows "\<exists>P'. program_step cse sse (Client_sent i) P = Inr P' \<and> server_holds (v\<lparr>is_in_ready_queue := True\<rparr>) P' \<and> client_side P' = client_side P
    \<and> global_buffer (server_side P') = global_buffer (server_side P)"
proof -
  have h: "hosting_only client_addr s (server_stack (server_side P))" and pl: "place s = server_place (is_in_ready_queue s)"
    using s by (simp_all add: server_holds_def)
  note pv = v(2) [unfolded pl]
  have cb: "on_receive_callback (udp s) \<in> {Stack_listen, Session_input (self_ptr s)}" "self_ptr v = self_ptr s"
    using placed [OF pl] placed [OF pv] by simp_all
  from hosting_only_notified [OF h cb(1) seg_wire [OF q(2)] refl v(1) placed(5) [OF pv] cb(2)]
  obtain st where st: "stack_datagram sse (raw_data q) (Some client_addr) (server_stack (server_side P)) = Inr st"
    "hosting_only client_addr (v\<lparr>is_in_ready_queue := True\<rparr>) st"
    by blast
  then show ?thesis
    using client_sent_arrives [OF q(1) st(1), of cse] place_flag [OF pv, of True]
    by (intro exI [of _ "P\<lparr>server_side := (server_side P)\<lparr>server_stack := st\<rparr>\<rparr>"]) (simp add: server_holds_def del: program_step.simps)
qed

text \<open>The driver of the client hands its session whatever arrives, from whomever.\<close>

lemma client_hears_itself:
  assumes c: "client_holds c P" and q: "sent_by (client_stack (client_side P)) i = Some (raw_data q, client_addr)" "seg_is q seq a fl data"
    and v: "input (client_env cse) q c = Inr v" "place v = place c"
  shows "\<exists>P'. program_step cse sse (Client_sent i) P = Inr P' \<and> client_holds v P' \<and> server_side P' = server_side P"
proof -
  have h: "hosting_only server_addr c (client_stack (client_side P))" and pl: "place c = client_place"
    using c by (simp_all add: client_holds_def)
  note pv = v(2) [unfolded pl]
  have same: "v\<lparr>posts := []\<rparr> = v" and ps: "Post_erase server_addr \<notin> set (posts v)"
    using placed(5) [OF pv] by simp_all
  have ne: "raw_data q \<noteq> []"
    using seg_wire [OF q(2)] by (auto simp: parse_datagram_def header_size_def split: if_splits)
  have "stack_datagram cse (raw_data q) (Some client_addr) (client_stack (client_side P))
      = call_session cse (self_ptr c) (\<lambda>e. input e q) (client_stack (client_side P))"
    using h ne placed [OF pl] by (simp add: stack_datagram_def on_uv_recv_def seg_wire [OF q(2)] hosting_only_def hosting_def)
  then obtain st where st: "stack_datagram cse (raw_data q) (Some client_addr) (client_stack (client_side P)) = Inr st"
    "hosting_only server_addr v st"
    using hosting_only_call [where f = "\<lambda>e. input e q", OF h _ v(1) ps, unfolded same] by auto
  then show ?thesis
    using q(1) pv by (intro exI [of _ "P\<lparr>client_side := (client_side P)\<lparr>client_stack := st\<rparr>\<rparr>"]) (simp add: client_holds_def hand_over_def)
qed

section \<open>Timers\<close>

lemma client_expires:
  assumes c: "client_holds c P" and v: "expire (client_env cse) h c = Inr v" "place v = place c"
  shows "\<exists>P'. program_step cse sse (Client_timer 0 h) P = Inr P' \<and> client_holds v P' \<and> server_side P' = server_side P"
proof -
  let ?f = "\<lambda>e w. bind_res (session_step e (Ev_timer h) w) (\<lambda>(_, w). Inr w)"
  have hc: "hosting_only server_addr c (client_stack (client_side P))" and pl: "place c = client_place"
    using c by (simp_all add: client_holds_def)
  note pv = v(2) [unfolded pl]
  have same: "v\<lparr>posts := []\<rparr> = v" and ps: "Post_erase server_addr \<notin> set (posts v)" and runs: "?f (client_env cse) c = Inr v"
    using placed(5) [OF pv] v(1) by simp_all
  obtain st where "stack_step cse (Se_timer 0 h) (client_stack (client_side P)) = Inr st" "hosting_only server_addr v st"
    using hosting_only_call [where f = ?f, OF hc _ runs ps, unfolded same] placed(3) [OF pl]
    by (auto simp del: session_step.simps)
  then show ?thesis
    using pv by (intro exI [of _ "P\<lparr>client_side := (client_side P)\<lparr>client_stack := st\<rparr>\<rparr>"])
      (simp add: client_holds_def del: stack_step.simps)
qed

text \<open>The end of the delay, on a session that closing leaves in the map.\<close>

lemma delay_ends:
  assumes c: "client_holds c P" and d: "delay_of P = (0, True)" and v: "close (client_env cse) c = Inr v" "place v = place c"
  shows "\<exists>P'. program_step cse sse Delay_over P = Inr P' \<and> client_holds v P' \<and> server_side P' = server_side P"
proof -
  have h: "hosting_only server_addr c (client_stack (client_side P))" and pl: "place c = client_place"
    using c by (simp_all add: client_holds_def)
  note pv = v(2) [unfolded pl]
  have same: "v\<lparr>posts := []\<rparr> = v" and ps: "Post_erase server_addr \<notin> set (posts v)"
    using placed(5) [OF pv] by simp_all
  obtain st where "call_session cse 0 close (client_stack (client_side P)) = Inr st" "hosting_only server_addr v st"
    using hosting_only_call [where f = close, OF h _ v(1) ps, unfolded same] placed(3) [OF pl] by auto
  then show ?thesis
    using d pv by (intro exI [of _ "P\<lparr>client_side := (client_side P)\<lparr>client_stack := st, delay_active := False\<rparr>\<rparr>"])
      (simp add: client_holds_def delay_of_def delay_expired_def)
qed

section \<open>The end of a session\<close>

lemma server_ends:
  assumes s: "server_holds s P" and q: "sent_by (client_stack (client_side P)) i = Some (raw_data q, server_addr)" "seg_is q seq a fl data"
    and v: "input (server_env sse) q s = call_if_set (on_closed_cb (server_env sse)) v"
  shows "\<exists>P'. program_step cse sse (Client_sent i) P = Inr P' \<and> tcp_sessions (server_stack (server_side P')) = []
    \<and> client_side P' = client_side P \<and> global_buffer (server_side P') = global_buffer (server_side P)"
proof -
  let ?u = "v\<lparr>posts := posts v @ [Post_erase client_addr]\<rparr>"
  have h: "hosting_only client_addr s (server_stack (server_side P))" and pl: "place s = server_place (is_in_ready_queue s)"
    using s by (simp_all add: server_holds_def)
  have u: "input (server_env sse) q s = Inr ?u" "Post_erase client_addr \<in> set (posts ?u)"
    using v by (simp_all add: session_env_closed)
  have "hosting client_addr s (server_stack (server_side P))" "on_receive_callback (udp s) \<in> {Stack_listen, Session_input (self_ptr s)}"
    using h placed [OF pl] by (simp_all add: hosting_only_def)
  from hosting_datagram [OF this seg_wire [OF q(2)], of sse]
  obtain st where st: "stack_datagram sse (raw_data q) (Some client_addr) (server_stack (server_side P)) = Inr st" "tcp_sessions st = []"
    using hosting_only_erased [where f = "\<lambda>e. input e q", OF h _ u] by auto
  then show ?thesis
    using client_sent_arrives [OF q(1) st(1), of cse]
    by (intro exI [of _ "P\<lparr>server_side := (server_side P)\<lparr>server_stack := st\<rparr>\<rparr>"]) (simp del: program_step.simps)
qed

lemma client_ends:
  assumes c: "client_holds c P" and v: "expire (client_env cse) h c = call_if_set (on_closed_cb (client_env cse)) v"
  shows "\<exists>P'. program_step cse sse (Client_timer 0 h) P = Inr P' \<and> tcp_sessions (client_stack (client_side P')) = []
    \<and> server_side P' = server_side P"
proof -
  let ?f = "\<lambda>e w. bind_res (session_step e (Ev_timer h) w) (\<lambda>(_, w). Inr w)"
  let ?u = "v\<lparr>posts := posts v @ [Post_erase server_addr]\<rparr>"
  have hc: "hosting_only server_addr c (client_stack (client_side P))" and pl: "place c = client_place"
    using c by (simp_all add: client_holds_def)
  have u: "?f (client_env cse) c = Inr ?u" "Post_erase server_addr \<in> set (posts ?u)"
    using v by (simp_all add: session_env_closed)
  obtain st where "stack_step cse (Se_timer 0 h) (client_stack (client_side P)) = Inr st" "tcp_sessions st = []"
    using hosting_only_erased [where f = ?f, OF hc _ u] placed(3) [OF pl] by (auto simp del: session_step.simps)
  then show ?thesis
    by (intro exI [of _ "P\<lparr>client_side := (client_side P)\<lparr>client_stack := st\<rparr>\<rparr>"]) (simp del: stack_step.simps)
qed

section \<open>The idle callback of the server\<close>

lemma server_idle_runs:
  assumes s: "server_holds s P" and flag: "is_in_ready_queue s"
    and r: "read_all (server_env sse) (s\<lparr>is_in_ready_queue := False\<rparr>) = Inr (data, w)" "place w = place (s\<lparr>is_in_ready_queue := False\<rparr>)"
  shows "\<exists>P'. program_step cse sse Server_idles P = Inr P' \<and> server_holds w P' \<and> client_side P' = client_side P
    \<and> global_buffer (server_side P') = global_buffer (server_side P) @ data"
proof -
  let ?sp = "server_side P" and ?still = "(server_stack (server_side P))\<lparr>idle_active := False, ready_queue := []\<rparr>"
  let ?st = "store_session client_addr w ?still"
  have h: "hosting_only client_addr s (server_stack ?sp)" and pl: "place s = server_place True"
    using s flag by (simp_all add: server_holds_def)
  note pw = r(2) [unfolded place_flag [OF pl]]
  have host: "hosting client_addr s (server_stack ?sp)" and q: "ready_queue (server_stack ?sp) = [self_ptr s]"
    using h flag by (simp_all add: hosting_only_def)
  have at: "at_pointer (self_ptr s) ?still = Some (client_addr, tcp_session.truncate s)"
    using hosting_at [OF host] by (simp add: at_pointer_def)
  have run: "server_idle sse ?sp = Inr \<lparr>server_stack = ?st, global_buffer = global_buffer ?sp @ data\<rparr>"
    using q at hosting_world [OF host] r(1) placed(5) [OF pw] by (simp add: server_idle_def Let_def server_logic_def)
  have "app_ok (sse\<lparr>app_logic_cb := Some reading_logic\<rparr>)"
    unfolding app_ok_def cb_keeps_def reading_logic_def
    using framed_event [where ev = Ev_read_all] by (auto simp: returns_def)
  moreover have "stack_inv (server_stack ?sp)"
    using host by (simp add: hosting_def)
  ultimately have "safe stack_inv (on_idle_dispatch (sse\<lparr>app_logic_cb := Some reading_logic\<rparr>) (server_stack ?sp))"
    by (rule idle_keeps)
  then have "stack_inv ?st"
    unfolding server_idle_stack [symmetric] run by (simp only: outcome_simps bind_res_Inr server_program.simps)
  then have "hosting_only client_addr w ?st"
    using h placed [OF pw] placed [OF pl] by (simp add: hosting_only_def hosting_def del: split_paired_All) (simp add: store_session_def)
  then show ?thesis
    using run hosting_idle [OF host] q pw placed(4) [OF pw]
    by (intro exI [of _ "P\<lparr>server_side := \<lparr>server_stack = ?st, global_buffer = global_buffer ?sp @ data\<rparr>\<rparr>"]) (simp add: server_holds_def)
qed

lemma server_idle_rests:
  assumes s: "server_holds s P" and flag: "\<not> is_in_ready_queue s"
  shows "\<exists>P'. program_step cse sse Server_idles P = Inr P' \<and> server_holds s P' \<and> client_side P' = client_side P
    \<and> global_buffer (server_side P') = global_buffer (server_side P)"
proof (cases "idle_active (server_stack (server_side P))")
  case True
  let ?st = "(server_stack (server_side P))\<lparr>idle_active := False\<rparr>"
  have "hosting_only client_addr s ?st" "ready_queue (server_stack (server_side P)) = []"
    using s flag by (auto simp: server_holds_def hosting_only_def hosting_def stack_inv_def stack_ok_def simp del: split_paired_All)
  then show ?thesis
    using s True by (intro exI [of _ "P\<lparr>server_side := (server_side P)\<lparr>server_stack := ?st\<rparr>\<rparr>"])
      (simp add: server_idle_def Let_def server_holds_def)
next
  case False
  then show ?thesis
    using s by (intro exI [of _ P]) simp
qed

end
