(* ===== verification/Program_Runs.thy ===== *)
theory Program_Runs
  imports Program_Events
begin

text \<open>
  The two programs run: the message of the client reaches the buffer of the server, both
  sessions are closed and leave the maps of their stacks; and what happens when a datagram
  with data is lost.
\<close>

section \<open>Each side between events\<close>

text \<open>
  The client's session has the rest of what it was given in flight, as far as its window
  allows, and the delay is running. The server's session is idle; what it has read and what it
  holds make up what has arrived, and if it holds anything, it is in the ready queue.
\<close>

definition dialing :: "stack_env \<Rightarrow> u32 \<Rightarrow> u32 \<Rightarrow> u8 list \<Rightarrow> world \<Rightarrow> programs \<Rightarrow> bool" where
  "dialing cse x y rest c P \<longleftrightarrow> client_holds c P \<and> delay_of P = (0, True) \<and> flying (client_env cse) x y rest c"

definition serving :: "stack_env \<Rightarrow> u32 \<Rightarrow> u32 \<Rightarrow> u8 list \<Rightarrow> world \<Rightarrow> programs \<Rightarrow> bool" where
  "serving sse y x got s P \<longleftrightarrow> server_holds s P \<and> idle (server_env sse) ESTABLISHED y x s
     \<and> global_buffer (server_side P) @ ring_contents (recv_buffer s) = got
     \<and> (is_in_ready_queue s \<or> ring_contents (recv_buffer s) = [])"

definition exchanging :: "stack_env \<Rightarrow> stack_env \<Rightarrow> u32 \<Rightarrow> u32 \<Rightarrow> u8 list \<Rightarrow> u8 list \<Rightarrow> world \<Rightarrow> world \<Rightarrow> programs \<Rightarrow> bool" where
  "exchanging cse sse x y rest got c s P \<longleftrightarrow> dialing cse x y rest c P \<and> serving sse y x got s P"

text \<open>What an event does to the one side leaves the other as it is.\<close>

lemma client_kept: "client_side P' = client_side P \<Longrightarrow> dialing cse x y rest c P' = dialing cse x y rest c P"
  by (simp add: dialing_def client_holds_def delay_of_def)

lemma server_kept: "server_side P' = server_side P \<Longrightarrow> serving sse y x got s P' = serving sse y x got s P"
  by (simp add: serving_def server_holds_def)

section \<open>One event on one side\<close>

lemma serving_data:
  assumes s: "serving sse y x got s P" and data: "data \<noteq> []" "length got + length data \<le> 1024"
    and p: "sent_by (client_stack (client_side P)) i = Some (raw_data p, server_addr)" "seg_is p x y FLAG_ACK data"
  shows "\<exists>s' P'. program_step cse sse (Client_sent i) P = Inr P' \<and> client_side P' = client_side P
    \<and> serving sse y (x + of_nat (length data)) (got @ data) s' P' \<and> sends s s' y (x + of_nat (length data)) FLAG_ACK []"
proof -
  let ?v = "data_taken (server_env sse) p s"
  have f: "server_holds s P" "idle (server_env sse) ESTABLISHED y x s"
    "global_buffer (server_side P) @ ring_contents (recv_buffer s) = got"
    using s by (simp_all add: serving_def)
  have "qsize (recv_buffer s) \<le> length got"
    using f(3) length_ring_contents [of "recv_buffer s"] by auto
  then have "qsize (recv_buffer s) + length data \<le> 1024"
    using data(2) by simp
  note v = input_data_taken [OF f(2) p(2) data(1) this]
  have "place ?v = place s"
    by simp
  from server_notified [OF f(1) p v(1) this] obtain P' where "program_step cse sse (Client_sent i) P = Inr P'"
    "server_holds (?v\<lparr>is_in_ready_queue := True\<rparr>) P'" "client_side P' = client_side P"
    "global_buffer (server_side P') = global_buffer (server_side P)"
    by blast
  then show ?thesis
    using v f(3) by (intro exI [of _ "?v\<lparr>is_in_ready_queue := True\<rparr>"] exI [of _ P'])
      (simp add: serving_def del: program_step.simps)
qed

lemma serving_idle:
  assumes s: "serving sse y x got s P"
  shows "\<exists>s' P'. program_step cse sse Server_idles P = Inr P' \<and> client_side P' = client_side P
    \<and> serving sse y x got s' P' \<and> udp s' = udp s \<and> global_buffer (server_side P') = got"
proof (cases "is_in_ready_queue s")
  case True
  let ?s = "s\<lparr>is_in_ready_queue := False\<rparr>"
  have f: "server_holds s P" "idle (server_env sse) ESTABLISHED y x ?s"
    "global_buffer (server_side P) @ ring_contents (recv_buffer s) = got"
    using s by (simp_all add: serving_def)
  obtain w where w: "read_all (server_env sse) ?s = Inr (ring_contents (recv_buffer s), w)"
    "idle (server_env sse) ESTABLISHED y x w" "udp w = udp s" "ring_contents (recv_buffer w) = []" "place w = place ?s"
    using read_idle [OF f(2)] by auto
  from server_idle_runs [OF f(1) True w(1,5)] show ?thesis
    using w(2-4) f(3) unfolding serving_def by (metis append_Nil2)
next
  case False
  have f: "server_holds s P" "global_buffer (server_side P) = got"
    using s False by (auto simp: serving_def)
  from server_idle_rests [OF f(1) False] show ?thesis
    using s f(2) unfolding serving_def by metis
qed

lemma serving_idle_if:
  assumes "serving sse y x got s P"
  shows "\<exists>s' P'. program_run cse sse (if b then [Server_idles] else []) P = Inr P' \<and> client_side P' = client_side P
    \<and> serving sse y x got s' P' \<and> udp s' = udp s"
proof (cases b)
  case True
  then show ?thesis
    using serving_idle [OF assms, of cse] by (auto simp del: program_step.simps)
qed (use assms in auto)

lemma dialing_ack:
  assumes c: "dialing cse x y rest c P" and some: "take (cwnd c) rest \<noteq> []" and nowrap: "unat x + length rest < 2 ^ 32"
    and p: "sent_by (server_stack (server_side P)) j = Some (raw_data p, client_addr)"
      "seg_is p y (x + of_nat (min (cwnd c) (length rest))) FLAG_ACK []"
  shows "\<exists>c' P'. program_step cse sse (Server_sent j) P = Inr P' \<and> server_side P' = server_side P
    \<and> dialing cse (x + of_nat (min (cwnd c) (length rest))) y (drop (cwnd c) rest) c' P' \<and> ssthresh c' = ssthresh c
    \<and> (drop (cwnd c) rest \<noteq> [] \<longrightarrow> cwnd c' = (if cwnd c < unat (ssthresh c) then 2 * cwnd c else cwnd c + 1)
         \<and> sends c c' (x + of_nat (min (cwnd c) (length rest))) y FLAG_ACK (take (cwnd c') (drop (cwnd c) rest)))
    \<and> (drop (cwnd c) rest = [] \<longrightarrow> udp c' = udp c)"
proof -
  have f: "client_holds c P" "delay_of P = (0, True)" "flying (client_env cse) x y rest c"
    using c by (simp_all add: dialing_def)
  obtain u where u: "input (client_env cse) p c = Inr u" "place u = place c"
    and fly: "flying (client_env cse) (x + of_nat (min (cwnd c) (length rest))) y (drop (cwnd c) rest) u" "ssthresh u = ssthresh c"
    and more: "drop (cwnd c) rest \<noteq> [] \<longrightarrow> cwnd u = (if cwnd c < unat (ssthresh c) then 2 * cwnd c else cwnd c + 1)
         \<and> sends c u (x + of_nat (min (cwnd c) (length rest))) y FLAG_ACK (take (cwnd u) (drop (cwnd c) rest))"
    "drop (cwnd c) rest = [] \<longrightarrow> udp u = udp c"
    using ack_flies [OF f(3) some nowrap p(2)] by (elim exE conjE) blast
  from client_hears [OF f(1) p u, of sse] obtain P' where "program_step cse sse (Server_sent j) P = Inr P'" "client_holds u P'"
    "server_side P' = server_side P" "delay_of P' = delay_of P"
    by blast
  then show ?thesis
    using fly more f(2) unfolding dialing_def by (intro exI [of _ u] exI [of _ P']) auto
qed

section \<open>Round trips\<close>

text \<open>
  The client's datagrams from the \<open>i\<close>-th on, each answered by the server's from the \<open>j\<close>-th on;
  the idle callback of the server runs before the answer arrives, or later.
\<close>

fun rounds :: "nat \<Rightarrow> nat \<Rightarrow> bool list \<Rightarrow> occurrence list" where
  "rounds i j [] = []"
| "rounds i j (b # bs) = [Client_sent i] @ (if b then [Server_idles] else []) @ [Server_sent j] @ rounds (i + 1) (j + 1) bs"

lemma rounds_run:
  assumes "program_run cse sse ([Client_sent i] @ (if b then [Server_idles] else []) @ [Server_sent j]) P = Inr P1"
  shows "program_run cse sse (rounds i j (b # bs)) P = program_run cse sse (rounds (i + 1) (j + 1) bs) P1"
  using assms unfolding rounds.simps append.assoc [symmetric] unfolding program_run_append
  by (simp del: program_step.simps program_run.simps)

lemma exchange_round:
  assumes P: "exchanging cse sse x y rest got c s P" and some: "take (cwnd c) rest \<noteq> []"
    and p: "sent_by (client_stack (client_side P)) i = Some (raw_data p, server_addr)" "seg_is p x y FLAG_ACK (take (cwnd c) rest)"
    and room: "length got + length rest \<le> 1024" and nowrap: "unat x + length rest < 2 ^ 32"
    and j: "j = length (udp_sends (udp s))"
  shows "\<exists>c' s' P'. program_run cse sse ([Client_sent i] @ (if b then [Server_idles] else []) @ [Server_sent j]) P = Inr P'
    \<and> exchanging cse sse (x + of_nat (min (cwnd c) (length rest))) y (drop (cwnd c) rest) (got @ take (cwnd c) rest) c' s' P'
    \<and> ssthresh c' = ssthresh c \<and> length (udp_sends (udp s')) = j + 1
    \<and> (drop (cwnd c) rest \<noteq> [] \<longrightarrow> cwnd c' = (if cwnd c < unat (ssthresh c) then 2 * cwnd c else cwnd c + 1)
         \<and> sends c c' (x + of_nat (min (cwnd c) (length rest))) y FLAG_ACK (take (cwnd c') (drop (cwnd c) rest)))
    \<and> (drop (cwnd c) rest = [] \<longrightarrow> udp c' = udp c)"
proof -
  let ?d = "take (cwnd c) rest" and ?f = "min (cwnd c) (length rest)"
  have len: "length ?d = ?f" and fits: "length got + length ?d \<le> 1024"
    using room by (simp_all add: min.commute)
  have PD: "dialing cse x y rest c P" and PS: "serving sse y x got s P"
    using P by (simp_all add: exchanging_def)
  from serving_data [OF PS some fits p, of cse] obtain s1 P1
    where step1: "program_step cse sse (Client_sent i) P = Inr P1" "client_side P1 = client_side P"
    and s1: "serving sse y (x + of_nat ?f) (got @ ?d) s1 P1" "sends s s1 y (x + of_nat ?f) FLAG_ACK []"
    unfolding len by blast
  from serving_idle_if [OF s1(1), of cse b] obtain s2 P2
    where run2: "program_run cse sse (if b then [Server_idles] else []) P1 = Inr P2" "client_side P2 = client_side P"
    and s2: "serving sse y (x + of_nat ?f) (got @ ?d) s2 P2" "udp s2 = udp s1"
    using step1(2) by auto
  have held: "server_holds s2 P2" and snd: "sends s s2 y (x + of_nat ?f) FLAG_ACK []"
    using s1 s2 by (auto simp: serving_def server_holds_def sends_def dest!: placed(1))
  obtain q where q: "sent_by (server_stack (server_side P2)) j = Some (raw_data q, client_addr)" "seg_is q y (x + of_nat ?f) FLAG_ACK []"
    by (rule server_sends [OF snd held j])
  have "dialing cse x y rest c P2"
    using PD client_kept [OF run2(2)] by simp
  from dialing_ack [OF this some nowrap q, of sse] obtain c' P3
    where step3: "program_step cse sse (Server_sent j) P2 = Inr P3" "server_side P3 = server_side P2"
    and c': "dialing cse (x + of_nat ?f) y (drop (cwnd c) rest) c' P3" "ssthresh c' = ssthresh c"
    "drop (cwnd c) rest \<noteq> [] \<longrightarrow> cwnd c' = (if cwnd c < unat (ssthresh c) then 2 * cwnd c else cwnd c + 1)
         \<and> sends c c' (x + of_nat ?f) y FLAG_ACK (take (cwnd c') (drop (cwnd c) rest))"
    "drop (cwnd c) rest = [] \<longrightarrow> udp c' = udp c"
    by blast
  have "program_run cse sse ([Client_sent i] @ (if b then [Server_idles] else []) @ [Server_sent j]) P = Inr P3"
    unfolding program_run_append using step1(1) run2(1) step3(1) by (simp del: program_step.simps)
  moreover have "exchanging cse sse (x + of_nat ?f) y (drop (cwnd c) rest) (got @ ?d) c' s2 P3"
    using c'(1) s2(1) server_kept [OF step3(2)] by (simp add: exchanging_def)
  moreover have "length (udp_sends (udp s2)) = j + 1"
    using sends_length [OF snd] j by simp
  ultimately show ?thesis
    using c'(2-4) by blast
qed

text \<open>Nothing is left to be sent: the datagrams asked for do not exist.\<close>

lemma rounds_over:
  assumes "exchanging cse sse x y [] got c s P" and "length (udp_sends (udp c)) \<le> i" and "length (udp_sends (udp s)) \<le> j"
  shows "\<exists>s' P'. program_run cse sse (rounds i j bs) P = Inr P' \<and> exchanging cse sse x y [] got c s' P'"
  using assms
proof (induction bs arbitrary: s P i j)
  case (Cons b bs)
  have PS: "serving sse y x got s P" and PD: "dialing cse x y [] c P"
    using Cons.prems(1) by (simp_all add: exchanging_def)
  obtain s1 P1 where run1: "program_run cse sse (if b then [Server_idles] else []) P = Inr P1" "client_side P1 = client_side P"
    and s1: "serving sse y x got s1 P1" "udp s1 = udp s"
    using serving_idle_if [OF PS, of cse b] by blast
  have P1: "exchanging cse sse x y [] got c s1 P1"
    using PD s1(1) client_kept [OF run1(2)] by (simp add: exchanging_def)
  have "client_holds c P" "server_holds s1 P1"
    using PD s1(1) by (simp_all add: dialing_def serving_def)
  then have "sent_by (client_stack (client_side P)) i = None" "sent_by (server_stack (server_side P1)) j = None"
    using s1(2) Cons.prems(2,3) by (simp_all add: sent_by_sides)
  then have run: "program_run cse sse ([Client_sent i] @ (if b then [Server_idles] else []) @ [Server_sent j]) P = Inr P1"
    unfolding program_run_append using run1(1) by simp
  show ?case
    unfolding rounds_run [OF run] using Cons.IH [OF P1, of "i + 1" "j + 1"] Cons.prems(2,3) s1(2) by auto
qed auto

text \<open>What a round that leaves something to be sent hands to the next.\<close>

lemma exchange_next:
  assumes more: "drop (cwnd c) rest \<noteq> []" and pos: "0 < cwnd c"
    and P1: "exchanging cse sse (x + of_nat (min (cwnd c) (length rest))) y (drop (cwnd c) rest) (got @ take (cwnd c) rest) c1 s1 P1"
    and w: "cwnd c1 = (if cwnd c < unat (ssthresh c) then 2 * cwnd c else cwnd c + 1)" "ssthresh c1 = ssthresh c"
    and snd: "sends c c1 (x + of_nat (min (cwnd c) (length rest))) y FLAG_ACK (take (cwnd c1) (drop (cwnd c) rest))"
    and room: "length got + length rest \<le> 1024" and nowrap: "unat x + length rest < 2 ^ 32"
    and i: "i + 1 = length (udp_sends (udp c))" and enough: "length rest \<le> carried (cwnd c) (unat (ssthresh c)) (Suc k)"
  obtains q where "sent_by (client_stack (client_side P1)) (i + 1) = Some (raw_data q, server_addr)"
      "seg_is q (x + of_nat (cwnd c)) y FLAG_ACK (take (cwnd c1) (drop (cwnd c) rest))"
    and "exchanging cse sse (x + of_nat (cwnd c)) y (drop (cwnd c) rest) (got @ take (cwnd c) rest) c1 s1 P1"
    and "0 < cwnd c1" and "length (got @ take (cwnd c) rest) + length (drop (cwnd c) rest) \<le> 1024"
    and "unat (x + of_nat (cwnd c)) + length (drop (cwnd c) rest) < 2 ^ 32" and "i + 1 + 1 = length (udp_sends (udp c1))"
    and "length (drop (cwnd c) rest) \<le> carried (cwnd c1) (unat (ssthresh c1)) k"
    and "x + of_nat (cwnd c) + of_nat (length (drop (cwnd c) rest)) = x + of_nat (length rest)"
proof -
  note left = window_left [OF more room nowrap]
  have held: "client_holds c1 P1"
    using P1 by (simp add: exchanging_def dialing_def)
  obtain q where q: "sent_by (client_stack (client_side P1)) (i + 1) = Some (raw_data q, server_addr)"
      "seg_is q (x + of_nat (cwnd c)) y FLAG_ACK (take (cwnd c1) (drop (cwnd c) rest))"
    by (rule client_sends [OF snd [unfolded left(2)] held i])
  show thesis
  proof (rule that [OF q P1 [unfolded left(2)]])
    show "0 < cwnd c1" "length (got @ take (cwnd c) rest) + length (drop (cwnd c) rest) \<le> 1024"
      using window_positive [OF w(1) pos] left(3,4) by simp_all
    show "unat (x + of_nat (cwnd c)) + length (drop (cwnd c) rest) < 2 ^ 32"
      by (rule left(5))
    show "i + 1 + 1 = length (udp_sends (udp c1))"
      using sends_length [OF snd] i by simp
    show "length (drop (cwnd c) rest) \<le> carried (cwnd c1) (unat (ssthresh c1)) k"
      using enough w by simp
    show "x + of_nat (cwnd c) + of_nat (length (drop (cwnd c) rest)) = x + of_nat (length rest)"
      using left(1) by (simp add: of_nat_diff)
  qed
qed

lemma exchange_rounds:
  assumes P: "exchanging cse sse x y rest got c s P" and some: "rest \<noteq> []" "0 < cwnd c"
    and p: "sent_by (client_stack (client_side P)) i = Some (raw_data p, server_addr)" "seg_is p x y FLAG_ACK (take (cwnd c) rest)"
    and room: "length got + length rest \<le> 1024" and nowrap: "unat x + length rest < 2 ^ 32"
    and i: "i + 1 = length (udp_sends (udp c))" and j: "j = length (udp_sends (udp s))"
    and enough: "length rest \<le> carried (cwnd c) (unat (ssthresh c)) (length bs)"
  shows "\<exists>c' s' P'. program_run cse sse (rounds i j bs) P = Inr P'
    \<and> exchanging cse sse (x + of_nat (length rest)) y [] (got @ rest) c' s' P'"
  using assms
proof (induction bs arbitrary: x rest got c s P i j p)
  case (Cons b bs)
  let ?f = "min (cwnd c) (length rest)"
  have some: "take (cwnd c) rest \<noteq> []"
    using Cons.prems(2,3) by simp
  from exchange_round [OF Cons.prems(1) some Cons.prems(4-7,9), of b] obtain c1 s1 P1
    where run: "program_run cse sse ([Client_sent i] @ (if b then [Server_idles] else []) @ [Server_sent j]) P = Inr P1"
    and P1: "exchanging cse sse (x + of_nat ?f) y (drop (cwnd c) rest) (got @ take (cwnd c) rest) c1 s1 P1"
    and th: "ssthresh c1 = ssthresh c" and j1: "length (udp_sends (udp s1)) = j + 1"
    and more: "drop (cwnd c) rest \<noteq> [] \<Longrightarrow> cwnd c1 = (if cwnd c < unat (ssthresh c) then 2 * cwnd c else cwnd c + 1)"
      "drop (cwnd c) rest \<noteq> [] \<Longrightarrow> sends c c1 (x + of_nat ?f) y FLAG_ACK (take (cwnd c1) (drop (cwnd c) rest))"
    and over: "drop (cwnd c) rest = [] \<Longrightarrow> udp c1 = udp c"
    by (elim exE conjE) (rule that, assumption+, blast+)
  show ?case
  proof (cases "drop (cwnd c) rest = []")
    case True
    then have "exchanging cse sse (x + of_nat (length rest)) y [] (got @ rest) c1 s1 P1"
      using P1 by simp
    from rounds_over [OF this, of "i + 1" "j + 1" bs] show ?thesis
      using over [OF True] Cons.prems(8) j1 unfolding rounds_run [OF run] by auto
  next
    case False
    have all: "(got @ take (cwnd c) rest) @ drop (cwnd c) rest = got @ rest"
      by simp
    from Cons.prems(10) have "length rest \<le> carried (cwnd c) (unat (ssthresh c)) (Suc (length bs))"
      by simp
    from exchange_next [OF False Cons.prems(3) P1 more(1) [OF False] th more(2) [OF False] Cons.prems(6,7,8) this] show ?thesis
      using Cons.IH [OF _ False _ _ _ _ _ _ j1 [symmetric]] unfolding rounds_run [OF run] by (metis all)
  qed
qed simp

section \<open>Opening\<close>

lemma message_length: "length message = 14" "message \<noteq> []"
  by (simp_all add: message_def)

text \<open>What the client writes before the connection is up waits in its send buffer.\<close>

lemma write_early:
  assumes h: "hosting_only key v st" and pl: "place v = ((key, cb), p, False, [], ac)"
    and v: "syn_out (session_env key (base_env se)) SYN_SENT isn v" "dup_ack_count v = 0"
    and data: "data \<noteq> []" "length data \<le> 1024"
  shows "\<exists>st'. call_session se p (\<lambda>e w. bind_res (send e data w) (\<lambda>(_, w). Inr w)) st = Inr st'
    \<and> hosting_only key (queued data v) st' \<and> early (session_env key (base_env se)) isn data (queued data v)
    \<and> meters (queued data v) = meters v \<and> place (queued data v) = place v \<and> udp (queued data v) = udp v"
proof -
  let ?f = "\<lambda>e w. bind_res (send e data w) (\<lambda>(_, w). Inr w)" and ?u = "queued data v"
  note snd = send_early [OF v data]
  have "bind_res (session_step e (Ev_send data) v) (\<lambda>(_, v). Inr v) = ?f e v" for e v
    by (cases "send e data v") auto
  then have ff: "well_framed ?f"
    using well_framed_intros(3) [of "Ev_send data"] by simp
  have pu: "place ?u = ((key, cb), p, False, [], ac)"
    using pl by simp
  have keep: "?u\<lparr>posts := []\<rparr> = ?u" and quiet: "Post_erase key \<notin> set (posts ?u)"
    using placed(5) [OF pu] by simp_all
  have runs: "?f (session_env key (base_env se)) v = Inr ?u"
    using snd(1) by simp
  obtain st' where "call_session se (self_ptr v) ?f st = Inr st'" "hosting_only key ?u st'"
    using hosting_only_call [where f = ?f, OF h ff runs quiet, unfolded keep] by blast
  then show ?thesis
    using snd(2,3) pl pu placed(3) [OF pl] by (auto simp: queued_def)
qed

text \<open>\<open>main\<close> of the client: it creates the session, connects and writes the message.\<close>

lemma programs_start:
  assumes rel: "reliable (base_env cse) (driver (new_stack (fst client_addr) (snd client_addr)))"
  shows "\<exists>P c q. programs_main cse = Inr P \<and> client_holds c P \<and> delay_of P = (0, True) \<and> server_side P = server_main
    \<and> early (client_env cse) (gen_initial_seq (base_env cse) 0) message c \<and> cwnd c = 1 \<and> ssthresh c = 8
    \<and> udp_sends (udp c) = [(raw_data q, server_addr)] \<and> seg_is q (gen_initial_seq (base_env cse) 0) 0 FLAG_SYN []"
proof -
  let ?new = "new_stack (fst client_addr) (snd client_addr)"
  let ?st = "snd (create_session cse server_addr ?new)"
  obtain w where w: "hosting_only server_addr w ?st" "base_inv w" "qsize (send_buffer w) = 0" "udp w = driver ?new"
    "iss_calls w = 0" "recv_next (rwnd w) = 0" "meters w = (1, 8, 0, ring_new 1024 0)"
    "place w = ((server_addr, on_receive_callback (driver ?new)), 0, False, [], True)"
    using stack_created(2) [of server_addr cse "fst client_addr" "snd client_addr"] by blast
  have none: "udp_sends (driver ?new) = []"
    by (simp add: new_stack_def driver_init_def new_driver_def)
  let ?v = "connect (client_env cse) w" and ?c = "queued message (connect (client_env cse) w)"
  note conn = stack_connects [OF w(1-3) _ w(8) refl, of cse, unfolded w(4-6) none append_Nil, OF rel]
  obtain q where q: "udp_sends (udp ?v) = [(raw_data q, server_addr)]" "seg_is q (gen_initial_seq (base_env cse) 0) 0 FLAG_SYN []"
    using conn(6) by blast
  have m: "meters ?v = (1, 8, 0, ring_new 1024 0)"
    using conn(5) w(7) by simp
  then have "dup_ack_count ?v = 0" "message \<noteq> []" "length message \<le> 1024"
    using message_length by (simp_all add: meters_def)
  from write_early [OF conn(2,4,3) this] obtain st' where st': "call_session cse 0 (\<lambda>e w. bind_res (send e message w) (\<lambda>(_, w). Inr w))
      (store_session server_addr ?v ?st) = Inr st'" "hosting_only server_addr ?c st'"
    and c: "early (client_env cse) (gen_initial_seq (base_env cse) 0) message ?c" "meters ?c = meters ?v" "place ?c = place ?v" "udp ?c = udp ?v"
    by blast
  obtain st0 where "create_session cse server_addr ?new = (Some 0, st0)"
    using stack_created(1) [of cse server_addr "fst client_addr" "snd client_addr"] by (metis prod.collapse)
  then have "client_main cse = Inr \<lparr>client_stack = st', delay_data = 0, delay_active = True\<rparr>"
    using conn(1) st'(1) by (simp add: client_main_def Let_def)
  then show ?thesis
    using st'(2) c m q conn(4)
    by (intro exI [of _ "\<lparr>client_side = \<lparr>client_stack = st', delay_data = 0, delay_active = True\<rparr>, server_side = server_main\<rparr>"]
        exI [of _ ?c] exI [of _ q]) (simp add: programs_main_def client_holds_def delay_of_def meters_def cwnd_def)
qed

text \<open>The three datagrams of the opening.\<close>

lemma server_answers:
  assumes rel: "reliable (base_env sse) (driver (new_stack (fst server_addr) (snd server_addr)))" and P: "server_side P = server_main"
    and q: "sent_by (client_stack (client_side P)) i = Some (raw_data q, server_addr)" "seg_is q x a FLAG_SYN []"
  shows "\<exists>u P' q2. program_step cse sse (Client_sent i) P = Inr P' \<and> client_side P' = client_side P
    \<and> server_holds u P' \<and> global_buffer (server_side P') = [] \<and> recv_next (rwnd u) = x + 1 \<and> meters u = (1, 8, 0, ring_new 1024 0)
    \<and> syn_out (server_env sse) SYN_RECEIVED (gen_initial_seq (base_env sse) 0) u \<and> udp_sends (udp u) = [(raw_data q2, client_addr)]
    \<and> seg_is q2 (gen_initial_seq (base_env sse) 0) (x + 1) (FLAG_SYN OR FLAG_ACK) []"
proof -
  let ?s = "stack_listen (new_stack (fst server_addr) (snd server_addr))" and ?y = "gen_initial_seq (base_env sse) 0"
  have s: "stack_inv ?s" "tcp_sessions ?s = []" "ready_queue ?s = []" "reliable (base_env sse) (driver ?s)"
    "on_receive_callback (driver ?s) = Stack_listen" "iss_drawn ?s = 0" "udp_sends (driver ?s) = []" "next_object ?s = 0"
    using new_stack_inv [of "fst server_addr" "snd server_addr"] rel
    by (simp_all add: stack_listen_def stack_inv_def stack_ok_def)
      (simp_all add: new_stack_def driver_init_def new_driver_def set_on_receive_def)
  obtain st u q2 where st: "stack_datagram sse (raw_data q) (Some client_addr) ?s = Inr st" "hosting_only client_addr u st"
    and u: "syn_out (server_env sse) SYN_RECEIVED ?y u" "recv_next (rwnd u) = x + 1"
    "meters u = (1, 8, 0, ring_new 1024 0)" "place u = ((client_addr, Stack_listen), 0, False, [], True)"
    "udp_sends (udp u) = [(raw_data q2, client_addr)]" "seg_is q2 ?y (x + 1) (FLAG_SYN OR FLAG_ACK) []"
    using stack_accepts [OF s(1-5) q(2)] unfolding s(6-8) append_Nil by blast
  have "stack_datagram sse (raw_data q) (Some client_addr) (server_stack (server_side P)) = Inr st"
    using st(1) P by (simp add: server_main_def)
  from client_sent_arrives [OF q(1) this, of cse] show ?thesis
    using st(2) u placed(4) [OF u(4)] P
    by (intro exI [of _ u] exI [of _ "P\<lparr>server_side := (server_side P)\<lparr>server_stack := st\<rparr>\<rparr>"] exI [of _ q2])
      (simp add: server_holds_def server_main_def del: program_step.simps)
qed

lemma client_answers:
  assumes c: "client_holds c P" "delay_of P = (0, True)" and w: "early (client_env cse) x rest c" and some: "take (cwnd c) rest \<noteq> []"
    and q: "sent_by (server_stack (server_side P)) j = Some (raw_data q, client_addr)" "seg_is q y (x + 1) (FLAG_SYN OR FLAG_ACK) []"
  shows "\<exists>c' P' q3 q4. program_step cse sse (Server_sent j) P = Inr P' \<and> server_side P' = server_side P
    \<and> dialing cse (x + 1) (y + 1) rest c' P' \<and> cwnd c' = cwnd c \<and> ssthresh c' = ssthresh c
    \<and> udp_sends (udp c') = udp_sends (udp c) @ [(raw_data q3, server_addr), (raw_data q4, server_addr)]
    \<and> seg_is q3 (x + 1) (y + 1) FLAG_ACK [] \<and> seg_is q4 (x + 1) (y + 1) FLAG_ACK (take (cwnd c) rest)
    \<and> (\<exists>p. waiting (client_env cse) p client_addr 0 c' c' \<and> seg_is p (x + 1) (y + 1) FLAG_ACK (take (cwnd c) rest))"
proof -
  have cb: "on_established_cb (client_env cse) = None" and peer: "default_peer = client_addr"
    by (simp_all add: session_env_callbacks default_peer_def client_addr_def)
  obtain v c' where v: "input (client_env cse) q c = Inr c'" "place c' = place c" "sends c v (x + 1) (y + 1) FLAG_ACK []" "place v = place c"
    and c': "flying (client_env cse) (x + 1) (y + 1) rest c'" "cwnd c' = cwnd c" "ssthresh c' = ssthresh c"
    and first: "sends v c' (x + 1) (y + 1) FLAG_ACK (take (cwnd c) rest)"
      "\<exists>p. waiting (client_env cse) p client_addr 0 c' c' \<and> seg_is p (x + 1) (y + 1) FLAG_ACK (take (cwnd c) rest)"
    using input_syn_sent_data [OF w cb q(2)] some unfolding peer by blast
  have "place v = client_place" "place c' = client_place"
    using c(1) v(2,4) by (simp_all add: client_holds_def)
  note to = this [THEN placed(1)]
  obtain q3 q4 where "udp_sends (udp c') = udp_sends (udp c) @ [(raw_data q3, server_addr), (raw_data q4, server_addr)]"
    "seg_is q3 (x + 1) (y + 1) FLAG_ACK []" "seg_is q4 (x + 1) (y + 1) FLAG_ACK (take (cwnd c) rest)"
    using v(3) first(1) to by (auto simp: sends_def)
  moreover obtain P' where "program_step cse sse (Server_sent j) P = Inr P'" "client_holds c' P'"
    "server_side P' = server_side P" "delay_of P' = delay_of P"
    using client_hears [OF c(1) q v(1,2)] by blast
  ultimately show ?thesis
    using c' first(2) c(2) unfolding dialing_def by auto
qed

lemma server_confirms:
  assumes s: "server_holds u P" "global_buffer (server_side P) = []" "recv_buffer u = ring_new 1024 0"
    and u: "syn_out (server_env sse) SYN_RECEIVED y u"
    and q: "sent_by (client_stack (client_side P)) i = Some (raw_data q, server_addr)" "seg_is q (recv_next (rwnd u)) (y + 1) FLAG_ACK []"
  shows "\<exists>s' P'. program_step cse sse (Client_sent i) P = Inr P' \<and> client_side P' = client_side P
    \<and> serving sse (y + 1) (recv_next (rwnd u)) [] s' P' \<and> udp s' = udp u"
proof -
  obtain s' where s': "input (server_env sse) q u = Inr s'" "place s' = place u" "idle (server_env sse) ESTABLISHED (y + 1) (recv_next (rwnd u)) s'"
    "udp s' = udp u" "meters s' = meters u"
    using input_syn_received [OF session_env_quiet u q(2)] by (auto simp: session_env_callbacks)
  have "ring_contents (recv_buffer s') = []"
    using s'(5) s(3) by (simp add: meters_def ring_contents_def ring_new_def)
  with server_hears [OF s(1) q s'(1,2), of cse] show ?thesis
    using s'(3,4) s(2) unfolding serving_def by (metis append_Nil)
qed

lemma programs_open:
  assumes rc: "reliable (base_env cse) (driver (new_stack (fst client_addr) (snd client_addr)))"
    and rs: "reliable (base_env sse) (driver (new_stack (fst server_addr) (snd server_addr)))"
  shows "\<exists>P P' c s q. programs_main cse = Inr P \<and> program_run cse sse [Client_sent 0, Server_sent 0, Client_sent 1] P = Inr P'
    \<and> exchanging cse sse (gen_initial_seq (base_env cse) 0 + 1) (gen_initial_seq (base_env sse) 0 + 1) message [] c s P'
    \<and> sent_by (client_stack (client_side P')) 2 = Some (raw_data q, server_addr)
    \<and> seg_is q (gen_initial_seq (base_env cse) 0 + 1) (gen_initial_seq (base_env sse) 0 + 1) FLAG_ACK (take (cwnd c) message)
    \<and> length (udp_sends (udp c)) = 3 \<and> length (udp_sends (udp s)) = 1 \<and> cwnd c = 1 \<and> ssthresh c = 8
    \<and> (\<exists>p. waiting (client_env cse) p client_addr 0 c c
         \<and> seg_is p (gen_initial_seq (base_env cse) 0 + 1) (gen_initial_seq (base_env sse) 0 + 1) FLAG_ACK (take (cwnd c) message))"
proof -
  let ?x = "gen_initial_seq (base_env cse) 0" and ?y = "gen_initial_seq (base_env sse) 0"
  obtain P c q where P: "programs_main cse = Inr P" "client_holds c P" "delay_of P = (0, True)" "server_side P = server_main"
    and c: "early (client_env cse) ?x message c" "cwnd c = 1" "ssthresh c = 8"
    and q: "udp_sends (udp c) = [(raw_data q, server_addr)]" "seg_is q ?x 0 FLAG_SYN []"
    using programs_start [OF rc] by blast
  have "sent_by (client_stack (client_side P)) 0 = Some (raw_data q, server_addr)"
    using q(1) by (simp add: sent_by_sides(1) [OF P(2)])
  from server_answers [OF rs P(4) this q(2), of cse] obtain u P1 q2
    where P1: "program_step cse sse (Client_sent 0) P = Inr P1" "client_side P1 = client_side P" "server_holds u P1" "global_buffer (server_side P1) = []"
    and u: "recv_next (rwnd u) = ?x + 1" "meters u = (1, 8, 0, ring_new 1024 0)" "syn_out (server_env sse) SYN_RECEIVED ?y u"
    and q2: "udp_sends (udp u) = [(raw_data q2, client_addr)]" "seg_is q2 ?y (?x + 1) (FLAG_SYN OR FLAG_ACK) []"
    by blast
  have "client_holds c P1" "delay_of P1 = (0, True)" "take (cwnd c) message \<noteq> []"
    "sent_by (server_stack (server_side P1)) 0 = Some (raw_data q2, client_addr)"
    using P(2,3) P1(2) q2(1) c(2) message_length by (simp_all add: client_holds_def delay_of_def sent_by_sides(2) [OF P1(3)])
  from client_answers [OF this(1,2) c(1) this(3,4) q2(2), of sse, unfolded q(1) c(2,3) append_Cons append_Nil] obtain c' P2 q3 q4
    where P2: "program_step cse sse (Server_sent 0) P1 = Inr P2" "server_side P2 = server_side P1" "dialing cse (?x + 1) (?y + 1) message c' P2"
    and c': "cwnd c' = 1" "ssthresh c' = 8"
    and sent: "udp_sends (udp c') = [(raw_data q, server_addr), (raw_data q3, server_addr), (raw_data q4, server_addr)]"
    and q3: "seg_is q3 (?x + 1) (?y + 1) FLAG_ACK []" and q4: "seg_is q4 (?x + 1) (?y + 1) FLAG_ACK (take 1 message)"
    and wait: "\<exists>p. waiting (client_env cse) p client_addr 0 c' c' \<and> seg_is p (?x + 1) (?y + 1) FLAG_ACK (take 1 message)"
    by blast
  have held: "client_holds c' P2"
    using P2(3) by (simp add: dialing_def)
  have "server_holds u P2" "global_buffer (server_side P2) = []" "recv_buffer u = ring_new 1024 0"
    "sent_by (client_stack (client_side P2)) 1 = Some (raw_data q3, server_addr)"
    using P1(3,4) P2(2) u(2) sent by (simp_all add: server_holds_def meters_def sent_by_sides(1) [OF held])
  from server_confirms [OF this(1-3) u(3) this(4), unfolded u(1), OF q3, of cse] obtain s P3
    where P3: "program_step cse sse (Client_sent 1) P2 = Inr P3" "client_side P3 = client_side P2"
    "serving sse (?y + 1) (?x + 1) [] s P3" "udp s = udp u"
    by blast
  have "program_run cse sse [Client_sent 0, Server_sent 0, Client_sent 1] P = Inr P3"
    using P1(1) P2(1) P3(1) by (simp del: program_step.simps)
  moreover have "exchanging cse sse (?x + 1) (?y + 1) message [] c' s P3"
    using P2(3) P3(3) client_kept [OF P3(2)] by (simp add: exchanging_def)
  moreover have "sent_by (client_stack (client_side P3)) 2 = Some (raw_data q4, server_addr)"
    unfolding P3(2) sent_by_sides(1) [OF held] by (simp add: sent)
  ultimately show ?thesis
    using P(1) q4 wait c' sent q2(1) P3(4)
    by (intro exI [of _ P] exI [of _ P3] exI [of _ c'] exI [of _ s] exI [of _ q4]) simp
qed

section \<open>Closing\<close>

text \<open>
  The delay is over: the client closes and its FIN reaches the server, which acknowledges it
  and tells the application.
\<close>

definition parting :: "stack_env \<Rightarrow> stack_env \<Rightarrow> u32 \<Rightarrow> u32 \<Rightarrow> u8 list \<Rightarrow> world \<Rightarrow> world \<Rightarrow> programs \<Rightarrow> bool" where
  "parting cse sse x y got c s P \<longleftrightarrow> client_holds c P \<and> ends (client_env cse) FIN_WAIT_2 (x + 1) (x + 1) y c
     \<and> server_holds s P \<and> idle (server_env sse) CLOSE_WAIT y (x + 1) s \<and> is_in_ready_queue s
     \<and> qsize (recv_buffer s) = 0 \<and> global_buffer (server_side P) = got"

lemma server_sees_fin:
  assumes s: "server_holds s P" "idle (server_env sse) ESTABLISHED y x s" "qsize (recv_buffer s) = 0"
    and q: "sent_by (client_stack (client_side P)) i = Some (raw_data q, server_addr)" "seg_is q x a FLAG_FIN []"
  shows "\<exists>s' P'. program_step cse sse (Client_sent i) P = Inr P' \<and> client_side P' = client_side P
    \<and> global_buffer (server_side P') = global_buffer (server_side P) \<and> server_holds s' P' \<and> idle (server_env sse) CLOSE_WAIT y (x + 1) s'
    \<and> is_in_ready_queue s' \<and> qsize (recv_buffer s') = 0 \<and> sends s s' y (x + 1) FLAG_ACK []"
proof -
  note v = input_fin_taken [OF s(2) q(2)]
  from server_notified [OF s(1) q v(1,5)] obtain P' where "program_step cse sse (Client_sent i) P = Inr P'"
    "server_holds ((fin_taken (server_env sse) q s)\<lparr>is_in_ready_queue := True\<rparr>) P'" "client_side P' = client_side P"
    "global_buffer (server_side P') = global_buffer (server_side P)"
    by blast
  then show ?thesis
    using v(2-4) s(3) by (intro exI [of _ "(fin_taken (server_env sse) q s)\<lparr>is_in_ready_queue := True\<rparr>"] exI [of _ P'])
      (simp del: program_step.simps)
qed

lemma client_parts:
  assumes P: "exchanging cse sse x y [] got c s P" and read: "global_buffer (server_side P) = got"
    and i: "i = length (udp_sends (udp c))" and j: "j = length (udp_sends (udp s))"
  shows "\<exists>P' c' s'. program_run cse sse [Delay_over, Client_sent i, Server_sent j] P = Inr P'
    \<and> parting cse sse x y got c' s' P' \<and> length (udp_sends (udp c')) = i + 1 \<and> length (udp_sends (udp s')) = j + 1"
proof -
  have c: "client_holds c P" "delay_of P = (0, True)" "idle (client_env cse) ESTABLISHED x y c"
    and s: "server_holds s P" "idle (server_env sse) ESTABLISHED y x s" "qsize (recv_buffer s) = 0"
    using P read length_ring_contents [of "recv_buffer s"] by (auto simp: exchanging_def dialing_def serving_def dest: flying_idle)
  obtain c1 where c1: "close (client_env cse) c = Inr c1" "place c1 = place c"
    "ends (client_env cse) FIN_WAIT_1 x (x + 1) y c1" "sends c c1 x y FLAG_FIN []"
    using close_active [OF c(3)] by blast
  obtain P1 where P1: "program_step cse sse Delay_over P = Inr P1" "client_holds c1 P1" "server_side P1 = server_side P"
    using delay_ends [OF c(1,2) c1(1,2)] by blast
  obtain q1 where q1: "sent_by (client_stack (client_side P1)) i = Some (raw_data q1, server_addr)" "seg_is q1 x y FLAG_FIN []"
    by (rule client_sends [OF c1(4) P1(2) i])
  have "server_holds s P1"
    using s(1) P1(3) by (simp add: server_holds_def)
  from server_sees_fin [OF this s(2,3) q1, of cse] obtain s1 P2
    where P2: "program_step cse sse (Client_sent i) P1 = Inr P2" "client_side P2 = client_side P1" "global_buffer (server_side P2) = got"
    and s1: "server_holds s1 P2" "idle (server_env sse) CLOSE_WAIT y (x + 1) s1" "is_in_ready_queue s1" "qsize (recv_buffer s1) = 0"
      "sends s s1 y (x + 1) FLAG_ACK []"
    using P1(3) read by auto
  obtain q2 where q2: "sent_by (server_stack (server_side P2)) j = Some (raw_data q2, client_addr)" "seg_is q2 y (x + 1) FLAG_ACK []"
    by (rule server_sends [OF s1(5,1) j])
  obtain c2 where c2: "input (client_env cse) q2 c1 = Inr c2" "place c2 = place c1" "ends (client_env cse) FIN_WAIT_2 (x + 1) (x + 1) y c2"
    "udp_sends (udp c2) = udp_sends (udp c1)"
    using input_fin_acked [OF c1(3) q2(2)] by blast
  have "client_holds c1 P2"
    using P1(2) P2(2) by (simp add: client_holds_def)
  from client_hears [OF this q2 c2(1,2), of sse] obtain P3
    where P3: "program_step cse sse (Server_sent j) P2 = Inr P3" "client_holds c2 P3" "server_side P3 = server_side P2"
    by blast
  have "program_run cse sse [Delay_over, Client_sent i, Server_sent j] P = Inr P3"
    using P1(1) P2(1) P3(1) by (simp del: program_step.simps)
  moreover have "parting cse sse x y got c2 s1 P3"
    using P3(2,3) c2(3) s1(1-4) P2(3) by (simp add: parting_def server_holds_def)
  moreover have "length (udp_sends (udp c2)) = i + 1" "length (udp_sends (udp s1)) = j + 1"
    using sends_length [OF c1(4)] sends_length [OF s1(5)] c2(4) i j by simp_all
  ultimately show ?thesis
    by blast
qed

text \<open>
  The application of the server reads nothing, which closes its side; the last two datagrams
  and the end of the client's wait take both sessions out of the maps.
\<close>

lemma server_closes:
  assumes s: "server_holds s P" "idle (server_env sse) CLOSE_WAIT y x s" "is_in_ready_queue s" "qsize (recv_buffer s) = 0"
  shows "\<exists>s' P'. program_step cse sse Server_idles P = Inr P' \<and> client_side P' = client_side P
    \<and> global_buffer (server_side P') = global_buffer (server_side P) \<and> server_holds s' P'
    \<and> ends (server_env sse) LAST_ACK y (y + 1) x s' \<and> sends s s' y x (FLAG_FIN OR FLAG_ACK) []"
proof -
  let ?s = "s\<lparr>is_in_ready_queue := False\<rparr>"
  have pl: "place s = server_place True"
    using s(1,3) by (simp add: server_holds_def)
  have "idle (server_env sse) CLOSE_WAIT y x ?s" "qsize (recv_buffer ?s) = 0" "auto_close_on_eof ?s"
    using s(2,4) placed [OF pl] by simp_all
  from read_at_eof [OF this] obtain s' where s': "read_all (server_env sse) ?s = Inr ([], s')" "place s' = place ?s"
    "ends (server_env sse) LAST_ACK y (y + 1) x s'" "sends s s' y x (FLAG_FIN OR FLAG_ACK) []"
    by (auto simp: sends_def)
  from server_idle_runs [OF s(1,3) s'(1,2), of cse] show ?thesis
    using s'(3,4) by auto
qed

lemma server_parts:
  assumes P: "parting cse sse x y got c s P"
    and i: "i = length (udp_sends (udp c))" and j: "j = length (udp_sends (udp s))"
  shows "\<exists>P'. program_run cse sse [Server_idles, Server_sent j, Client_sent i, Client_timer 0 Two_msl] P = Inr P'
    \<and> tcp_sessions (client_stack (client_side P')) = [] \<and> tcp_sessions (server_stack (server_side P')) = []
    \<and> global_buffer (server_side P') = got"
proof -
  have c: "client_holds c P" "ends (client_env cse) FIN_WAIT_2 (x + 1) (x + 1) y c"
    and s: "server_holds s P" "idle (server_env sse) CLOSE_WAIT y (x + 1) s" "is_in_ready_queue s" "qsize (recv_buffer s) = 0"
    and got: "global_buffer (server_side P) = got"
    using P by (simp_all add: parting_def)
  obtain s1 P1 where P1: "program_step cse sse Server_idles P = Inr P1" "client_side P1 = client_side P" "global_buffer (server_side P1) = got"
    and s1: "server_holds s1 P1" "ends (server_env sse) LAST_ACK y (y + 1) (x + 1) s1" "sends s s1 y (x + 1) (FLAG_FIN OR FLAG_ACK) []"
    using server_closes [OF s, of cse] got by auto
  obtain q1 where q1: "sent_by (server_stack (server_side P1)) j = Some (raw_data q1, client_addr)" "seg_is q1 y (x + 1) (FLAG_FIN OR FLAG_ACK) []"
    by (rule server_sends [OF s1(3,1) j])
  obtain c1 where c1: "input (client_env cse) q1 c = Inr c1" "place c1 = place c" "sends c c1 (x + 1) (y + 1) FLAG_ACK []"
    "armed (tmgr c1) Two_msl = Some (On_2msl, 2 * 60 * 1000)"
    using input_last_fin [OF c(2) q1(2)] by blast
  have "client_holds c P1"
    using c(1) P1(2) by (simp add: client_holds_def)
  from client_hears [OF this q1 c1(1,2), of sse] obtain P2
    where P2: "program_step cse sse (Server_sent j) P1 = Inr P2" "client_holds c1 P2" "server_side P2 = server_side P1"
    by blast
  obtain q2 where q2: "sent_by (client_stack (client_side P2)) i = Some (raw_data q2, server_addr)" "seg_is q2 (x + 1) (y + 1) FLAG_ACK []"
    by (rule client_sends [OF c1(3) P2(2) i])
  obtain s2 where s2: "input (server_env sse) q2 s1 = call_if_set (on_closed_cb (server_env sse)) s2"
    using last_ack_taken [OF s1(2) q2(2)] by blast
  have "server_holds s1 P2"
    using s1(1) P2(3) by (simp add: server_holds_def)
  from server_ends [OF this q2 s2, of cse] obtain P3
    where P3: "program_step cse sse (Client_sent i) P2 = Inr P3" "tcp_sessions (server_stack (server_side P3)) = []"
    "client_side P3 = client_side P2" "global_buffer (server_side P3) = got"
    using P1(3) P2(3) by auto
  obtain c2 where c2: "expire (client_env cse) Two_msl c1 = call_if_set (on_closed_cb (client_env cse)) c2"
    using msl_elapsed [OF c1(4)] by blast
  have "client_holds c1 P3"
    using P2(2) P3(3) by (simp add: client_holds_def)
  from client_ends [OF this c2, of sse] obtain P4
    where P4: "program_step cse sse (Client_timer 0 Two_msl) P3 = Inr P4" "tcp_sessions (client_stack (client_side P4)) = []"
    "server_side P4 = server_side P3"
    by blast
  have "program_run cse sse [Server_idles, Server_sent j, Client_sent i, Client_timer 0 Two_msl] P = Inr P4"
    using P1(1) P2(1) P3(1) P4(1) by (simp del: program_step.simps)
  then show ?thesis
    using P3(2,4) P4(2,3) by (intro exI [of _ P4]) simp
qed

section \<open>A lost datagram\<close>

lemma place_expiry [simp]: "place (run_retransmit_closure e c w) = place w"
  by (simp add: run_retransmit_closure_def handle_retransmit_def Let_def)
    (simp add: place_def route_def send_packet_def Let_def)

lemma expiry_goes_home:
  assumes w: "aloft e m t rest 1 w" and p: "waiting e p dest 0 w w" "seg_is p m t FLAG_ACK data" and data: "length data \<le> 1024"
  shows "\<exists>h u q. expire e (Seq_timer h) w = Inr u \<and> place u = place w \<and> cwnd u = 1 \<and> aloft e m t rest 1 u
    \<and> udp_sends (udp u) = udp_sends (udp w) @ [(raw_data q, dest)] \<and> seg_is q m t FLAG_ACK data"
proof -
  have base: "base_inv w" and rn: "recv_next (rwnd w) = t" and short: "length data \<le> 65535"
    using w data by (simp_all add: aloft_def)
  have seq: "ntohl (seq_num (header p)) = m" and pl: "length (payload p) \<le> 65535"
    using p(2) short by (simp_all add: seg_is_def)
  obtain u where u: "timer_expires e m w = Inr u" "waiting e p dest (Suc 0) w u" "base_inv u" "same_connection w u" "cwnd u = 1"
    using waiting_resends [OF p(1) _ base p(2) rn short] by auto
  obtain c tm where c: "armed_closure (tmgr w) m = Some (c, tm)"
    using p(1) seq unfolding waiting_def by blast
  then have run: "u = run_retransmit_closure e c w"
    using timer_expires_armed [OF c, of e] u(1) by simp
  obtain h where h: "map_find m (timers (tmgr w)) = Some h"
    using c by (auto simp: armed_closure_def armed_seq_def split: option.splits)
  then have "expire e (Seq_timer h) w = Inr u"
    using u(1) by (simp add: timer_expires_def)
  moreover obtain qs where qs: "udp_sends (udp u) = udp_sends (udp w) @ map (\<lambda>q. (raw_data q, dest)) qs" "length qs = 1"
    "\<forall>q\<in>set qs. resent p t q"
    using u(2) rn unfolding waiting_def resent_times_def by auto
  then obtain q where q: "qs = [q]"
    by (auto simp: length_Suc_conv)
  then have "seg_is (q\<lparr>options := []\<rparr>) m t FLAG_ACK data" "raw_data q = raw_data (q\<lparr>options := []\<rparr>)"
    using qs(3) resent_parsed(2) [OF _ p(2)] by (simp_all add: raw_data_def)
  moreover have "reliable e (udp u)"
    using u(2) by (simp add: waiting_def)
  then have "aloft e m t rest 1 u"
    using w u(3,4) by (simp add: aloft_def same_connection_def)
  moreover have "place u = place w"
    by (simp add: run)
  ultimately show ?thesis
    using qs(1) q u(5) by (intro exI [of _ h] exI [of _ u] exI [of _ "q\<lparr>options := []\<rparr>"]) simp
qed

text \<open>
  The segment is behind what the session expects, unless the two sequence spaces happen to
  meet: it is answered with a bare acknowledgement.
\<close>

lemma strayed_home:
  assumes w: "flying e (x + 1) (y + 1) rest w" "cwnd w = 1" and p: "seg_is p (x + 1) (y + 1) FLAG_ACK data"
    and some: "data \<noteq> []" "rest \<noteq> []" and apart: "y \<noteq> x" "y \<noteq> x + 1"
  shows "\<exists>v. input e p w = Inr v \<and> place v = place w \<and> sends w v (send_next (swnd w)) (y + 1) FLAG_ACK []"
proof -
  have g: "base_inv w" "state w = ESTABLISHED" "recv_next (rwnd w) = y + 1" "reliable e (udp w)" "try_send_data w = []"
    "send_unack (swnd w) = x + 1" "send_next (swnd w) = x + 1 + 1"
    using w some(2) flying_full [OF w(1)] by (simp_all add: flying_defs Suc_le_eq min_def split: if_splits)
  have "\<not> ack_acceptable (y + 1) w"
  proof
    assume "ack_acceptable (y + 1) w"
    then have "x + 1 < y + 1" "y + 1 \<le> x + 1 + 1"
      using g(6,7) by (simp_all add: ack_acceptable_def)
    then have "y = x + 1"
      using inc_le [of "x + 1" "y + 1"] by (simp add: add.commute)
    with apart(2) show False
      by contradiction
  qed
  then show ?thesis
    using stray_data [OF g(1-5) _ p some(1)] apart(1) by auto
qed

section \<open>Properties\<close>

lemma carried_mono: "k \<le> k' \<Longrightarrow> carried c s k \<le> carried c s k'"
proof (induction k arbitrary: c k')
  case (Suc k)
  then show ?case
    by (cases k') auto
qed simp

text \<open>
  C2: The programs of the repository do what they are for. The client connects, writes its
  message before the connection is up, and closes when its delay is over; the server listens
  and appends what it reads to its buffer. If no datagram is lost, then after the three
  datagrams of the opening and four round trips (or more, in which nothing happens), wherever
  the server's idle callback runs in between, the buffer holds the message; and after the delay
  the four datagrams of the closing and the 2MSL timer take both sessions out of the maps of
  their stacks. No pointer is followed that dangles. This is for an initial sequence number of
  the client that is not among the last before the wrap: the number of its first byte plus the
  14 bytes of the message stays below \<open>2 ^ 32\<close>. (From the others the connection stalls, since
  no acknowledgement is accepted once \<open>send_next\<close> has wrapped with data in flight; see
  \<open>wrapped_window_accepts_no_ack\<close>.)
\<close>

theorem programs_deliver:
  assumes "reliable (base_env cse) (driver (new_stack (fst client_addr) (snd client_addr)))"
    and "reliable (base_env sse) (driver (new_stack (fst server_addr) (snd server_addr)))"
    and "unat (gen_initial_seq (base_env cse) 0 + 1) + 14 < 2 ^ 32" and "4 \<le> length idles"
  shows "\<exists>P P1 P2. programs_main cse = Inr P
    \<and> program_run cse sse ([Client_sent 0, Server_sent 0, Client_sent 1] @ rounds 2 1 idles @ [Server_idles]) P = Inr P1
    \<and> global_buffer (server_side P1) = message
    \<and> (let i = length (udp_sends (driver (client_stack (client_side P1)))); j = length (udp_sends (driver (server_stack (server_side P1))))
       in program_run cse sse [Delay_over, Client_sent i, Server_sent j, Server_idles, Server_sent (j + 1), Client_sent (i + 1),
            Client_timer 0 Two_msl] P1 = Inr P2)
    \<and> tcp_sessions (client_stack (client_side P2)) = [] \<and> tcp_sessions (server_stack (server_side P2)) = []
    \<and> global_buffer (server_side P2) = message"
proof -
  let ?x = "gen_initial_seq (base_env cse) 0 + 1" and ?y = "gen_initial_seq (base_env sse) 0 + 1"
  obtain P P' c s q where P: "programs_main cse = Inr P" "program_run cse sse [Client_sent 0, Server_sent 0, Client_sent 1] P = Inr P'"
    and ex: "exchanging cse sse ?x ?y message [] c s P'"
    and q: "sent_by (client_stack (client_side P')) 2 = Some (raw_data q, server_addr)" "seg_is q ?x ?y FLAG_ACK (take (cwnd c) message)"
    and n: "length (udp_sends (udp c)) = 3" "length (udp_sends (udp s)) = 1" "cwnd c = 1" "ssthresh c = 8"
    using programs_open [OF assms(1,2)] by blast
  have "carried 1 8 4 = 15"
    by code_simp
  then have "length message \<le> carried (cwnd c) (unat (ssthresh c)) (length idles)"
    using carried_mono [OF assms(4), of 1 8] n(3,4) message_length(1) by simp
  moreover have "0 < cwnd c" "length ([] :: u8 list) + length message \<le> 1024" "unat ?x + length message < 2 ^ 32"
    "2 + 1 = length (udp_sends (udp c))" "1 = length (udp_sends (udp s))"
    using n message_length(1) assms(3) by simp_all
  ultimately obtain P2 c2 s2 where P2: "program_run cse sse (rounds 2 1 idles) P' = Inr P2"
    "exchanging cse sse (?x + of_nat (length message)) ?y [] message c2 s2 P2"
    using exchange_rounds [OF ex message_length(2) _ q] by (metis append_Nil)
  then have "serving sse ?y (?x + of_nat (length message)) message s2 P2" "dialing cse (?x + of_nat (length message)) ?y [] c2 P2"
    by (simp_all add: exchanging_def)
  note side = this
  obtain s3 P3 where P3: "program_step cse sse Server_idles P2 = Inr P3" "client_side P3 = client_side P2"
    "serving sse ?y (?x + of_nat (length message)) message s3 P3" "global_buffer (server_side P3) = message"
    using serving_idle [OF side(1), of cse] by blast
  have ex3: "exchanging cse sse (?x + of_nat (length message)) ?y [] message c2 s3 P3"
    using side(2) P3(3) client_kept [OF P3(2)] by (simp add: exchanging_def)
  have run: "program_run cse sse ([Client_sent 0, Server_sent 0, Client_sent 1] @ rounds 2 1 idles @ [Server_idles]) P = Inr P3"
    unfolding program_run_append P(2) bind_res_Inr P2(1) using P3(1) by (simp del: program_step.simps)
  have drv: "driver (client_stack (client_side P3)) = udp c2" "driver (server_stack (server_side P3)) = udp s3"
    using ex3 by (simp_all add: exchanging_def dialing_def serving_def client_holds_def server_holds_def hosting_only_def hosting_def)
  obtain P4 c3 s4 where P4: "program_run cse sse [Delay_over, Client_sent (length (udp_sends (udp c2))), Server_sent (length (udp_sends (udp s3)))] P3 = Inr P4"
    "parting cse sse (?x + of_nat (length message)) ?y message c3 s4 P4"
    "length (udp_sends (udp c3)) = length (udp_sends (udp c2)) + 1" "length (udp_sends (udp s4)) = length (udp_sends (udp s3)) + 1"
    using client_parts [OF ex3 P3(4) refl refl] by blast
  obtain P5 where P5: "program_run cse sse [Server_idles, Server_sent (length (udp_sends (udp s3)) + 1), Client_sent (length (udp_sends (udp c2)) + 1),
      Client_timer 0 Two_msl] P4 = Inr P5" "tcp_sessions (client_stack (client_side P5)) = []" "tcp_sessions (server_stack (server_side P5)) = []"
    "global_buffer (server_side P5) = message"
    using server_parts [OF P4(2) P4(3) [symmetric] P4(4) [symmetric]] by blast
  have fin: "program_run cse sse ([Delay_over, Client_sent (length (udp_sends (udp c2))), Server_sent (length (udp_sends (udp s3)))]
      @ [Server_idles, Server_sent (length (udp_sends (udp s3)) + 1), Client_sent (length (udp_sends (udp c2)) + 1), Client_timer 0 Two_msl]) P3 = Inr P5"
    unfolding program_run_append P4(1) bind_res_Inr by (rule P5(1))
  show ?thesis
    unfolding Let_def by (intro exI conjI, rule P(1), rule run, rule P3(4), unfold drv, rule fin [unfolded append_Cons append_Nil], (rule P5)+)
qed

theorem programs_deliver_witness:
  "\<exists>P P1. programs_main example_stack_env = Inr P
    \<and> program_run example_stack_env example_stack_env
        ([Client_sent 0, Server_sent 0, Client_sent 1] @ rounds 2 1 [False, True, False, False] @ [Server_idles]) P = Inr P1
    \<and> global_buffer (server_side P1) = message"
proof -
  have rel: "reliable (base_env example_stack_env) (driver (new_stack ip port))" for ip port
    using example_reliable
    by (simp add: example_stack_env_def new_stack_def driver_init_def new_driver_def reliable_def)
  have "gen_initial_seq (base_env example_stack_env) 0 + 1 = 101"
    by (simp add: example_stack_env_def example_env_def session_env_def set_on_data_def
        set_on_closed_def set_on_recv_three_dup_ack_def Let_def)
  then have "unat (gen_initial_seq (base_env example_stack_env) 0 + 1) + 14 < 2 ^ 32"
    by simp
  from programs_deliver [OF rel rel this, of "[False, True, False, False]"] show ?thesis
    by (simp del: rounds.simps program_run.simps append_Cons) blast
qed

text \<open>
  C33: A lost byte of the client never reaches the server. The client's socket is bound to port
  9999 of the local host, which is where retransmitted data goes. If the first datagram with
  data is lost, then when its timer expires the byte is sent to the client itself, whose session
  takes it for the server's, finds it out of order, and answers with an acknowledgement that
  carries nothing; the server is as it was. (The initial sequence numbers are assumed not to
  be so close that the byte passes for the server's next one or acknowledges itself.)
\<close>

theorem lost_data_comes_back:
  assumes "reliable (base_env cse) (driver (new_stack (fst client_addr) (snd client_addr)))"
    and "reliable (base_env sse) (driver (new_stack (fst server_addr) (snd server_addr)))"
    and "gen_initial_seq (base_env sse) 0 \<noteq> gen_initial_seq (base_env cse) 0"
    and "gen_initial_seq (base_env sse) 0 \<noteq> gen_initial_seq (base_env cse) 0 + 1"
  shows "\<exists>P P1 P2 P3 h p a. programs_main cse = Inr P
    \<and> program_run cse sse [Client_sent 0, Server_sent 0, Client_sent 1] P = Inr P1
    \<and> program_step cse sse (Client_timer 0 (Seq_timer h)) P1 = Inr P2
    \<and> sent_by (client_stack (client_side P2)) 3 = Some (raw_data p, client_addr) \<and> payload p = take 1 message
    \<and> program_step cse sse (Client_sent 3) P2 = Inr P3
    \<and> sent_by (client_stack (client_side P3)) 4 = Some (raw_data a, server_addr) \<and> payload a = []
    \<and> server_side P3 = server_side P1 \<and> global_buffer (server_side P3) = []"
proof -
  let ?x = "gen_initial_seq (base_env cse) 0 + 1" and ?y = "gen_initial_seq (base_env sse) 0 + 1"
  obtain P P1 c s p where P: "programs_main cse = Inr P" "program_run cse sse [Client_sent 0, Server_sent 0, Client_sent 1] P = Inr P1"
    and ex: "exchanging cse sse ?x ?y message [] c s P1" and n: "length (udp_sends (udp c)) = 3" "cwnd c = 1"
    and p: "waiting (client_env cse) p client_addr 0 c c" "seg_is p ?x ?y FLAG_ACK (take 1 message)"
    using programs_open [OF assms(1,2)] by metis
  have c: "client_holds c P1" "flying (client_env cse) ?x ?y message c" and buf: "global_buffer (server_side P1) = []"
    using ex by (simp_all add: exchanging_def dialing_def serving_def)
  have air: "aloft (client_env cse) ?x ?y message 1 c"
    using c(2) n(2) message_length(1) by (simp add: flying_def)
  obtain h w q where w: "expire (client_env cse) (Seq_timer h) c = Inr w" "place w = place c"
    "flying (client_env cse) ?x ?y message w" "cwnd w = 1"
    and q: "udp_sends (udp w) = udp_sends (udp c) @ [(raw_data q, client_addr)]" "seg_is q ?x ?y FLAG_ACK (take 1 message)"
    using expiry_goes_home [OF air p] message_length(1) by (auto simp: flying_def)
  obtain P2 where P2: "program_step cse sse (Client_timer 0 (Seq_timer h)) P1 = Inr P2" "client_holds w P2" "server_side P2 = server_side P1"
    using client_expires [OF c(1) w(1,2)] by blast
  have sent: "sent_by (client_stack (client_side P2)) 3 = Some (raw_data q, client_addr)"
    using q(1) n(1) by (simp add: sent_by_sides(1) [OF P2(2)] nth_append)
  have some: "take 1 message \<noteq> []"
    using message_length by simp
  obtain v where v: "input (client_env cse) q w = Inr v" "place v = place w" "sends w v (send_next (swnd w)) ?y FLAG_ACK []"
    using strayed_home [OF w(3,4) q(2) some message_length(2) assms(3,4)] by blast
  obtain P3 where P3: "program_step cse sse (Client_sent 3) P2 = Inr P3" "client_holds v P3" "server_side P3 = server_side P2"
    using client_hears_itself [OF P2(2) sent q(2) v(1,2)] by blast
  have four: "4 = length (udp_sends (udp w))"
    using q(1) n(1) by simp
  obtain a where a: "sent_by (client_stack (client_side P3)) 4 = Some (raw_data a, server_addr)" "seg_is a (send_next (swnd w)) ?y FLAG_ACK []"
    by (rule client_sends [OF v(3) P3(2) four])
  have load: "payload q = take 1 message" "payload a = []"
    using q(2) a(2) by (simp_all add: seg_is_def)
  show ?thesis
    by (intro exI conjI, rule P(1), rule P(2), rule P2(1), rule sent, rule load(1), rule P3(1), rule a(1), rule load(2))
      (simp_all add: P2(3) P3(3) buf)
qed

theorem lost_data_comes_back_witness:
  "\<exists>P P1 P2 P3 h p. let sse = example_stack_env\<lparr>base_env := (base_env example_stack_env)\<lparr>gen_initial_seq := \<lambda>_. 5000\<rparr>\<rparr>
    in programs_main example_stack_env = Inr P
    \<and> program_run example_stack_env sse [Client_sent 0, Server_sent 0, Client_sent 1] P = Inr P1
    \<and> program_step example_stack_env sse (Client_timer 0 (Seq_timer h)) P1 = Inr P2
    \<and> sent_by (client_stack (client_side P2)) 3 = Some (raw_data p, (''127.0.0.1'', 9999)) \<and> payload p = [0x48]
    \<and> program_step example_stack_env sse (Client_sent 3) P2 = Inr P3 \<and> server_side P3 = server_side P1"
proof -
  let ?sse = "example_stack_env\<lparr>base_env := (base_env example_stack_env)\<lparr>gen_initial_seq := \<lambda>_. 5000\<rparr>\<rparr>"
  have rel: "reliable (base_env example_stack_env) (driver (new_stack ip port))" for ip port
    using example_reliable
    by (simp add: example_stack_env_def new_stack_def driver_init_def new_driver_def reliable_def)
  then have rel': "reliable (base_env ?sse) (driver (new_stack ip port))" for ip port
    by (simp add: reliable_def)
  have isn: "gen_initial_seq (base_env example_stack_env) 0 = 100"
    by (simp add: example_stack_env_def example_env_def session_env_def set_on_data_def
        set_on_closed_def set_on_recv_three_dup_ack_def Let_def)
  have ne: "gen_initial_seq (base_env ?sse) 0 \<noteq> gen_initial_seq (base_env example_stack_env) 0"
    "gen_initial_seq (base_env ?sse) 0 \<noteq> gen_initial_seq (base_env example_stack_env) 0 + 1"
    by (simp_all add: isn)
  have "take 1 message = [0x48]"
    by (simp add: message_def)
  then show ?thesis
    using lost_data_comes_back [OF rel rel' ne] unfolding Let_def client_addr_def by metis
qed

end
