(* ===== verification/Spec2Isabelle.thy ===== *)
theory Spec2Isabelle
  imports Stack_Transfer State_Graph Reception Congestion Timer_Bounds Internet_Checksum Corner_Cases Slow_Start Duplex
    Opening_Losses Closing Data_Losses Stack_Addresses Driver_Memory Initial_Seq Program_Runs
begin

text \<open>
  A verification development for MyuTCP, a TCP in user space that carries its segments in UDP
  datagrams, on one thread driven by the libuv loop.

  \<^bold>\<open>The program and its model.\<close> Every part is a shallow embedding: a class is a record, a
  member function a function that takes and returns the state, an exception or a call that
  does not return a value of type \<open>'a result\<close> (\<open>Prelude\<close>). Integers are words of the
  program's width and wrap as they do there; byte orders are swapped where the code swaps them.

  \<^item> \<open>core/RingBuffer.h\<close>, \<open>RingQueue\<close>: \<open>Ring_Queue\<close>. The array, its indices and its size; every
    operation, with the exceptions it throws.
  \<^item> \<open>core/segment.h\<close> and the flags and states of \<open>core/tcb.h\<close>: \<open>Segment\<close>. The packed header and
    its bytes on a little-endian machine.
  \<^item> \<open>network/UdpDriver.h\<close>, \<open>.cpp\<close>: \<open>Udp_Driver\<close>. Binding, sending with the simulated loss, parsing
    and dispatch; the datagrams handed to libuv are recorded in order. \<open>Driver_Memory\<close> adds the
    receive buffers and send contexts that the driver shares with libuv.
  \<^item> \<open>util/gen_iss.h\<close>: \<open>Initial_Seq\<close>. The generator of initial sequence numbers.
  \<^item> \<open>network/TimerManager.h\<close>, \<open>.cpp\<close>: \<open>Timer_Manager\<close> on the ordered map of \<open>Std_Map\<close>. The requests
    made of libuv are recorded in order, and what is armed is read off them.
  \<^item> \<open>core/sw.h\<close>, \<open>core/tcb.h\<close>, \<open>core/tcb.cpp\<close>, \<open>TcpSession\<close>: \<open>Checksum\<close> (both checksum routines),
    \<open>Tcp_Session\<close> (windows, sending, retransmission, acknowledgements, reassembly, the calls of
    the application, callbacks) and \<open>Tcp_Fsm\<close> (opening, the handler of every state, dispatch,
    timers). A session works in a world: itself, the driver it shares, the count of initial
    sequence numbers drawn, and the requests its callbacks make of the stack.
  \<^item> \<open>core/stack.h\<close>, \<open>util/parse_ip.h\<close>, \<open>TcpStack\<close>: \<open>Tcp_Stack\<close>. The map of sessions, the ready
    queue of raw pointers, creation, demultiplexing, the idle callback, stopping, destruction. A
    pointer is a number; following one that is not in the map is \<open>Use_after_free\<close>.
  \<^item> \<open>test/client_instance.cpp\<close> and \<open>test/server_instance.cpp\<close>: \<open>Programs\<close>. The two \<open>main\<close>s, the
    client's timer with its raw pointer, the server's application logic with the buffer it
    captures, and both on one host, where datagrams go by their destination address.

  A run is a list of events: packets, timer expiries and calls of the application for a
  session (\<open>session_run\<close>, in \<open>Session_Invariants\<close>), the same for two sessions
  joined by a network that loses, repeats and reorders (\<open>net_run\<close>, \<open>Network\<close>), and datagrams,
  timers, idle callbacks and calls for a stack (\<open>stack_run\<close>, \<open>Stack_Invariants\<close>), and the same for
  the two programs (\<open>program_run\<close>, \<open>Programs\<close>). Events come in
  any order, so what is proved of runs holds for every schedule of the loop.

  \<^bold>\<open>What is shown.\<close>

  \<^item> Data structures: \<open>Ring_Queue\<close> (refinement of a bounded list), \<open>Std_Map\<close>, \<open>Timer_Manager\<close>
    (refinement of a map from sequence numbers to armed timers; the handles that restarting
    leaks), \<open>Udp_Driver\<close> (round trip of datagrams), \<open>Driver_Memory\<close> (every block is deleted once
    and none leaks), \<open>Checksum\<close> (round trip, detection of a changed byte), \<open>Internet_Checksum\<close>
    (equivalence with the sum of RFC 1071), \<open>Initial_Seq\<close> (what the numbers give away).
  \<^item> One session: \<open>Session_Invariants\<close> (no call fails or hangs; when the reassembly loop returns),
    \<open>Side_Conditions\<close> (two contracts for conditions that ride along with the invariant),
    \<open>Wire_Format\<close> (every datagram is a well-formed segment to a known address), \<open>Timer_Bounds\<close>,
    \<open>Fsm_Spec\<close> (refinement of an abstract automaton), \<open>State_Graph\<close> (guards, and no way back),
    \<open>Reception\<close>, \<open>Loss_Recovery\<close> and \<open>Congestion\<close> (retransmission schedule, window, thresholds),
    \<open>Corner_Cases\<close> (what goes wrong and when).
  \<^item> Two sessions: \<open>Emission\<close> and \<open>Byte_Stream\<close> (what a session sends and delivers, as positions in
    two byte streams), \<open>Network\<close> (each side reads a prefix of what the other wrote, whatever the
    network does), \<open>Data_Transfer\<close> and \<open>Slow_Start\<close> (without loss: opening, one exchange, any
    number of round trips, closing, and a whole conversation), \<open>Duplex\<close> (both directions at once),
    \<open>Early_Data\<close> (data written before the connection is up); with loss, on the contract of
    \<open>Resending\<close>, \<open>Opening_Losses\<close>, \<open>Data_Losses\<close> and \<open>Closing\<close>: what the retransmissions repair when
    a connection opens, transfers data and closes, and what they do not (a lost last
    acknowledgement, crossing closes, data for a half-closed connection).
  \<^item> The stack: \<open>Session_Frame\<close> and \<open>Stack_Invariants\<close> (its invariant over every run, isolation of
    sessions, whom a datagram reaches, connection requests, resets), \<open>Stack_Addresses\<close> (whom it sends to),
    \<open>Stack_Operations\<close> (stopping, serving the ready queue, who owns the driver), \<open>Hosting\<close> (what is
    known of a session carries over to the stack that owns it), \<open>Stack_Transfer\<close>
    (from the driver to the application, and two stacks that connect).
  \<^item> The programs: \<open>Program_Events\<close> (one event on one side) and \<open>Program_Runs\<close> (the client's
    message reaches the server's buffer and both stacks end without sessions; a lost byte comes
    back to the client).

  \<^bold>\<open>Interfaces.\<close> \<open>std_map\<close> (interpreted for the ordered association lists), \<open>bounded_queue\<close>
  (\<open>RingQueue\<close>), \<open>timer_service\<close> (\<open>TimerManager\<close>), \<open>codec\<close> (datagrams), \<open>machine\<close> (the runs of a
  session, of a network, of a stack and of the programs), \<open>simulation\<close> (the state graph), \<open>resending\<close> (a segment
  that is sent until it is answered: \<open>syn\<close>, \<open>control\<close>, \<open>data\<close>), \<open>session_condition\<close>
  (\<open>posting\<close>: what a session sends) and \<open>side_condition\<close>, which is one that does not look at what
  is sent (\<open>frame\<close>: what a session does to the stack; \<open>bounds\<close>: how long timers run).

  \<^bold>\<open>Loops.\<close> The loops over maps, buffers and batches are total functions with their measures. The
  reassembly loop can run forever and is a \<open>partial_function\<close>; that it does not in any run is
  proved. So can the loop at the end of \<open>stop_and_destory\<close>, which depends on libuv. There is no
  fuel.

  \<^bold>\<open>Assumptions.\<close> \<open>quiet_env\<close>: the callbacks only notify, as those that \<open>create_session\<close> installs
  do; \<open>reliable\<close>: the simulated loss loses nothing; \<open>app_ok\<close> and \<open>unobtrusive\<close>: the application
  logic uses a session through its member functions, as is \<open>app_posts\<close>; \<open>uv_run\<close>: libuv calls the
  driver back as its documentation says. The properties that follow a transfer to its end
  (\<open>programs_deliver\<close>, \<open>conversation\<close>, \<open>slow_start_delivers\<close>, \<open>data_survives_loss\<close>,
  \<open>both_directions\<close>) exclude sequence numbers that wrap, and say so: the code compares the numbers
  as integers, and a transfer across the wrap stalls (\<open>wrapped_window_accepts_no_ack\<close>). The safety
  properties hold there too.

  \<^bold>\<open>Not modelled.\<close> The loop of libuv itself, whose callbacks are events in any order, and its
  functions, which are parameters (\<open>UdpDriver::stop\<close> passes the address of a pointer where a handle
  is expected, so stopping a stack is undefined for a libuv that minds); the last step of
  \<open>stop_and_destory\<close>, \<open>uv_loop_close\<close>, whose status only decides what is logged; \<open>uv_ip4_addr\<close>, whose
  failure the program ignores: an address is the text and port given to it, and a datagram is
  recorded as going there; the memory of the timer handles, of which only the requests are
  recorded (the 2MSL handle is freed with its manager and never closed); logging; \<open>rand\<close>, \<open>std::random_device\<close> and
  \<open>inet_ntop\<close>, which are parameters.

  \<^bold>\<open>Open.\<close> Data under loss is followed for a peer at the default address of its retransmission only;
  for any other, that address is what prevents recovery. Transfers of both directions under loss.
  The two programs run through every schedule of the idle callback, not of the network.
\<close>

end
